(* ===== verification/Prelude.thy ===== *)
theory Prelude
  imports Main "HOL-Library.AList" "HOL-Library.Multiset"
begin

text \<open>
  Shared vocabulary of the Gabriel development: the names of the Python values the sources pass
  around, Python's insertion-ordered dictionaries and deques, exceptions as values, and the generic
  lemmas and simplification collections that the component theories use.
\<close>

section \<open>Names of basic Python values\<close>

text \<open>
  A Python \<open>str\<close> and a Python \<open>bytes\<close> are both character lists; the constructors that carry them
  keep them apart.  Client addresses are opaque keys (a ZeroMQ identity, a websocket remote address
  or a gRPC session id).  A \<open>ctx\<close> is the identity of one gRPC engine stream (the servicer context
  object that keys \<open>_engine_workers\<close>).
\<close>

type_synonym bytes = "char list"
type_synonym address = string
type_synonym ctx = nat
type_synonym producer_id = string
type_synonym engine_id = string

text \<open>Exceptions that the modelled code raises or lets through.\<close>

datatype py_exn =
    KeyError
  | AttributeError
  | TypeError
  | ValueError
  | DecodeError
  | RpcWriteError
  | ConnectionClosed
  | DisconnectedError
  | EngineHandlerError
  | ZeroDivisionError
  | AssertionError
  | FileNotFoundError
  | StopIteration
  | GenericException

section \<open>Collections of simplification rules\<close>

named_theorems dict_simps \<open>lookup after update and delete of a Python dictionary\<close>
named_theorems count_simps \<open>counting lemmas used by the token accounting\<close>

text \<open>Membership in a map's domain is kept as it is; proofs unfold it where they need to.\<close>

declare domIff [iff del]

section \<open>Python dictionaries\<close>

text \<open>
  A dictionary whose iteration order matters is an association list with distinct keys: assigning an
  existing key keeps its position, a new key goes to the end, and iteration follows the list.
\<close>

abbreviation dict_get :: "('k \<times> 'v) list \<Rightarrow> 'k \<Rightarrow> 'v option" where
  "dict_get d k \<equiv> map_of d k"

abbreviation dict_set :: "'k \<Rightarrow> 'v \<Rightarrow> ('k \<times> 'v) list \<Rightarrow> ('k \<times> 'v) list" where
  "dict_set k v d \<equiv> AList.update k v d"

abbreviation dict_del :: "'k \<Rightarrow> ('k \<times> 'v) list \<Rightarrow> ('k \<times> 'v) list" where
  "dict_del k d \<equiv> AList.delete k d"

abbreviation dict_wf :: "('k \<times> 'v) list \<Rightarrow> bool" where
  "dict_wf d \<equiv> distinct (map fst d)"

lemma dict_get_set [dict_simps, simp]:
  "dict_get (dict_set k v d) k' = (if k' = k then Some v else dict_get d k')"
  by (simp add: update_conv')

lemma dict_get_del [dict_simps]:
  "dict_get (dict_del k d) k' = (if k' = k then None else dict_get d k')"
  by (simp add: delete_conv')

lemma dict_wf_set [simp, intro]: "dict_wf d \<Longrightarrow> dict_wf (dict_set k v d)"
  by (rule distinct_update)

lemma dict_wf_del [simp, intro]: "dict_wf d \<Longrightarrow> dict_wf (dict_del k d)"
  by (rule distinct_delete)

lemma dict_keys_set: "fst ` set (dict_set k v d) = insert k (fst ` set d)"
  by (simp add: dom_update)

lemma dict_keys_del: "fst ` set (dict_del k d) = fst ` set d - {k}"
  by (auto simp: AList.delete_eq)

lemma dict_get_in_keys: "dict_get d k = Some v \<Longrightarrow> k \<in> fst ` set d"
  by (metis domI dom_map_of_conv_image_fst)

lemma dict_get_mem: "dict_wf d \<Longrightarrow> (k, v) \<in> set d \<longleftrightarrow> dict_get d k = Some v"
  by simp

lemma length_dict_set_present:
  "k \<in> fst ` set d \<Longrightarrow> length (dict_set k v d) = length d"
  by (induction d) auto

section \<open>Endpoints\<close>

text \<open>Decimal text of an integer, as an f-string gives it.\<close>

fun decimal :: "nat \<Rightarrow> string" where
  "decimal n =
     (if n < 10 then [char_of (48 + n)] else decimal (n div 10) @ [char_of (48 + n mod 10)])"

declare decimal.simps [simp del]

definition str_int :: "int \<Rightarrow> string" where
  "str_int i = (if i < 0 then ''-'' @ decimal (nat (- i)) else decimal (nat i))"

text \<open>A port number or a path, as \<open>Union[int, str]\<close>.\<close>

datatype endpoint = Port int | Path string

definition endpoint_text :: "endpoint \<Rightarrow> string" where
  "endpoint_text ep = (case ep of Port n \<Rightarrow> str_int n | Path p \<Rightarrow> p)"

end
