(* ===== verification/Tls_Utils.thy ===== *)
theory Tls_Utils
  imports Prelude
begin

text \<open>
  \<open>tls_utils.py\<close>: which gRPC credentials a configuration gives.  The file system is the argument
  \<open>read_file\<close>; the credentials keep what is passed to gRPC.
\<close>

section \<open>Reading files\<close>

text \<open>Python's truth value of an optional string, and \<open>_read\<close>.\<close>

definition given :: "string option \<Rightarrow> bool" where
  "given path = (case path of None \<Rightarrow> False | Some p \<Rightarrow> p \<noteq> [])"

definition read_optional :: "(string \<Rightarrow> bytes option) \<Rightarrow> string option \<Rightarrow> py_exn + bytes option" where
  "read_optional read_file path =
     (case path of
        None \<Rightarrow> Inr None
      | Some p \<Rightarrow> (case read_file p of None \<Rightarrow> Inl FileNotFoundError | Some b \<Rightarrow> Inr (Some b)))"

section \<open>Credentials\<close>

record server_credentials =
  sc_private_key :: "bytes option"
  sc_certificate_chain :: "bytes option"
  sc_root_certificates :: "bytes option"
  sc_require_client_auth :: bool

record channel_credentials =
  cc_root_certificates :: "bytes option"
  cc_private_key :: "bytes option"
  cc_certificate_chain :: "bytes option"

definition build_server_credentials ::
  "(string \<Rightarrow> bytes option) \<Rightarrow> string option \<Rightarrow> string option \<Rightarrow> string option \<Rightarrow>
     py_exn + server_credentials option" where
  "build_server_credentials read_file cert_path key_path ca_cert_path =
     (if \<not> given cert_path \<or> \<not> given key_path then Inr None
      else case read_optional read_file key_path of
        Inl e \<Rightarrow> Inl e
      | Inr key \<Rightarrow>
          (case read_optional read_file cert_path of
             Inl e \<Rightarrow> Inl e
           | Inr cert \<Rightarrow>
               (case read_optional read_file ca_cert_path of
                  Inl e \<Rightarrow> Inl e
                | Inr ca \<Rightarrow>
                    Inr (Some \<lparr>sc_private_key = key, sc_certificate_chain = cert,
                      sc_root_certificates = ca, sc_require_client_auth = (ca_cert_path \<noteq> None)\<rparr>))))"

definition build_channel_credentials ::
  "(string \<Rightarrow> bytes option) \<Rightarrow> string option \<Rightarrow> string option \<Rightarrow> string option \<Rightarrow>
     py_exn + channel_credentials option" where
  "build_channel_credentials read_file ca_cert_path cert_path key_path =
     (if \<not> given ca_cert_path \<and> \<not> given cert_path \<and> \<not> given key_path then Inr None
      else if given cert_path \<noteq> given key_path then Inl ValueError
      else case read_optional read_file ca_cert_path of
        Inl e \<Rightarrow> Inl e
      | Inr ca \<Rightarrow>
          (case read_optional read_file key_path of
             Inl e \<Rightarrow> Inl e
           | Inr key \<Rightarrow>
               (case read_optional read_file cert_path of
                  Inl e \<Rightarrow> Inl e
                | Inr cert \<Rightarrow>
                    Inr (Some \<lparr>cc_root_certificates = ca, cc_private_key = key,
                      cc_certificate_chain = cert\<rparr>))))"

section \<open>What the credentials guarantee\<close>

text \<open>
  A server that has credentials holds a key and a certificate that were read from the files, and asks
  clients for a certificate only together with the authority that checks it.
\<close>

lemma server_credentials_sound:
  assumes "build_server_credentials read_file cert key ca = Inr (Some c)"
  shows "sc_private_key c \<noteq> None" and "sc_certificate_chain c \<noteq> None"
    and "sc_require_client_auth c \<longleftrightarrow> ca \<noteq> None"
    and "sc_require_client_auth c \<longleftrightarrow> sc_root_certificates c \<noteq> None"
  using assms
  by (auto simp: build_server_credentials_def read_optional_def given_def split: if_splits option.splits sum.splits)

text \<open>A client presents a certificate only with its key.\<close>

lemma channel_credentials_paired:
  assumes "build_channel_credentials read_file ca cert key = Inr (Some c)"
  shows "(cc_certificate_chain c \<noteq> None \<and> given cert) = (cc_private_key c \<noteq> None \<and> given key)"
  using assms
  by (auto simp: build_channel_credentials_def read_optional_def given_def split: if_splits option.splits sum.splits)

end
