(* ===== verification/Protocol.thy ===== *)
theory Protocol
  imports Prelude
begin

text \<open>
  The messages of the Gabriel protocol (\<open>gabriel.proto\<close>) as datatypes and records.  A protobuf
  \<open>oneof\<close> is a datatype with one constructor per member and one for "nothing set"; reading a member
  that is not set gives its default value, as the generated Python classes do.
\<close>

section \<open>Payloads\<close>

text \<open>\<open>google.protobuf.Any\<close>: a type URL and the packed value.\<close>

datatype proto_any = ProtoAny (type_url: string) (any_value: bytes)

definition default_any :: proto_any where
  "default_any = ProtoAny [] []"

datatype payload_type = PAYLOAD_TYPE_UNSPECIFIED | TEXT | IMAGE | AUDIO | VIDEO | OTHER

datatype frame_payload =
    StringPayload string
  | BytePayload bytes
  | AnyPayload proto_any

record input_frame =
  payload_type :: payload_type
  frame_payload :: "frame_payload option"

definition default_input_frame :: input_frame where
  "default_input_frame = \<lparr>payload_type = PAYLOAD_TYPE_UNSPECIFIED, frame_payload = None\<rparr>"

section \<open>Status\<close>

text \<open>
  Proto3 enums are open: a message can carry a number that has no name.  \<open>StatusCode.Name\<close> raises
  \<open>ValueError\<close> on such a number.
\<close>

datatype status_code =
    STATUS_CODE_UNSPECIFIED
  | SUCCESS
  | UNSPECIFIED_ERROR
  | ENGINE_ERROR
  | WRONG_INPUT_FORMAT
  | NO_ENGINE_FOR_INPUT
  | NO_TOKENS
  | SERVER_DROPPED_FRAME
  | UNRECOGNIZED_CODE int

definition status_code_has_name :: "status_code \<Rightarrow> bool" where
  "status_code_has_name c = (case c of UNRECOGNIZED_CODE _ \<Rightarrow> False | _ \<Rightarrow> True)"

text \<open>
  Status messages are human-readable text.  Each formatted string of the sources is one constructor
  that keeps the values the string is built from.
\<close>

datatype message =
    Text string
  | MsgRegisterFirst
  | MsgNoTokens
  | MsgNoTargetEngines "string list" "string list"
  | MsgProducerQueueFull producer_id
  | MsgInputQueueFull
  | MsgEngineDisconnected engine_id
  | MsgIncorrectResultType
  | MsgIncorrectStatusType
  | MsgNoPayload
  | MsgUnsupportedPayload

definition empty_message :: message where
  "empty_message = Text []"

record status =
  code :: status_code
  message_text :: message

definition default_status :: status where
  "default_status = \<lparr>code = STATUS_CODE_UNSPECIFIED, message_text = empty_message\<rparr>"

section \<open>Results\<close>

datatype result_payload =
    StringResult string
  | BytesResult bytes
  | AnyResult proto_any

record result =
  res_status :: status
  res_payload :: "result_payload option"
  res_target_engine_id :: engine_id
  res_frame_id :: int

definition default_result :: result where
  "default_result = \<lparr>res_status = default_status, res_payload = None,
     res_target_engine_id = [], res_frame_id = 0\<rparr>"

section \<open>Messages between clients and the server\<close>

record input_msg =
  in_frame_id :: int
  in_producer_id :: producer_id
  in_target_engine_ids :: "engine_id list"
  in_input_frame :: input_frame

definition default_input_msg :: input_msg where
  "default_input_msg = \<lparr>in_frame_id = 0, in_producer_id = [], in_target_engine_ids = [],
     in_input_frame = default_input_frame\<rparr>"

datatype from_client =
    Input input_msg
  | Registration "proto_any option"
  | FromClientUnset

text \<open>\<open>WhichOneof("message_type") == "registration"\<close>, and the two member accessors.\<close>

fun is_registration :: "from_client \<Rightarrow> bool" where
  "is_registration (Registration _) = True"
| "is_registration _ = False"

fun input_of :: "from_client \<Rightarrow> input_msg" where
  "input_of (Input i) = i"
| "input_of _ = default_input_msg"

fun registration_client_info :: "from_client \<Rightarrow> proto_any" where
  "registration_client_info (Registration (Some a)) = a"
| "registration_client_info _ = default_any"

record result_wrapper =
  rw_producer_id :: producer_id
  rw_return_token :: bool
  rw_result :: result

datatype to_client =
    Registered int "engine_id list"
  | ResultWrapper result_wrapper
  | EngineIdsUpdate "engine_id list"
  | ToClientUnset

section \<open>Messages between engines and the server\<close>

datatype from_engine =
    Register engine_id bool
  | EngineResult result
  | FromEngineUnset

fun engine_result_of :: "from_engine \<Rightarrow> result" where
  "engine_result_of (EngineResult r) = r"
| "engine_result_of _ = default_result"

record to_engine =
  te_input_frame :: input_frame
  te_client_info :: proto_any

section \<open>Observable effects of the server\<close>

text \<open>
  What a handler sends, in order: a message to the client at an address, a message on an engine
  stream, or a result handed to a result sink.
\<close>

datatype effect =
    SendClient address to_client
  | SendEngine ctx to_engine
  | SendSink nat result

text \<open>How many token returns for one producer of one client a list of effects carries.\<close>

fun returns_token :: "address \<Rightarrow> producer_id \<Rightarrow> effect \<Rightarrow> bool" where
  "returns_token a p (SendClient b (ResultWrapper w)) =
     (b = a \<and> rw_producer_id w = p \<and> rw_return_token w)"
| "returns_token a p _ = False"

definition token_returns :: "address \<Rightarrow> producer_id \<Rightarrow> effect list \<Rightarrow> nat" where
  "token_returns a p os = length (filter (returns_token a p) os)"

lemma token_returns_Nil [simp, count_simps]: "token_returns a p [] = 0"
  by (simp add: token_returns_def)

lemma token_returns_Cons [simp, count_simps]:
  "token_returns a p (x # os) = (if returns_token a p x then 1 else 0) + token_returns a p os"
  by (simp add: token_returns_def)

lemma token_returns_append [simp, count_simps]:
  "token_returns a p (xs @ ys) = token_returns a p xs + token_returns a p ys"
  by (simp add: token_returns_def)

end
