(* ===== verification/Producer_Info.thy ===== *)
theory Producer_Info
  imports Protocol
begin

text \<open>
  \<open>_Metadata\<close>, \<open>_MetadataPayload\<close> and the queue half of \<open>_ProducerInfo\<close> (\<open>server_runner.py\<close>): one
  producer's bounded input queue and its in-flight input.  The locale \<open>bounded_queue\<close> is the
  interface of a bounded FIFO queue; it is also interpreted by the local server's input queue.
\<close>

section \<open>Data\<close>

record metadata =
  md_frame_id :: int
  md_producer_id :: producer_id
  md_client_address :: address
  md_target_engine_ids :: "engine_id list"
  md_client_info :: proto_any

record metadata_payload =
  mp_metadata :: metadata
  mp_payload :: input_frame

text \<open>
  \<open>pending_token_return\<close> starts as Python's \<open>None\<close>, so it is an optional Boolean; only its truth
  value is tested.  \<open>target_engines\<close> is a set of engine worker objects, named by their stream.
\<close>

record producer_info =
  pi_producer_id :: producer_id
  input_queue :: "metadata_payload list"
  pi_size_for_queues :: nat
  latest_input_sent_to_engine :: "metadata_payload option"
  target_engines :: "ctx list option"
  pending_token_return :: "bool option"

definition new_producer_info :: "producer_id \<Rightarrow> nat \<Rightarrow> producer_info" where
  "new_producer_info pid maxlen =
     \<lparr>pi_producer_id = pid, input_queue = [], pi_size_for_queues = maxlen,
      latest_input_sent_to_engine = None, target_engines = None, pending_token_return = None\<rparr>"

text \<open>Python's truth value of \<open>pending_token_return\<close>.\<close>

definition pending :: "producer_info \<Rightarrow> bool" where
  "pending p \<longleftrightarrow> pending_token_return p = Some True"

section \<open>Queue operations\<close>

definition add_input_to_queue :: "metadata_payload \<Rightarrow> producer_info \<Rightarrow> bool \<times> producer_info" where
  "add_input_to_queue mp p =
     (if length (input_queue p) = pi_size_for_queues p then (False, p)
      else (True, p\<lparr>input_queue := input_queue p @ [mp]\<rparr>))"

definition get_input_from_queue :: "producer_info \<Rightarrow> metadata_payload option \<times> producer_info" where
  "get_input_from_queue p =
     (case input_queue p of
        [] \<Rightarrow> (None, p)
      | mp # rest \<Rightarrow>
          (Some mp, p\<lparr>latest_input_sent_to_engine := Some mp, pending_token_return := Some True,
                      input_queue := rest\<rparr>))"

section \<open>The interface of a bounded FIFO queue\<close>

text \<open>
  \<open>full\<close> is decided by the implementation; \<open>put\<close> refuses exactly the full queue and otherwise
  appends, \<open>get\<close> removes from the front.
\<close>

locale bounded_queue =
  fixes items :: "'q \<Rightarrow> 'a list"
    and full :: "'q \<Rightarrow> bool"
    and put :: "'a \<Rightarrow> 'q \<Rightarrow> bool \<times> 'q"
    and get :: "'q \<Rightarrow> 'a option \<times> 'q"
    and fits :: "'q \<Rightarrow> nat \<Rightarrow> bool"
  assumes put_full: "full q \<Longrightarrow> put x q = (False, q)"
    and put_room: "\<not> full q \<Longrightarrow> fst (put x q) \<and> items (snd (put x q)) = items q @ [x]"
    and get_empty: "items q = [] \<Longrightarrow> get q = (None, q)"
    and get_front: "items q = x # xs \<Longrightarrow> fst (get q) = Some x \<and> items (snd (get q)) = xs"
    and fits_put: "\<not> full q \<Longrightarrow> fits q (length (items q)) \<Longrightarrow>
      fits (snd (put x q)) (Suc (length (items q)))"
    and fits_get: "fits q (length (items q)) \<Longrightarrow>
      fits (snd (get q)) (length (items (snd (get q))))"
begin

lemma put_accepts: "fst (put x q) \<longleftrightarrow> \<not> full q"
  using put_full put_room by (cases "full q") auto

lemma put_items: "items (snd (put x q)) = (if full q then items q else items q @ [x])"
  using put_full [of q x] put_room [of q x] by simp

text \<open>A queue that fits its capacity keeps fitting it.\<close>

lemma put_fits: "fits q (length (items q)) \<Longrightarrow> fits (snd (put x q)) (length (items (snd (put x q))))"
  using put_full [of q x] put_room [of q x] fits_put [of q x] by (cases "full q") auto

text \<open>First in, first out: what is put last comes out after everything already queued.\<close>

lemma get_items: "fst (get q) = (case items q of [] \<Rightarrow> None | x # _ \<Rightarrow> Some x) \<and>
    items (snd (get q)) = tl (items q)"
  using get_empty [of q] get_front [of q] by (cases "items q") auto

lemma fifo_order:
  assumes "fst (put x q)"
  shows "items (snd (put x q)) = items q @ [x]"
    and "items q \<noteq> [] \<Longrightarrow> fst (get (snd (put x q))) = fst (get q)"
    and "items q = [] \<Longrightarrow> fst (get (snd (put x q))) = Some x"
proof -
  from assms have "\<not> full q" by (simp add: put_accepts)
  then show i: "items (snd (put x q)) = items q @ [x]" by (simp add: put_items)
  show "items q \<noteq> [] \<Longrightarrow> fst (get (snd (put x q))) = fst (get q)"
    by (cases "items q") (auto simp: get_items i)
  show "items q = [] \<Longrightarrow> fst (get (snd (put x q))) = Some x"
    by (simp add: get_items i)
qed

end

section \<open>The producer queue is such a queue\<close>

definition producer_queue_full :: "producer_info \<Rightarrow> bool" where
  "producer_queue_full p \<longleftrightarrow> length (input_queue p) = pi_size_for_queues p"

definition producer_queue_fits :: "producer_info \<Rightarrow> nat \<Rightarrow> bool" where
  "producer_queue_fits p n \<longleftrightarrow> n \<le> pi_size_for_queues p"

interpretation producer_queue: bounded_queue input_queue producer_queue_full add_input_to_queue
  get_input_from_queue producer_queue_fits
  by unfold_locales
    (auto simp: producer_queue_full_def producer_queue_fits_def add_input_to_queue_def
      get_input_from_queue_def split: list.splits)

section \<open>Well-formed producers\<close>

text \<open>
  The producer's name is its key, its queue fits, everything it holds carries its name, and the
  in-flight input and the pending flag are set together (so a pending flag is never \<open>None\<close> where
  there is an in-flight input).
\<close>

definition wf_producer_info :: "producer_id \<Rightarrow> producer_info \<Rightarrow> bool" where
  "wf_producer_info pid p \<longleftrightarrow>
     pi_producer_id p = pid \<and>
     length (input_queue p) \<le> pi_size_for_queues p \<and>
     (\<forall>mp \<in> set (input_queue p). md_producer_id (mp_metadata mp) = pid) \<and>
     (\<forall>mp. latest_input_sent_to_engine p = Some mp \<longrightarrow> md_producer_id (mp_metadata mp) = pid) \<and>
     (latest_input_sent_to_engine p = None \<longleftrightarrow> pending_token_return p = None)"

lemma wf_new_producer_info [simp]: "wf_producer_info pid (new_producer_info pid n)"
  by (simp add: wf_producer_info_def new_producer_info_def)

lemma wf_add_input_to_queue:
  assumes "wf_producer_info pid p" and "md_producer_id (mp_metadata mp) = pid"
  shows "wf_producer_info pid (snd (add_input_to_queue mp p))"
  using assms by (auto simp: wf_producer_info_def add_input_to_queue_def)

lemma wf_get_input_from_queue:
  "wf_producer_info pid p \<Longrightarrow> wf_producer_info pid (snd (get_input_from_queue p))"
  by (auto simp: wf_producer_info_def get_input_from_queue_def split: list.splits)

lemma wf_pending_latest:
  "wf_producer_info pid p \<Longrightarrow> pending p \<Longrightarrow> \<exists>mp. latest_input_sent_to_engine p = Some mp"
  by (auto simp: wf_producer_info_def pending_def)

section \<open>Tokens a producer owes\<close>

text \<open>
  The debt of a producer towards the client at an address: its inputs waiting in the queue, and the
  in-flight input while its token return is pending.
\<close>

definition from_address :: "address \<Rightarrow> metadata_payload \<Rightarrow> bool" where
  "from_address a mp \<longleftrightarrow> md_client_address (mp_metadata mp) = a"

definition in_flight_debt :: "producer_info \<Rightarrow> address \<Rightarrow> nat" where
  "in_flight_debt p a =
     (case latest_input_sent_to_engine p of
        None \<Rightarrow> 0
      | Some mp \<Rightarrow> (if pending p \<and> from_address a mp then 1 else 0))"

definition debt :: "producer_info \<Rightarrow> address \<Rightarrow> nat" where
  "debt p a = in_flight_debt p a + length (filter (from_address a) (input_queue p))"

lemma debt_new [simp]: "debt (new_producer_info pid n) a = 0"
  by (simp add: debt_def in_flight_debt_def new_producer_info_def)

lemma debt_add_input_to_queue:
  "debt (snd (add_input_to_queue mp p)) a =
     debt p a + (if fst (add_input_to_queue mp p) \<and> from_address a mp then 1 else 0)"
  by (auto simp: add_input_to_queue_def debt_def in_flight_debt_def pending_def split: option.splits)

text \<open>Moving the head of the queue in flight keeps the debt when nothing was in flight.\<close>

lemma debt_get_input_from_queue:
  "\<not> pending p \<Longrightarrow> debt (snd (get_input_from_queue p)) a = debt p a"
  by (auto simp: get_input_from_queue_def debt_def in_flight_debt_def pending_def
      split: list.splits option.splits)

end
