(* ===== verification/Engine_Worker.thy ===== *)
theory Engine_Worker
  imports Producer_Info
begin

text \<open>
  \<open>_EngineWorker\<close> (\<open>server_runner.py\<close>): one connected engine, the input it is working on and the
  round-robin choice of its next input.  A worker holds references to the producers it serves; a
  reference is the producer's id, looked up in the producer table.
\<close>

section \<open>State\<close>

record engine_worker =
  ew_context :: ctx
  ew_engine_id :: engine_id
  ew_all_responses_required :: bool
  current_input_metadata :: "metadata option"
  ew_size_for_queues :: nat
  producers :: "producer_id list"
  latest_input_processed :: "producer_id \<rightharpoonup> metadata"

type_synonym producer_table = "producer_id \<rightharpoonup> producer_info"

text \<open>Whether a write on an engine's stream goes through; a failed write raises.\<close>

type_synonym engine_write = "ctx \<Rightarrow> bool"

definition new_engine_worker :: "ctx \<Rightarrow> engine_id \<Rightarrow> bool \<Rightarrow> nat \<Rightarrow> engine_worker" where
  "new_engine_worker context engine_id all_responses_required fresh_inputs_queue_size =
     \<lparr>ew_context = context, ew_engine_id = engine_id,
      ew_all_responses_required = all_responses_required, current_input_metadata = None,
      ew_size_for_queues = fresh_inputs_queue_size, producers = [],
      latest_input_processed = Map.empty\<rparr>"

section \<open>Operations\<close>

definition clear_current_input_metadata :: "engine_worker \<Rightarrow> engine_worker" where
  "clear_current_input_metadata w = w\<lparr>current_input_metadata := None\<rparr>"

definition send_payload ::
  "engine_write \<Rightarrow> engine_worker \<Rightarrow> metadata_payload \<Rightarrow>
     py_exn option \<times> engine_worker \<times> effect list" where
  "send_payload wr w mp =
     (let md = mp_metadata mp;
          w' = w\<lparr>current_input_metadata := Some md,
                 latest_input_processed := (latest_input_processed w)(md_producer_id md \<mapsto> md)\<rparr>
      in if wr (ew_context w)
         then (None, w', [SendEngine (ew_context w)
                \<lparr>te_input_frame = mp_payload mp, te_client_info = md_client_info md\<rparr>])
         else (Some RpcWriteError, w', []))"

text \<open>
  One round of the loop of \<open>send_next_input\<close> per unit of the first argument, which starts as the
  number of producers.  A producer reference always resolves; the branch for a missing entry only
  makes the function total.
\<close>

fun send_next_loop ::
  "engine_write \<Rightarrow> nat \<Rightarrow> engine_worker \<Rightarrow> producer_table \<Rightarrow>
     py_exn option \<times> engine_worker \<times> producer_table \<times> effect list" where
  "send_next_loop wr 0 w ps = (None, clear_current_input_metadata w, ps, [])"
| "send_next_loop wr (Suc n) w ps =
     (let w1 = w\<lparr>producers := rotate1 (producers w)\<rparr>;
          pid = hd (producers w1)
      in case ps pid of
           None \<Rightarrow> send_next_loop wr n w1 ps
         | Some p \<Rightarrow>
             (let (from_queue, p1) =
                    (if pending p then (None, p) else get_input_from_queue p);
                  ps1 = ps(pid \<mapsto> p1)
              in case from_queue of
                   Some mp \<Rightarrow>
                     (let (e, w2, es) = send_payload wr w1 mp in (e, w2, ps1, es))
                 | None \<Rightarrow>
                     (case latest_input_sent_to_engine p1 of
                        None \<Rightarrow> send_next_loop wr n w1 ps1
                      | Some mp \<Rightarrow>
                          (case latest_input_processed w1 (pi_producer_id p1) of
                             None \<Rightarrow> send_next_loop wr n w1 ps1
                           | Some processed \<Rightarrow>
                               (if md_frame_id (mp_metadata mp) > md_frame_id processed
                                then let (e, w2, es) = send_payload wr w1 mp in (e, w2, ps1, es)
                                else send_next_loop wr n w1 ps1)))))"

definition send_next_input ::
  "engine_write \<Rightarrow> engine_worker \<Rightarrow> producer_table \<Rightarrow>
     py_exn option \<times> engine_worker \<times> producer_table \<times> effect list" where
  "send_next_input wr w ps = send_next_loop wr (length (producers w)) w ps"

definition add_producer :: "producer_id \<Rightarrow> engine_worker \<Rightarrow> engine_worker" where
  "add_producer pid w =
     (if pid \<in> set (producers w) then w else w\<lparr>producers := producers w @ [pid]\<rparr>)"

text \<open>
  \<open>remove_producer\<close>; deleting the missing key of a producer that was never processed is a
  \<open>KeyError\<close>, raised after the producer has left the deque.
\<close>

definition remove_producer :: "producer_id \<Rightarrow> engine_worker \<Rightarrow> py_exn option \<times> engine_worker" where
  "remove_producer pid w =
     (if pid \<in> set (producers w)
      then let w1 = w\<lparr>producers := remove1 pid (producers w)\<rparr>
           in (case latest_input_processed w pid of
                 None \<Rightarrow> (Some KeyError, w1)
               | Some _ \<Rightarrow>
                   (None, w1\<lparr>latest_input_processed :=
                       (latest_input_processed w)(pid := None)\<rparr>))
      else (None, w))"

section \<open>Frame facts\<close>

lemma send_payload_frame:
  assumes "send_payload wr w mp = (e, w', es)"
  shows "ew_context w' = ew_context w" and "ew_engine_id w' = ew_engine_id w"
    and "ew_all_responses_required w' = ew_all_responses_required w"
    and "producers w' = producers w" and "current_input_metadata w' = Some (mp_metadata mp)"
    and "token_returns a p es = 0"
  using assms by (auto simp: send_payload_def Let_def split: if_splits)

lemma send_payload_ok:
  "wr (ew_context w) \<Longrightarrow> fst (send_payload wr w mp) = None \<and>
     snd (snd (send_payload wr w mp)) = [SendEngine (ew_context w)
       \<lparr>te_input_frame = mp_payload mp, te_client_info = md_client_info (mp_metadata mp)\<rparr>]"
  by (simp add: send_payload_def Let_def)

lemma clear_current_simps [simp]:
  "ew_context (clear_current_input_metadata w) = ew_context w"
  "ew_engine_id (clear_current_input_metadata w) = ew_engine_id w"
  "ew_all_responses_required (clear_current_input_metadata w) = ew_all_responses_required w"
  "producers (clear_current_input_metadata w) = producers w"
  "current_input_metadata (clear_current_input_metadata w) = None"
  by (simp_all add: clear_current_input_metadata_def)

lemma add_producer_simps [simp]:
  "ew_context (add_producer pid w) = ew_context w"
  "ew_engine_id (add_producer pid w) = ew_engine_id w"
  "ew_all_responses_required (add_producer pid w) = ew_all_responses_required w"
  "current_input_metadata (add_producer pid w) = current_input_metadata w"
  "latest_input_processed (add_producer pid w) = latest_input_processed w"
  "set (producers (add_producer pid w)) = insert pid (set (producers w))"
  by (auto simp: add_producer_def)

lemma add_producer_distinct: "distinct (producers w) \<Longrightarrow> distinct (producers (add_producer pid w))"
  by (simp add: add_producer_def)

section \<open>The choice of the next input\<close>

text \<open>
  What a producer offers a worker: the head of its queue when no token return is pending, and
  otherwise its in-flight input when the worker has handled an older one of this producer.
\<close>

definition offer :: "engine_worker \<Rightarrow> producer_info \<Rightarrow> metadata_payload option" where
  "offer w p =
     (if \<not> pending p \<and> input_queue p \<noteq> [] then Some (hd (input_queue p))
      else case latest_input_sent_to_engine p of
        None \<Rightarrow> None
      | Some mp \<Rightarrow>
          (case latest_input_processed w (pi_producer_id p) of
             None \<Rightarrow> None
           | Some processed \<Rightarrow>
               (if md_frame_id (mp_metadata mp) > md_frame_id processed then Some mp else None)))"

definition offers :: "engine_worker \<Rightarrow> producer_table \<Rightarrow> producer_id \<Rightarrow> bool" where
  "offers w ps pid \<longleftrightarrow> (\<exists>p mp. ps pid = Some p \<and> offer w p = Some mp)"

lemma offers_code [code]:
  "offers w ps pid = (case ps pid of None \<Rightarrow> False | Some p \<Rightarrow> offer w p \<noteq> None)"
  by (auto simp: offers_def split: option.splits)

text \<open>What taking the offer does to the producer.\<close>

definition taken :: "producer_info \<Rightarrow> producer_info" where
  "taken p = (if pending p then p else snd (get_input_from_queue p))"

lemma taken_no_queue: "input_queue p = [] \<Longrightarrow> taken p = p"
  by (simp add: taken_def get_input_from_queue_def)

lemma offer_cong_worker:
  assumes "latest_input_processed w' = latest_input_processed w"
  shows "offer w' = offer w"
  by (rule ext) (unfold offer_def assms, rule refl)

text \<open>One round of the loop in terms of the offer.\<close>

lemma send_next_loop_Suc:
  assumes w1: "w1 = w\<lparr>producers := rotate1 (producers w)\<rparr>"
    and pid: "pid = hd (rotate1 (producers w))"
  shows "send_next_loop wr (Suc n) w ps =
     (case ps pid of
        None \<Rightarrow> send_next_loop wr n w1 ps
      | Some p \<Rightarrow>
          (case offer w p of
             None \<Rightarrow> send_next_loop wr n w1 ps
           | Some mp \<Rightarrow>
               (let (e, w2, es) = send_payload wr w1 mp in (e, w2, ps(pid \<mapsto> taken p), es))))"
proof (cases "ps pid")
  case None
  then show ?thesis using w1 pid by (simp add: Let_def)
next
  case (Some p)
  have upd: "ps(hd (rotate1 (producers w)) \<mapsto> p) = ps"
    using Some pid by (simp add: fun_upd_idem)
  show ?thesis
  proof (cases "pending p \<or> input_queue p = []")
    case True
    then have gq: "(if pending p then (None, p) else get_input_from_queue p) = (None, p)"
      and tk: "taken p = p"
      by (auto simp: get_input_from_queue_def taken_def)
    from True have off: "offer w p =
      (case latest_input_sent_to_engine p of None \<Rightarrow> None
       | Some mp \<Rightarrow> (case latest_input_processed w (pi_producer_id p) of None \<Rightarrow> None
           | Some processed \<Rightarrow>
               (if md_frame_id (mp_metadata mp) > md_frame_id processed then Some mp else None)))"
      by (auto simp: offer_def)
    show ?thesis
      using Some w1 pid
      by (simp add: Let_def gq tk off upd split: option.split)
  next
    case False
    then obtain mp rest where q: "input_queue p = mp # rest" and np: "\<not> pending p"
      by (cases "input_queue p") auto
    then have off: "offer w p = Some mp" by (simp add: offer_def)
    show ?thesis
      using Some w1 pid np q
      by (simp add: Let_def off taken_def get_input_from_queue_def split: prod.split)
  qed
qed

text \<open>Rounds without an offer only rotate the deque; the first offer met is sent.\<close>

lemma offer_rotate [simp]: "offer (w\<lparr>producers := ds\<rparr>) = offer w"
  by (rule offer_cong_worker) simp

lemma offers_rotate [simp]: "offers (w\<lparr>producers := ds\<rparr>) ps = offers w ps"
  by (rule ext) (simp add: offers_def)

lemma send_next_loop_skip:
  assumes "\<not> offers w ps (hd (rotate1 (producers w)))"
  shows "send_next_loop wr (Suc n) w ps =
    send_next_loop wr n (w\<lparr>producers := rotate1 (producers w)\<rparr>) ps"
  using assms
  by (subst send_next_loop_Suc [OF refl refl]) (auto simp: offers_def split: option.splits)

lemma send_next_loop_none:
  assumes "\<forall>i<n. \<not> offers w ps (hd (rotate (Suc i) (producers w)))"
  shows "send_next_loop wr n w ps =
    (None, clear_current_input_metadata (w\<lparr>producers := rotate n (producers w)\<rparr>), ps, [])"
  using assms
proof (induction n arbitrary: w)
  case 0
  then show ?case by simp
next
  case (Suc n)
  from Suc.prems have "\<not> offers w ps (hd (rotate1 (producers w)))" by (auto dest: spec [of _ 0])
  moreover have "\<forall>i<n. \<not> offers (w\<lparr>producers := rotate1 (producers w)\<rparr>) ps
      (hd (rotate (Suc i) (producers (w\<lparr>producers := rotate1 (producers w)\<rparr>))))"
    using Suc.prems by (auto simp: rotate1_rotate_swap)
  ultimately show ?case
    using Suc.IH by (simp add: send_next_loop_skip rotate1_rotate_swap del: send_next_loop.simps)
qed

lemma send_next_loop_some:
  assumes "k < n" and "\<forall>i<k. \<not> offers w ps (hd (rotate (Suc i) (producers w)))"
    and "pid = hd (rotate (Suc k) (producers w))" and "ps pid = Some p" and "offer w p = Some mp"
  shows "send_next_loop wr n w ps =
    (let (e, w2, es) = send_payload wr (w\<lparr>producers := rotate (Suc k) (producers w)\<rparr>) mp
     in (e, w2, ps(pid \<mapsto> taken p), es))"
  using assms
proof (induction k arbitrary: n w)
  case 0
  then obtain m where n: "n = Suc m" by (cases n) auto
  have r: "rotate (Suc 0) (producers w) = rotate1 (producers w)" by simp
  have "pid = hd (rotate1 (producers w))" using "0.prems"(3) by simp
  from send_next_loop_Suc [OF refl this] "0.prems"(4,5) show ?case
    unfolding n r by (simp only: option.case)
next
  case (Suc k)
  then obtain m where n: "n = Suc m" by (cases n) auto
  let ?w = "w\<lparr>producers := rotate1 (producers w)\<rparr>"
  from Suc.prems have "\<not> offers w ps (hd (rotate1 (producers w)))" by (auto dest: spec [of _ 0])
  then have "send_next_loop wr n w ps = send_next_loop wr m ?w ps"
    by (simp add: n send_next_loop_skip del: send_next_loop.simps)
  also have "\<dots> = (let (e, w2, es) = send_payload wr (?w\<lparr>producers := rotate (Suc k) (producers ?w)\<rparr>) mp
     in (e, w2, ps(pid \<mapsto> taken p), es))"
    by (rule Suc.IH) (use Suc.prems n in \<open>auto simp: rotate1_rotate_swap\<close>)
  finally show ?case by (simp add: rotate1_rotate_swap fun_upd_def)
qed

text \<open>The producer asked in round \<open>i\<close>.\<close>

lemma asked_in_round:
  "i < length ds \<Longrightarrow> hd (rotate (Suc i) ds) = rotate1 ds ! i"
  by (metis hd_rotate_conv_nth length_0_conv less_nat_zero_code nth_rotate1)

lemma send_next_input_idle:
  assumes "\<And>pid. pid \<in> set (producers w) \<Longrightarrow> \<not> offers w ps pid"
  shows "send_next_input wr w ps = (None, clear_current_input_metadata w, ps, [])"
proof -
  have "\<forall>i<length (producers w). \<not> offers w ps (hd (rotate (Suc i) (producers w)))"
    using assms by (metis asked_in_round length_rotate1 nth_mem set_rotate1)
  from send_next_loop_none [OF this, of wr] show ?thesis by (simp add: send_next_input_def)
qed

lemma send_next_input_sends:
  assumes "pid \<in> set (producers w)" and "offers w ps pid"
  obtains k q p mp where "k < length (producers w)"
    and "\<forall>i<k. \<not> offers w ps (rotate1 (producers w) ! i)"
    and "q = rotate1 (producers w) ! k" and "ps q = Some p" and "offer w p = Some mp"
    and "send_next_input wr w ps =
      (let (e, w2, es) = send_payload wr (w\<lparr>producers := rotate (Suc k) (producers w)\<rparr>) mp
       in (e, w2, ps(q \<mapsto> taken p), es))"
proof -
  let ?ds = "producers w"
  let ?P = "\<lambda>i. i < length ?ds \<and> offers w ps (rotate1 ?ds ! i)"
  have "\<exists>j. ?P j"
    using assms by (metis in_set_conv_nth length_rotate1 set_rotate1)
  then obtain k where k: "?P k" and least: "\<forall>i<k. \<not> ?P i"
    by (subst (asm) exists_least_iff) (elim exE conjE, rule that, auto)
  define q where "q = rotate1 ?ds ! k"
  from k obtain p mp where p: "ps q = Some p" "offer w p = Some mp"
    unfolding q_def offers_def by auto
  have kl: "k < length ?ds" using k by simp
  have none: "\<forall>i<k. \<not> offers w ps (rotate1 ?ds ! i)"
    using least kl by auto
  have h1: "\<forall>i<k. \<not> offers w ps (hd (rotate (Suc i) ?ds))"
    using none kl asked_in_round by (metis order.strict_trans)
  have h2: "q = hd (rotate (Suc k) ?ds)"
    unfolding q_def by (rule asked_in_round [OF kl, symmetric])
  have "send_next_input wr w ps =
      (let (e, w2, es) = send_payload wr (w\<lparr>producers := rotate (Suc k) ?ds\<rparr>) mp
       in (e, w2, ps(q \<mapsto> taken p), es))"
    unfolding send_next_input_def
    by (rule send_next_loop_some [where ps = ps and w = w, OF kl h1 h2 p(1) p(2)])
  then show thesis by (rule that [OF kl none q_def p])
qed

text \<open>
  Both outcomes in one rule: either nothing is on offer and the worker goes idle, or the first offer
  in round-robin order is sent.
\<close>

lemma send_next_input_cases:
  obtains (idle) "\<forall>pid \<in> set (producers w). \<not> offers w ps pid"
      "send_next_input wr w ps = (None, clear_current_input_metadata w, ps, [])"
  | (sent) k q p mp e w2 es where "k < length (producers w)"
      "\<forall>i<k. \<not> offers w ps (rotate1 (producers w) ! i)"
      "q = rotate1 (producers w) ! k" "ps q = Some p" "offer w p = Some mp"
      "send_payload wr (w\<lparr>producers := rotate (Suc k) (producers w)\<rparr>) mp = (e, w2, es)"
      "send_next_input wr w ps = (e, w2, ps(q \<mapsto> taken p), es)"
proof (cases "\<forall>pid \<in> set (producers w). \<not> offers w ps pid")
  case True
  then show thesis using idle send_next_input_idle by blast
next
  case False
  then obtain pid where "pid \<in> set (producers w)" "offers w ps pid" by blast
  then show thesis
  proof (rule send_next_input_sends [where wr = wr])
    fix k q p mp
    assume *: "k < length (producers w)" "\<forall>i<k. \<not> offers w ps (rotate1 (producers w) ! i)"
      "q = rotate1 (producers w) ! k" "ps q = Some p" "offer w p = Some mp"
      and eq: "send_next_input wr w ps =
        (let (e, w2, es) = send_payload wr (w\<lparr>producers := rotate (Suc k) (producers w)\<rparr>) mp
         in (e, w2, ps(q \<mapsto> taken p), es))"
    obtain e w2 es where
      sp: "send_payload wr (w\<lparr>producers := rotate (Suc k) (producers w)\<rparr>) mp = (e, w2, es)"
      by (metis prod_cases3)
    then have "send_next_input wr w ps = (e, w2, ps(q \<mapsto> taken p), es)" using eq by simp
    then show thesis by (rule sent [OF * sp])
  qed
qed

lemma send_next_input_frame:
  assumes "send_next_input wr w ps = (e, w2, ps2, es)"
  shows "ew_context w2 = ew_context w" and "ew_engine_id w2 = ew_engine_id w"
    and "ew_all_responses_required w2 = ew_all_responses_required w"
    and "set (producers w2) = set (producers w)" and "token_returns a p es = 0"
    and "distinct (producers w2) = distinct (producers w)"
proof -
  have "ew_context w2 = ew_context w \<and> ew_engine_id w2 = ew_engine_id w \<and>
    ew_all_responses_required w2 = ew_all_responses_required w \<and>
    set (producers w2) = set (producers w) \<and> token_returns a p es = 0 \<and>
    distinct (producers w2) = distinct (producers w)"
  proof (rule send_next_input_cases [of w ps wr])
    assume "send_next_input wr w ps = (None, clear_current_input_metadata w, ps, [])"
    with assms show ?thesis by auto
  next
    fix k q p' mp e' w2' es'
    assume "send_payload wr (w\<lparr>producers := rotate (Suc k) (producers w)\<rparr>) mp = (e', w2', es')"
      "send_next_input wr w ps = (e', w2', ps(q \<mapsto> taken p'), es')"
    with assms send_payload_frame [of wr _ mp e' w2' es'] show ?thesis
      by (auto simp: distinct_rotate simp del: rotate_Suc)
  qed
  then show "ew_context w2 = ew_context w" "ew_engine_id w2 = ew_engine_id w"
    "ew_all_responses_required w2 = ew_all_responses_required w"
    "set (producers w2) = set (producers w)" "token_returns a p es = 0"
    "distinct (producers w2) = distinct (producers w)"
    by blast+
qed

text \<open>Taking an offer keeps every debt and the well-formedness of the producer.\<close>

lemma debt_taken [simp]: "debt (taken p) a = debt p a"
  by (simp add: taken_def debt_get_input_from_queue)

lemma wf_taken: "wf_producer_info pid p \<Longrightarrow> wf_producer_info pid (taken p)"
  by (simp add: taken_def wf_get_input_from_queue)

text \<open>
  After an offer is taken and sent, the producer's in-flight input is the one sent whenever its
  token return is pending.
\<close>

lemma taken_pending_latest:
  assumes "offer w p = Some mp" and "pending (taken p)"
  shows "latest_input_sent_to_engine (taken p) = Some mp"
  using assms
  by (auto simp: offer_def taken_def get_input_from_queue_def pending_def
      split: if_splits option.splits list.splits)

section \<open>Fairness of the round robin\<close>

text \<open>How many other producers are asked before \<open>pid\<close> in the next call.\<close>

definition waiting :: "producer_id list \<Rightarrow> producer_id \<Rightarrow> nat" where
  "waiting ds pid = length (takeWhile (\<lambda>q. q \<noteq> pid) (rotate1 ds))"

lemma takeWhile_neq_nth:
  "distinct xs \<Longrightarrow> j < length xs \<Longrightarrow> length (takeWhile (\<lambda>q. q \<noteq> xs ! j) xs) = j"
proof (induction xs arbitrary: j)
  case Nil
  then show ?case by simp
next
  case (Cons x xs)
  then show ?case by (cases j) (auto simp: nth_mem)
qed

lemma waiting_nth:
  "distinct ds \<Longrightarrow> j < length ds \<Longrightarrow> waiting ds (rotate1 ds ! j) = j"
  by (simp add: waiting_def takeWhile_neq_nth)

lemma waiting_after_turn:
  assumes d: "distinct ds" and k: "k < j" and j: "j < length ds"
  shows "waiting (rotate (Suc k) ds) (rotate1 ds ! j) = j - Suc k"
proof -
  let ?ds = "rotate (Suc k) ds"
  have l: "length ?ds = length ds" by (simp only: length_rotate)
  have "rotate1 ?ds = rotate (Suc k) (rotate1 ds)"
    by (simp add: rotate1_rotate_swap)
  then have "rotate1 ?ds ! (j - Suc k) = rotate1 ds ! ((Suc k + (j - Suc k)) mod length ds)"
    using j k by (simp add: nth_rotate del: rotate_Suc)
  also have "\<dots> = rotate1 ds ! j" using k j by simp
  finally have "rotate1 ds ! j = rotate1 ?ds ! (j - Suc k)" by simp
  then show ?thesis
    using waiting_nth [of ?ds "j - Suc k"] d j l by (simp add: distinct_rotate del: rotate_Suc)
qed

section \<open>The round robin as a search\<close>

text \<open>
  The reference for \<open>send_next_input\<close>: rotate the deque once, skip the producers that have nothing to
  send, and serve the first that has; the skipped producers go to the back.
\<close>

definition serve ::
  "engine_write \<Rightarrow> engine_worker \<Rightarrow> producer_table \<Rightarrow>
     py_exn option \<times> engine_worker \<times> producer_table \<times> effect list" where
  "serve wr w ps =
     (let ds = rotate1 (producers w);
          skipped = takeWhile (\<lambda>q. \<not> offers w ps q) ds;
          rest = dropWhile (\<lambda>q. \<not> offers w ps q) ds
      in case rest of
           [] \<Rightarrow> (None, clear_current_input_metadata w, ps, [])
         | q # _ \<Rightarrow>
             (let p = the (ps q);
                  (e, w2, es) = send_payload wr (w\<lparr>producers := rest @ skipped\<rparr>) (the (offer w p))
              in (e, w2, ps(q \<mapsto> taken p), es)))"

lemma rotate_Suc_take_drop:
  "k < length ds \<Longrightarrow> rotate (Suc k) ds = drop k (rotate1 ds) @ take k (rotate1 ds)"
  by (metis length_rotate1 mod_less rotate1_rotate_swap rotate_Suc rotate_drop_take)

lemma takeWhile_first:
  assumes "k < length xs" and "\<forall>i<k. P (xs ! i)" and "\<not> P (xs ! k)"
  shows "takeWhile P xs = take k xs" and "dropWhile P xs = drop k xs"
proof -
  show t: "takeWhile P xs = take k xs"
    using assms by (intro takeWhile_eq_take_P_nth) auto
  then show "dropWhile P xs = drop k xs"
    using assms(1) by (simp add: dropWhile_eq_drop)
qed

text \<open>
  C10. The choice of the next input.  \<open>send_next_input\<close> is exactly the search above: it serves the first
  producer in round-robin order that has something for this engine, taking the head of its queue or
  its in-flight input, and leaves the engine idle when no producer has anything.
\<close>

theorem send_next_input_serves: "send_next_input wr w ps = serve wr w ps"
proof (rule send_next_input_cases [of w ps wr])
  assume none: "\<forall>pid \<in> set (producers w). \<not> offers w ps pid"
    and eq: "send_next_input wr w ps = (None, clear_current_input_metadata w, ps, [])"
  from none have d: "dropWhile (\<lambda>q. \<not> offers w ps q) (rotate1 (producers w)) = []" by simp
  show ?thesis unfolding serve_def Let_def d using eq by simp
next
  fix k q p mp e w2 es
  assume k: "k < length (producers w)" "\<forall>i<k. \<not> offers w ps (rotate1 (producers w) ! i)"
    and q: "q = rotate1 (producers w) ! k" and p: "ps q = Some p" "offer w p = Some mp"
    and sp: "send_payload wr (w\<lparr>producers := rotate (Suc k) (producers w)\<rparr>) mp = (e, w2, es)"
    and eq: "send_next_input wr w ps = (e, w2, ps(q \<mapsto> taken p), es)"
  let ?ds = "rotate1 (producers w)" and ?P = "\<lambda>q. \<not> offers w ps q"
  have kl: "k < length ?ds" using k(1) by simp
  have nP: "\<not> ?P (?ds ! k)" using p q by (simp add: offers_def)
  have tw: "takeWhile ?P ?ds = take k ?ds" "dropWhile ?P ?ds = drop k ?ds"
    by (rule takeWhile_first [where P = ?P, OF kl k(2) nP])+
  have d: "drop k ?ds = q # drop (Suc k) ?ds" using kl q by (simp add: Cons_nth_drop_Suc)
  have sp': "send_payload wr (w\<lparr>producers := drop k ?ds @ take k ?ds\<rparr>) mp = (e, w2, es)"
    using sp rotate_Suc_take_drop [OF k(1)] by (simp del: rotate_Suc)
  show ?thesis
    unfolding serve_def Let_def tw using sp' unfolding d by (simp add: eq p fun_upd_def)
qed


text \<open>Two producers with one queued input each; the engine was last fed from \<open>p\<close>.\<close>

definition sample_input :: "producer_id \<Rightarrow> int \<Rightarrow> metadata_payload" where
  "sample_input pid i = \<lparr>mp_metadata = \<lparr>md_frame_id = i, md_producer_id = pid, md_client_address = ''c'',
      md_target_engine_ids = [''e''], md_client_info = default_any\<rparr>, mp_payload = default_input_frame\<rparr>"

definition sample_producers :: producer_table where
  "sample_producers =
     [''p'' \<mapsto> (new_producer_info ''p'' 3)\<lparr>input_queue := [sample_input ''p'' 1]\<rparr>,
      ''q'' \<mapsto> (new_producer_info ''q'' 3)\<lparr>input_queue := [sample_input ''q'' 1]\<rparr>]"

definition sample_worker :: engine_worker where
  "sample_worker = (new_engine_worker 1 ''e'' False 3)\<lparr>producers := [''p'', ''q'']\<rparr>"


end
