(* ===== verification/Gabriel_Server.thy ===== *)
theory Gabriel_Server
  imports Protocol
begin

text \<open>
  The transport-independent server of \<open>gabriel_server.py\<close>: the clients it knows, the tokens each
  client has for each of its producers, and the handling of one client message.  The abstract method
  \<open>_send_via_transport\<close> and the callback \<open>_engine_cb\<close> are arguments.  The locale \<open>flow_control\<close>
  states what the token accounting needs from the engine callback.
\<close>

section \<open>State\<close>

text \<open>
  The namedtuple \<open>_Client\<close>.  Its \<open>task\<close> and \<open>websocket\<close> members are handles of the running event
  loop and carry no data.
\<close>

record client =
  tokens_for_producer :: "producer_id \<rightharpoonup> int"
  client_inputs :: "bytes list"
  client_info :: "proto_any option"

type_synonym clients = "(address \<times> client) list"

type_synonym reply = "py_exn + (status_code \<times> message)"

text \<open>
  \<open>_send_via_transport\<close>: whether the send succeeded and what went out; it never changes the
  clients.
\<close>

type_synonym transport = "clients \<Rightarrow> address \<Rightarrow> to_client \<Rightarrow> bool \<times> effect list"

type_synonym 's engine_cb = "'s \<Rightarrow> from_client \<Rightarrow> address \<Rightarrow> proto_any \<Rightarrow> reply \<times> 's \<times> effect list"

definition new_client :: client where
  "new_client = \<lparr>tokens_for_producer = Map.empty, client_inputs = [], client_info = None\<rparr>"

section \<open>Operations\<close>

text \<open>\<open>send_result\<close>: the token is credited before the message is sent.\<close>

definition credit_token :: "client \<Rightarrow> producer_id \<Rightarrow> bool \<Rightarrow> client" where
  "credit_token c pid return_token =
     (case tokens_for_producer c pid of
        None \<Rightarrow> c
      | Some n \<Rightarrow>
          (if return_token then c\<lparr>tokens_for_producer := (tokens_for_producer c)(pid \<mapsto> n + 1)\<rparr>
           else c))"

definition send_result ::
  "transport \<Rightarrow> clients \<Rightarrow> address \<Rightarrow> producer_id \<Rightarrow> engine_id \<Rightarrow> result \<Rightarrow> bool \<Rightarrow>
     bool \<times> clients \<times> effect list" where
  "send_result tx cs address pid engine_id result return_token =
     (case dict_get cs address of
        None \<Rightarrow> (False, cs, [])
      | Some c \<Rightarrow>
          (let cs' = dict_set address (credit_token c pid return_token) cs;
               (ok, es) = tx cs' address
                 (ResultWrapper \<lparr>rw_producer_id = pid, rw_return_token = return_token,
                    rw_result = result\<rparr>)
           in (ok, cs', es)))"

text \<open>\<open>_engines_updated_cb\<close>: every connected client is told the current engine ids.\<close>

definition engines_updated_cb :: "transport \<Rightarrow> clients \<Rightarrow> engine_id list \<Rightarrow> effect list" where
  "engines_updated_cb tx cs engine_ids =
     concat (map (\<lambda>(address, _). snd (tx cs address (EngineIdsUpdate engine_ids))) cs)"

text \<open>
  \<open>_consumer_helper\<close>: a registration is stored; an input needs a registered client and a token, and
  is then passed to the engine callback.
\<close>

definition ensure_tokens :: "int \<Rightarrow> client \<Rightarrow> producer_id \<Rightarrow> client" where
  "ensure_tokens num_tokens c pid =
     (case tokens_for_producer c pid of
        None \<Rightarrow> c\<lparr>tokens_for_producer := (tokens_for_producer c)(pid \<mapsto> num_tokens)\<rparr>
      | Some _ \<Rightarrow> c)"

definition tokens_of :: "int \<Rightarrow> client \<Rightarrow> producer_id \<Rightarrow> int" where
  "tokens_of num_tokens c pid =
     (case tokens_for_producer c pid of None \<Rightarrow> num_tokens | Some n \<Rightarrow> n)"

definition consumer_helper ::
  "int \<Rightarrow> 's engine_cb \<Rightarrow> client \<Rightarrow> address \<Rightarrow> from_client \<Rightarrow> 's \<Rightarrow>
     reply \<times> client \<times> 's \<times> effect list" where
  "consumer_helper num_tokens engine_cb c address from_client s =
     (if is_registration from_client
      then (Inr (SUCCESS, empty_message),
            c\<lparr>client_info := Some (registration_client_info from_client)\<rparr>, s, [])
      else case client_info c of
        None \<Rightarrow> (Inr (UNSPECIFIED_ERROR, MsgRegisterFirst), c, s, [])
      | Some info \<Rightarrow>
          (let pid = in_producer_id (input_of from_client);
               c' = ensure_tokens num_tokens c pid
           in if tokens_of num_tokens c' pid < 1
              then (Inr (NO_TOKENS, MsgNoTokens), c', s, [])
              else let (r, s', es) = engine_cb s from_client address info in (r, c', s', es)))"

definition make_registered :: "int \<Rightarrow> engine_id list \<Rightarrow> to_client" where
  "make_registered num_tokens engine_ids = Registered num_tokens engine_ids"

definition make_error_response :: "from_client \<Rightarrow> status_code \<Rightarrow> message \<Rightarrow> to_client" where
  "make_error_response from_client st msg =
     ResultWrapper \<lparr>rw_producer_id = in_producer_id (input_of from_client), rw_return_token = True,
       rw_result = default_result\<lparr>res_status := \<lparr>code = st, message_text = msg\<rparr>,
         res_frame_id := in_frame_id (input_of from_client)\<rparr>\<rparr>"

text \<open>
  The deduction that every transport makes after the callback accepted an input
  (\<open>client.tokens_for_producer[producer_id] -= 1\<close>); a missing key is a \<open>KeyError\<close>.
\<close>

definition deduct_token :: "client \<Rightarrow> producer_id \<Rightarrow> py_exn + client" where
  "deduct_token c pid =
     (case tokens_for_producer c pid of
        None \<Rightarrow> Inl KeyError
      | Some n \<Rightarrow> Inr (c\<lparr>tokens_for_producer := (tokens_for_producer c)(pid \<mapsto> n - 1)\<rparr>))"

section \<open>Basic facts\<close>

lemma tokens_of_new_client [simp]: "tokens_of N new_client p = N"
  by (simp add: tokens_of_def new_client_def)

lemma tokens_of_ensure [simp]: "tokens_of N (ensure_tokens N c pid) p = tokens_of N c p"
  by (simp add: tokens_of_def ensure_tokens_def split: option.splits)

lemma ensure_tokens_present:
  "\<exists>n. tokens_for_producer (ensure_tokens N c pid) pid = Some n"
  by (simp add: ensure_tokens_def split: option.splits)

lemma ensure_tokens_dom:
  "dom (tokens_for_producer (ensure_tokens N c pid)) = insert pid (dom (tokens_for_producer c))"
  by (auto simp: domIff ensure_tokens_def split: option.splits)

lemma credit_token_dom [simp]:
  "dom (tokens_for_producer (credit_token c pid r)) = dom (tokens_for_producer c)"
  by (auto simp: domIff credit_token_def split: option.splits if_splits)

lemma tokens_of_credit:
  "tokens_of N (credit_token c pid r) p =
     tokens_of N c p +
       (if p = pid \<and> r \<and> pid \<in> dom (tokens_for_producer c) then 1 else 0)"
  by (auto simp: domIff tokens_of_def credit_token_def split: option.splits)

lemma tokens_of_deduct:
  "deduct_token c pid = Inr c' \<Longrightarrow>
     tokens_of N c' p = tokens_of N c p - (if p = pid then 1 else 0)"
  by (auto simp: tokens_of_def deduct_token_def split: option.splits)

lemma deduct_token_dom:
  "deduct_token c pid = Inr c' \<Longrightarrow>
     dom (tokens_for_producer c') = dom (tokens_for_producer c)"
  by (auto simp: domIff deduct_token_def split: option.splits if_splits)

lemma credit_token_client_info [simp]: "client_info (credit_token c pid r) = client_info c"
  by (simp add: credit_token_def split: option.splits)

lemma ensure_tokens_client_info [simp]: "client_info (ensure_tokens N c pid) = client_info c"
  by (simp add: ensure_tokens_def split: option.splits)

text \<open>
  Only an input of a registered client with a token reaches the callback.
\<close>

lemma consumer_helper_registration:
  "is_registration fc \<Longrightarrow> consumer_helper N cb c a fc s =
     (Inr (SUCCESS, empty_message), c\<lparr>client_info := Some (registration_client_info fc)\<rparr>, s, [])"
  by (simp add: consumer_helper_def)

lemma consumer_helper_unregistered:
  "\<not> is_registration fc \<Longrightarrow> client_info c = None \<Longrightarrow> consumer_helper N cb c a fc s =
     (Inr (UNSPECIFIED_ERROR, MsgRegisterFirst), c, s, [])"
  by (simp add: consumer_helper_def)

lemma consumer_helper_no_tokens:
  "\<not> is_registration fc \<Longrightarrow> client_info c = Some i \<Longrightarrow>
   tokens_of N c (in_producer_id (input_of fc)) < 1 \<Longrightarrow> consumer_helper N cb c a fc s =
     (Inr (NO_TOKENS, MsgNoTokens), ensure_tokens N c (in_producer_id (input_of fc)), s, [])"
  by (simp add: consumer_helper_def Let_def)

lemma consumer_helper_accepted:
  "\<not> is_registration fc \<Longrightarrow> client_info c = Some i \<Longrightarrow>
   1 \<le> tokens_of N c (in_producer_id (input_of fc)) \<Longrightarrow> consumer_helper N cb c a fc s =
     (let (r, s', es) = cb s fc a i
      in (r, ensure_tokens N c (in_producer_id (input_of fc)), s', es))"
  by (simp add: consumer_helper_def Let_def)

lemmas consumer_helper_cases =
  consumer_helper_registration consumer_helper_unregistered
  consumer_helper_no_tokens consumer_helper_accepted

section \<open>Handling one client message\<close>

text \<open>
  What every transport does with a message after \<open>_consumer_helper\<close> (the tails of
  \<open>GrpcServer._handle_from_client\<close>, \<open>WebsocketServer._consumer\<close> and \<open>ZeroMQServer._consumer\<close>):
  acknowledge a registration, charge an accepted input, answer anything else with an error that
  gives the token back.  The transports are shown to refine this function.
\<close>

datatype outcome =
    Silent
  | Respond to_client
  | Raise py_exn

definition handle_message ::
  "int \<Rightarrow> 's engine_cb \<Rightarrow> engine_id list \<Rightarrow> client \<Rightarrow> address \<Rightarrow> from_client \<Rightarrow> 's \<Rightarrow>
     outcome \<times> client \<times> 's \<times> effect list" where
  "handle_message num_tokens engine_cb engine_ids c address from_client s =
     (let (r, c', s', es) = consumer_helper num_tokens engine_cb c address from_client s
      in case r of
           Inl e \<Rightarrow> (Raise e, c', s', es)
         | Inr (st, msg) \<Rightarrow>
             (if st = SUCCESS
              then if is_registration from_client
                   then (Respond (make_registered num_tokens engine_ids), c', s', es)
                   else (case deduct_token c' (in_producer_id (input_of from_client)) of
                           Inl e \<Rightarrow> (Raise e, c', s', es)
                         | Inr c'' \<Rightarrow> (Silent, c'', s', es))
              else (Respond (make_error_response from_client st msg), c', s', es)))"

section \<open>Books of one client\<close>

text \<open>
  \<open>owed p\<close> is the number of accepted inputs of producer \<open>p\<close> for which the engine side can still
  return a token.  The books are sound when tokens and debt never exceed the allotment.
\<close>

definition books_sound :: "int \<Rightarrow> client \<Rightarrow> (producer_id \<Rightarrow> nat) \<Rightarrow> bool" where
  "books_sound N c owed \<longleftrightarrow>
     (\<forall>p. 0 \<le> tokens_of N c p \<and> tokens_of N c p + int (owed p) \<le> N \<and>
          (0 < owed p \<longrightarrow> p \<in> dom (tokens_for_producer c)))"

text \<open>
  The account of a producer is the pair of its tokens and its debt.  Three things happen to it: a
  token is charged for an accepted input, a token is given back against the debt, or a debt is
  forfeited (the input is displaced and its token is never returned).
\<close>

inductive account_step :: "int \<times> nat \<Rightarrow> int \<times> nat \<Rightarrow> bool" where
  charge: "0 < t \<Longrightarrow> account_step (t, k) (t - 1, Suc k)"
| give_back: "account_step (t, Suc k) (t + 1, k)"
| forfeit: "account_step (t, Suc k) (t, k)"

inductive_cases account_stepE: "account_step x y"

text \<open>
  A relation on the accounts of a client is carried through the operations when it is closed under
  these steps: exact accounting is closed under the first two, the reachability of an account from
  an earlier one under all three.
\<close>

type_synonym account_rel = "producer_id \<Rightarrow> int \<Rightarrow> nat \<Rightarrow> bool"

definition charge_closed :: "account_rel \<Rightarrow> bool" where
  "charge_closed R \<longleftrightarrow> (\<forall>p t k. 0 < t \<longrightarrow> R p t k \<longrightarrow> R p (t - 1) (Suc k))"

definition give_back_closed :: "account_rel \<Rightarrow> bool" where
  "give_back_closed R \<longleftrightarrow> (\<forall>p t k. R p t (Suc k) \<longrightarrow> R p (t + 1) k)"

definition forfeit_closed :: "account_rel \<Rightarrow> bool" where
  "forfeit_closed R \<longleftrightarrow> (\<forall>p t k. R p t (Suc k) \<longrightarrow> R p t k)"

definition exact_account :: "int \<Rightarrow> account_rel" where
  "exact_account N p t k \<longleftrightarrow> t + int k = N"

definition books_keep :: "account_rel \<Rightarrow> int \<Rightarrow> client \<Rightarrow> (producer_id \<Rightarrow> nat) \<Rightarrow> bool" where
  "books_keep R N c owed \<longleftrightarrow> (\<forall>p. R p (tokens_of N c p) (owed p))"

lemma closed_exact: "charge_closed (exact_account N)" "give_back_closed (exact_account N)"
  by (auto simp: charge_closed_def give_back_closed_def exact_account_def)

lemma closed_any: "charge_closed (\<lambda>_ _ _. True)" "give_back_closed (\<lambda>_ _ _. True)"
    "forfeit_closed (\<lambda>_ _ _. True)"
  by (auto simp: charge_closed_def give_back_closed_def forfeit_closed_def)

lemma closed_reach:
  "charge_closed (\<lambda>p t k. account_step\<^sup>*\<^sup>* (f p) (t, k))"
  "give_back_closed (\<lambda>p t k. account_step\<^sup>*\<^sup>* (f p) (t, k))"
  "forfeit_closed (\<lambda>p t k. account_step\<^sup>*\<^sup>* (f p) (t, k))"
  unfolding charge_closed_def give_back_closed_def forfeit_closed_def
  by (auto intro: rtranclp.rtrancl_into_rtrancl account_step.intros)

lemma forfeit_closed_le:
  assumes "forfeit_closed R" and "k' \<le> k" and "R p t k"
  shows "R p t k'"
  using assms(2,3)
proof (induction k)
  case (Suc k)
  then show ?case using assms(1) by (cases "k' = Suc k") (auto simp: forfeit_closed_def)
qed simp

text \<open>The abstract account never goes below zero and never grows in total.\<close>

lemma account_bounds:
  assumes "account_step\<^sup>*\<^sup>* x y" and "0 \<le> fst x"
  shows "0 \<le> fst y \<and> fst y + int (snd y) \<le> fst x + int (snd x)"
  using assms by (induction rule: rtranclp_induct) (auto elim!: account_stepE)

lemma books_sound_new_client: "0 \<le> N \<Longrightarrow> (\<And>p. owed p = 0) \<Longrightarrow> books_sound N new_client owed"
  by (simp add: books_sound_def)

lemma books_keep_new_client:
  "(\<And>p. owed p = 0) \<Longrightarrow> (\<And>p. R p N 0) \<Longrightarrow> books_keep R N new_client owed"
  by (simp add: books_keep_def)

lemma books_keep_mono:
  "forfeit_closed R \<Longrightarrow> books_keep R N c owed \<Longrightarrow> (\<And>p. owed' p \<le> owed p) \<Longrightarrow> books_keep R N c owed'"
  unfolding books_keep_def using forfeit_closed_le by blast

lemma books_sound_mono:
  assumes "books_sound N c owed" and le: "\<And>p. owed' p \<le> owed p"
  shows "books_sound N c owed'"
  unfolding books_sound_def
proof (intro allI conjI impI)
  fix p
  have b: "0 \<le> tokens_of N c p" "tokens_of N c p + int (owed p) \<le> N"
    "0 < owed p \<longrightarrow> p \<in> dom (tokens_for_producer c)"
    using assms(1) unfolding books_sound_def by blast+
  show "0 \<le> tokens_of N c p" by (rule b(1))
  show "tokens_of N c p + int (owed' p) \<le> N" using b(2) le [of p] by linarith
  show "p \<in> dom (tokens_for_producer c)" if "0 < owed' p"
    using b(3) le [of p] that by linarith
qed

text \<open>Crediting one token against one unit of debt keeps the books.\<close>

lemma books_sound_credit:
  assumes b: "books_sound N c owed"
    and le: "\<And>p. owed' p + (if p = pid \<and> r then 1 else 0) \<le> owed p"
  shows "books_sound N (credit_token c pid r) owed'"
  unfolding books_sound_def
proof (intro allI conjI impI)
  fix p
  have s: "0 \<le> tokens_of N c p" "tokens_of N c p + int (owed p) \<le> N"
    "0 < owed p \<longrightarrow> p \<in> dom (tokens_for_producer c)"
    using b unfolding books_sound_def by blast+
  show "0 \<le> tokens_of N (credit_token c pid r) p" using s(1) by (simp add: tokens_of_credit)
  show "tokens_of N (credit_token c pid r) p + int (owed' p) \<le> N"
    using s(2) le [of p] by (auto simp: tokens_of_credit split: if_splits)
  show "p \<in> dom (tokens_for_producer (credit_token c pid r))" if "0 < owed' p"
    using s(3) le [of p] that by (auto split: if_splits)
qed

lemma books_keep_credit:
  assumes s: "books_sound N c owed" and x: "books_keep R N c owed" and g: "give_back_closed R"
    and eq: "\<And>p. owed' p + (if p = pid \<and> r then 1 else 0) = owed p"
  shows "books_keep R N (credit_token c pid r) owed'"
  unfolding books_keep_def
proof
  fix p
  have "R p (tokens_of N c p) (owed p)" using x by (simp add: books_keep_def)
  moreover have "pid \<in> dom (tokens_for_producer c)" if r
  proof -
    have "0 < owed pid" using eq [of pid] that by simp
    then show ?thesis using s unfolding books_sound_def by blast
  qed
  ultimately show "R p (tokens_of N (credit_token c pid r) p) (owed' p)"
    using eq [of p] g by (auto simp: tokens_of_credit give_back_closed_def split: if_splits)
qed

section \<open>The transport interface\<close>

text \<open>
  The contract of \<open>_send_via_transport\<close>: a send that reports success has written exactly the given
  message to the given address, and a send that reports failure has written nothing.
\<close>

locale transport =
  fixes tx :: transport
  assumes sends: "snd (tx cs a m) = (if fst (tx cs a m) then [SendClient a m] else [])"
begin

lemma send_result_unknown:
  "dict_get cs a = None \<Longrightarrow> send_result tx cs a pid eid r rt = (False, cs, [])"
  by (simp add: send_result_def)

lemma send_result_known:
  assumes "dict_get cs a = Some c" and "send_result tx cs a pid eid r rt = (ok, cs', es)"
  shows "cs' = dict_set a (credit_token c pid rt) cs"
    and "es = (if ok then [SendClient a (ResultWrapper \<lparr>rw_producer_id = pid,
            rw_return_token = rt, rw_result = r\<rparr>)] else [])"
  using assms sends by (auto simp: send_result_def Let_def split: prod.splits) (metis fst_conv snd_conv)+

lemma send_result_token_returns:
  assumes "send_result tx cs a pid eid r rt = (ok, cs', es)"
  shows "token_returns b p es = (if ok \<and> rt \<and> b = a \<and> p = pid then 1 else 0)"
proof (cases "dict_get cs a")
  case None
  with assms show ?thesis by (simp add: send_result_def)
next
  case (Some c)
  from send_result_known(2) [OF this assms] show ?thesis by auto
qed

lemma engines_updated_no_returns: "token_returns b p (engines_updated_cb tx cs ids) = 0"
proof -
  have "token_returns b p (concat (map (\<lambda>(a, _). snd (tx cs a (EngineIdsUpdate ids))) xs)) = 0"
    for xs :: clients
    by (induction xs) (auto simp: sends)
  then show ?thesis by (simp add: engines_updated_cb_def)
qed

lemma engines_updated_reaches:
  assumes "dict_get cs a = Some c" and "fst (tx cs a (EngineIdsUpdate ids))"
  shows "SendClient a (EngineIdsUpdate ids) \<in> set (engines_updated_cb tx cs ids)"
proof -
  have "(a, c) \<in> set cs" using assms(1) by (rule map_of_SomeD)
  moreover have "SendClient a (EngineIdsUpdate ids) \<in> set (snd (tx cs a (EngineIdsUpdate ids)))"
    using assms(2) by (simp add: sends)
  ultimately show ?thesis unfolding engines_updated_cb_def by fastforce
qed

end

section \<open>The engine callback interface\<close>

text \<open>
  What the token accounting needs from \<open>_engine_cb\<close>: accepting an input (status \<open>SUCCESS\<close>) puts the
  engine side in debt by at most one token of that client and producer, and nothing else it does
  increases a debt.  A \<open>lossless\<close> call changes the debts by exactly that.
\<close>

definition accepted :: "reply \<Rightarrow> bool" where
  "accepted r \<longleftrightarrow> (\<exists>m. r = Inr (SUCCESS, m))"

lemma accepted_simps [simp]:
  "accepted (Inr (st, m)) \<longleftrightarrow> st = SUCCESS" "\<not> accepted (Inl e)"
  by (auto simp: accepted_def)

locale flow_control =
  fixes cb :: "'s engine_cb"
    and owed :: "'s \<Rightarrow> address \<Rightarrow> producer_id \<Rightarrow> nat"
    and inv :: "'s \<Rightarrow> bool"
    and lossless :: "'s \<Rightarrow> from_client \<Rightarrow> bool"
  assumes cb_inv: "inv s \<Longrightarrow> cb s fc a i = (r, s', es) \<Longrightarrow> inv s'"
    and cb_owed_le: "inv s \<Longrightarrow> cb s fc a i = (r, s', es) \<Longrightarrow>
      owed s' b p \<le> owed s b p +
        (if accepted r \<and> b = a \<and> p = in_producer_id (input_of fc) then 1 else 0)"
    and cb_owed_eq: "inv s \<Longrightarrow> lossless s fc \<Longrightarrow> cb s fc a i = (r, s', es) \<Longrightarrow>
      owed s' b p = owed s b p +
        (if accepted r \<and> b = a \<and> p = in_producer_id (input_of fc) then 1 else 0)"
    and cb_no_returns: "cb s fc a i = (r, s', es) \<Longrightarrow> token_returns b p es = 0"
begin

text \<open>
  The accepted case, the only one that reaches the callback: one token is deducted, so the debt it
  may create is covered.
\<close>

lemma handle_message_charged:
  assumes cb: "cb s fc a i = (r, s', es)"
    and reg: "\<not> is_registration fc" "client_info c = Some i"
    and tok: "1 \<le> tokens_of N c (in_producer_id (input_of fc))"
    and h: "handle_message N cb ids c a fc s = (out, c', s'', es')"
  shows "s'' = s'" and "es' = es"
    and "tokens_of N c' p = tokens_of N c p -
      (if accepted r \<and> p = in_producer_id (input_of fc) then 1 else 0)"
    and "dom (tokens_for_producer c') =
      insert (in_producer_id (input_of fc)) (dom (tokens_for_producer c))"
    and "r = Inl e \<Longrightarrow> out = Raise e"
    and "accepted r \<Longrightarrow> out = Silent"
    and "r = Inr (st, msg) \<Longrightarrow> st \<noteq> SUCCESS \<Longrightarrow> out = Respond (make_error_response fc st msg)"
proof -
  let ?pid = "in_producer_id (input_of fc)"
  let ?c = "ensure_tokens N c ?pid"
  obtain n where n: "tokens_for_producer ?c ?pid = Some n"
    using ensure_tokens_present by blast
  then obtain c1 where c1: "deduct_token ?c ?pid = Inr c1" by (simp add: deduct_token_def)
  have t1: "tokens_of N c1 p = tokens_of N c p - (if p = ?pid then 1 else 0)" for p
    using tokens_of_deduct [OF c1] by simp
  have d1: "dom (tokens_for_producer c1) = insert ?pid (dom (tokens_for_producer c))"
    using deduct_token_dom [OF c1] by (simp add: ensure_tokens_dom)
  have ch: "consumer_helper N cb c a fc s = (r, ?c, s', es)"
    using consumer_helper_accepted [OF reg tok, of cb a s] cb by (simp add: Let_def)
  note facts = h ch c1 reg(1)
  show "s'' = s'" "es' = es"
    using facts by (auto simp: handle_message_def split: sum.splits prod.splits if_splits)
  show "tokens_of N c' p = tokens_of N c p - (if accepted r \<and> p = ?pid then 1 else 0)"
    using facts t1 by (auto simp: handle_message_def split: sum.splits prod.splits if_splits)
  show "dom (tokens_for_producer c') = insert ?pid (dom (tokens_for_producer c))"
  proof -
    have "c' = ?c \<or> c' = c1"
      using facts by (auto simp: handle_message_def split: sum.splits prod.splits if_splits)
    then show ?thesis using d1 ensure_tokens_dom [of N c ?pid] by metis
  qed
  show "r = Inl e \<Longrightarrow> out = Raise e" "accepted r \<Longrightarrow> out = Silent"
    "r = Inr (st, msg) \<Longrightarrow> st \<noteq> SUCCESS \<Longrightarrow> out = Respond (make_error_response fc st msg)"
    using facts by (auto simp: handle_message_def split: sum.splits prod.splits if_splits)
qed

text \<open>Every other message leaves the engine side and the token counts alone.\<close>

lemma handle_message_uncharged:
  assumes un: "is_registration fc \<or> client_info c = None \<or>
      tokens_of N c (in_producer_id (input_of fc)) < 1"
    and h: "handle_message N cb ids c a fc s = (out, c', s', es)"
  shows "s' = s" and "es = []" and "tokens_of N c' p = tokens_of N c p"
    and "dom (tokens_for_producer c) \<subseteq> dom (tokens_for_producer c')"
    and "out \<noteq> Silent \<and> (\<forall>e. out \<noteq> Raise e)"
proof -
  have "s' = s \<and> es = [] \<and> tokens_of N c' p = tokens_of N c p \<and>
    dom (tokens_for_producer c) \<subseteq> dom (tokens_for_producer c') \<and>
    out \<noteq> Silent \<and> (\<forall>e. out \<noteq> Raise e)"
  proof (cases "is_registration fc")
    case True
    with h show ?thesis
      by (auto simp: handle_message_def consumer_helper_registration tokens_of_def)
  next
    case nreg: False
    show ?thesis
    proof (cases "client_info c")
      case None
      with h nreg show ?thesis by (auto simp: handle_message_def consumer_helper_unregistered)
    next
      case (Some i)
      with un nreg have "tokens_of N c (in_producer_id (input_of fc)) < 1" by simp
      with h nreg Some show ?thesis
        using ensure_tokens_dom [of N c "in_producer_id (input_of fc)"]
        by (auto simp: handle_message_def consumer_helper_no_tokens simp del: domIff)
    qed
  qed
  then show "s' = s" "es = []" "tokens_of N c' p = tokens_of N c p"
    "dom (tokens_for_producer c) \<subseteq> dom (tokens_for_producer c')"
    "out \<noteq> Silent \<and> (\<forall>e. out \<noteq> Raise e)"
    by blast+
qed

lemma charged_or_not:
  obtains (charged) i r s1 es1 where "\<not> is_registration fc" "client_info c = Some i"
      "1 \<le> tokens_of N c (in_producer_id (input_of fc))" "cb s fc a i = (r, s1, es1)"
  | (uncharged) "is_registration fc \<or> client_info c = None \<or>
      tokens_of N c (in_producer_id (input_of fc)) < 1"
proof (cases "is_registration fc \<or> client_info c = None \<or>
    tokens_of N c (in_producer_id (input_of fc)) < 1")
  case True
  then show thesis by (rule uncharged)
next
  case False
  then obtain i where "client_info c = Some i" by auto
  with False show thesis
    using charged [of i "fst (cb s fc a i)" "fst (snd (cb s fc a i))" "snd (snd (cb s fc a i))"]
    by simp
qed

lemma handle_message_inv:
  assumes "inv s" and "handle_message N cb ids c a fc s = (out, c', s', es)"
  shows "inv s'"
  using charged_or_not [of fc c N s a]
proof cases
  case (charged i r s1 es1)
  show ?thesis
    using cb_inv [OF assms(1) charged(4)] handle_message_charged(1) [OF charged(4,1-3) assms(2)]
    by simp
next
  case uncharged
  from handle_message_uncharged(1) [OF this assms(2)] assms(1) show ?thesis by simp
qed

lemma handle_message_sound:
  assumes inv: "inv s" and b: "books_sound N c (owed s a)"
    and h: "handle_message N cb ids c a fc s = (out, c', s', es)"
  shows "books_sound N c' (owed s' a)"
  using charged_or_not [of fc c N s a]
proof cases
  case (charged i r s1 es1)
  note hc = handle_message_charged [OF charged(4,1-3) h]
  note le = cb_owed_le [OF inv charged(4), of a]
  show ?thesis
    unfolding books_sound_def
  proof (intro allI conjI impI)
    fix p
    have bp: "0 \<le> tokens_of N c p" "tokens_of N c p + int (owed s a p) \<le> N"
      "0 < owed s a p \<longrightarrow> p \<in> dom (tokens_for_producer c)"
      using b unfolding books_sound_def by blast+
    show "0 \<le> tokens_of N c' p" using hc(3) [of p] bp(1) charged(3) by (auto split: if_splits)
    show "tokens_of N c' p + int (owed s' a p) \<le> N"
      using hc(1) hc(3) [of p] bp(2) le [of p] by (auto split: if_splits)
    show "p \<in> dom (tokens_for_producer c')" if "0 < owed s' a p"
      using hc(1,4) bp(3) le [of p] that by (auto split: if_splits)
  qed
next
  case uncharged
  note hu = handle_message_uncharged [OF uncharged h]
  show ?thesis using b hu(1,3) subsetD [OF hu(4)] unfolding books_sound_def by simp
qed

lemma handle_message_keeps:
  assumes inv: "inv s" and x: "books_keep R N c (owed s a)" and cl: "charge_closed R"
    and l: "forfeit_closed R \<or> lossless s fc"
    and h: "handle_message N cb ids c a fc s = (out, c', s', es)"
  shows "books_keep R N c' (owed s' a)"
  using charged_or_not [of fc c N s a]
proof cases
  case (charged i r s1 es1)
  note hc = handle_message_charged [OF charged(4,1-3) h]
  note le = cb_owed_le [OF inv charged(4), of a] and eq = cb_owed_eq [OF inv _ charged(4), of a]
  show ?thesis
    unfolding books_keep_def
  proof
    fix p
    let ?d = "accepted r \<and> p = in_producer_id (input_of fc)"
    have "R p (tokens_of N c p) (owed s a p)" using x by (simp add: books_keep_def)
    then have "R p (tokens_of N c' p) (owed s a p + (if ?d then 1 else 0))"
      using hc(3) [of p] charged(3) cl by (auto simp: charge_closed_def)
    then show "R p (tokens_of N c' p) (owed s' a p)"
      using l hc(1) le [of p] eq [of p] forfeit_closed_le [of R "owed s' a p"] by fastforce
  qed
next
  case uncharged
  then show ?thesis
    using handle_message_uncharged [OF uncharged h] x unfolding books_keep_def by simp
qed

lemma handle_message_others:
  assumes inv: "inv s" and ne: "b \<noteq> a"
    and h: "handle_message N cb ids c a fc s = (out, c', s', es)"
  shows "owed s' b p \<le> owed s b p \<and> (lossless s fc \<longrightarrow> owed s' b p = owed s b p)"
  using charged_or_not [of fc c N s a]
proof cases
  case (charged i r s1 es1)
  note hc = handle_message_charged [OF charged(4,1-3) h]
  show ?thesis
    using cb_owed_le [OF inv charged(4), of b p] cb_owed_eq [OF inv _ charged(4), of b p] hc(1) ne
    by simp
next
  case uncharged
  then show ?thesis using handle_message_uncharged(1) [OF uncharged h] by simp
qed

lemma handle_message_no_returns:
  assumes h: "handle_message N cb ids c a fc s = (out, c', s', es)"
  shows "token_returns b p es = 0"
  using charged_or_not [of fc c N s a]
proof cases
  case (charged i r s1 es1)
  show ?thesis
    using cb_no_returns [OF charged(4)] handle_message_charged(2) [OF charged(4,1-3) h] by simp
next
  case uncharged
  then show ?thesis using handle_message_uncharged(2) [OF uncharged h] by simp
qed

end

section \<open>Properties of the message handling\<close>

text \<open>
  The gate in front of the engines.  Whatever the engine callback is, an input of a client that
  has not registered, or that has no token for the producer, does not reach it: the engine side is
  untouched, nothing is sent but the answer, and the answer is the matching error.
\<close>

theorem input_gate:
  assumes "\<not> is_registration fc"
    and "client_info c = None \<or> tokens_of N c (in_producer_id (input_of fc)) < 1"
    and "handle_message N cb ids c a fc s = (out, c', s', es)"
  shows "s' = s \<and> es = [] \<and> out = Respond
    (if client_info c = None then make_error_response fc UNSPECIFIED_ERROR MsgRegisterFirst
     else make_error_response fc NO_TOKENS MsgNoTokens)"
proof (cases "client_info c")
  case None
  then show ?thesis using assms by (auto simp: handle_message_def consumer_helper_unregistered)
next
  case (Some i)
  then have "tokens_of N c (in_producer_id (input_of fc)) < 1" using assms(2) by simp
  then show ?thesis using assms(1,3) Some by (auto simp: handle_message_def consumer_helper_no_tokens)
qed

theorem input_gate_witness:
  "handle_message 2 (\<lambda>s fc a i. (Inr (SUCCESS, empty_message), Suc s, [])) [] new_client ''c'' FromClientUnset 0 =
     (Respond (make_error_response FromClientUnset UNSPECIFIED_ERROR MsgRegisterFirst), new_client, 0, [])"
proof -
  let ?cb = "\<lambda>s fc a i. (Inr (SUCCESS, empty_message), Suc s, [])"
  obtain out c' s' es where h: "handle_message 2 ?cb [] new_client ''c'' FromClientUnset 0 = (out, c', s', es)"
    by (metis prod_cases4)
  have "s' = 0 \<and> es = [] \<and> out = Respond (if client_info new_client = None
      then make_error_response FromClientUnset UNSPECIFIED_ERROR MsgRegisterFirst
      else make_error_response FromClientUnset NO_TOKENS MsgNoTokens)"
    by (rule input_gate [OF _ _ h]) (simp_all add: new_client_def)
  moreover have "c' = new_client"
    using h by (simp add: handle_message_def consumer_helper_unregistered new_client_def)
  ultimately show ?thesis using h by (simp add: new_client_def)
qed



end
