(* ===== verification/Engine_Side.thy ===== *)
theory Engine_Side
  imports Engine_Worker Gabriel_Server
begin

text \<open>
  The engine-facing state of \<open>_Server\<close> (\<open>server_runner.py\<close>) and the path of a client input into it:
  \<open>_send_to_engine\<close> and \<open>_ProducerInfo.process_input_from_client\<close>.  This is the engine callback of
  the networked server; it is shown to satisfy the interface \<open>flow_control\<close>.
\<close>

section \<open>State\<close>

type_synonym workers = "(ctx \<times> engine_worker) list"

record engine_side =
  engine_workers :: workers
  engine_ids :: "engine_id list"
  producer_infos :: producer_table
  size_for_queues :: nat

section \<open>Dispatch\<close>

text \<open>
  The loop over \<open>set(target_engines)\<close>: every target gets the producer added, every idle target gets
  the input at once.  The list is the iteration order of the set.  The second component of the
  result is \<open>all_engines_busy\<close>; a failing write raises out of the loop.
\<close>

fun dispatch ::
  "engine_write \<Rightarrow> producer_id \<Rightarrow> metadata_payload \<Rightarrow> ctx list \<Rightarrow> bool \<Rightarrow> workers \<Rightarrow>
     py_exn option \<times> bool \<times> workers \<times> effect list" where
  "dispatch wr pid mp [] all_engines_busy ws = (None, all_engines_busy, ws, [])"
| "dispatch wr pid mp (c # cs) all_engines_busy ws =
     (case dict_get ws c of
        None \<Rightarrow> dispatch wr pid mp cs all_engines_busy ws
      | Some w \<Rightarrow>
          (let w1 = add_producer pid w
           in if current_input_metadata w1 = None
              then (let (e, w2, es) = send_payload wr w1 mp;
                        ws2 = dict_set c w2 ws
                    in case e of
                         Some x \<Rightarrow> (Some x, False, ws2, es)
                       | None \<Rightarrow>
                           (let (e', b, ws', es') = dispatch wr pid mp cs False ws2
                            in (e', b, ws', es @ es')))
              else dispatch wr pid mp cs all_engines_busy (dict_set c w1 ws)))"

text \<open>The connected engines that an input targets, in the order of \<open>_engine_workers\<close>.\<close>

definition targets_of :: "workers \<Rightarrow> engine_id list \<Rightarrow> ctx list" where
  "targets_of ws ids = map fst (filter (\<lambda>(c, w). ew_engine_id w \<in> set ids) ws)"

text \<open>
  The loop over the engines that are no longer targeted.  It looks each worker object up among the
  keys of \<open>_engine_workers\<close>, which are stream contexts, and calls the coroutine function
  \<open>remove_producer\<close> without awaiting it; neither has an effect, so only \<open>target_engines\<close> changes.
\<close>

definition update_targets :: "ctx list \<Rightarrow> producer_info \<Rightarrow> producer_info" where
  "update_targets targets p =
     (if (case target_engines p of None \<Rightarrow> False | Some ts \<Rightarrow> set ts = set targets) then p
      else p\<lparr>target_engines := Some targets\<rparr>)"

definition metadata_payload_of ::
  "producer_id \<Rightarrow> from_client \<Rightarrow> address \<Rightarrow> proto_any \<Rightarrow> metadata_payload" where
  "metadata_payload_of pid from_client address info =
     \<lparr>mp_metadata =
        \<lparr>md_frame_id = in_frame_id (input_of from_client), md_producer_id = pid,
         md_client_address = address,
         md_target_engine_ids = in_target_engine_ids (input_of from_client),
         md_client_info = info\<rparr>,
      mp_payload = in_input_frame (input_of from_client)\<rparr>"

text \<open>
  \<open>process_input_from_client\<close> on the workers and one producer; the result is the reply, the
  workers, the producer and the messages sent.
\<close>

definition process_input_from_client ::
  "engine_write \<Rightarrow> workers \<Rightarrow> producer_info \<Rightarrow> from_client \<Rightarrow> address \<Rightarrow> proto_any \<Rightarrow>
     reply \<times> workers \<times> producer_info \<times> effect list" where
  "process_input_from_client wr ws p from_client address info =
     (let pid = pi_producer_id p;
          mp = metadata_payload_of pid from_client address info;
          ids = in_target_engine_ids (input_of from_client);
          targets = targets_of ws ids
      in if targets = []
         then (Inr (NO_ENGINE_FOR_INPUT,
                 MsgNoTargetEngines ids (map (\<lambda>(c, w). ew_engine_id w) ws)), ws, p, [])
         else
           (let p1 = update_targets targets p;
                (e, all_engines_busy, ws', es) = dispatch wr pid mp targets True ws
            in case e of
                 Some x \<Rightarrow> (Inl x, ws', p1, es)
               | None \<Rightarrow>
                   (if all_engines_busy
                    then (let (success, p2) = add_input_to_queue mp p1
                          in if success then (Inr (SUCCESS, empty_message), ws', p2, es)
                             else (Inr (SERVER_DROPPED_FRAME, MsgProducerQueueFull pid), ws', p2, es))
                    else (Inr (SUCCESS, empty_message), ws',
                          p1\<lparr>latest_input_sent_to_engine := Some mp,
                             pending_token_return := Some True\<rparr>, es))))"

text \<open>\<open>_send_to_engine\<close>, the engine callback: the producer is created on its first input.\<close>

definition send_to_engine :: "engine_write \<Rightarrow> engine_side engine_cb" where
  "send_to_engine wr s from_client address info =
     (let pid = in_producer_id (input_of from_client);
          p = (case producer_infos s pid of
                 None \<Rightarrow> new_producer_info pid (size_for_queues s)
               | Some p \<Rightarrow> p);
          (r, ws', p', es) =
            process_input_from_client wr (engine_workers s) p from_client address info
      in (r, s\<lparr>engine_workers := ws', producer_infos := (producer_infos s)(pid \<mapsto> p')\<rparr>, es))"

section \<open>What the dispatch loop does\<close>

text \<open>An engine is idle when it has no current input.\<close>

definition idle_in :: "workers \<Rightarrow> ctx \<Rightarrow> bool" where
  "idle_in ws c \<longleftrightarrow> (\<exists>w. dict_get ws c = Some w \<and> current_input_metadata w = None)"

text \<open>How one dispatch may change one worker.\<close>

definition dispatched :: "producer_id \<Rightarrow> metadata \<Rightarrow> engine_worker \<Rightarrow> engine_worker \<Rightarrow> bool" where
  "dispatched pid md w w' \<longleftrightarrow>
     ew_context w' = ew_context w \<and> ew_engine_id w' = ew_engine_id w \<and>
     ew_all_responses_required w' = ew_all_responses_required w \<and>
     set (producers w') \<subseteq> insert pid (set (producers w)) \<and>
     (distinct (producers w) \<longrightarrow> distinct (producers w')) \<and>
     (current_input_metadata w' = current_input_metadata w \<or>
      current_input_metadata w = None \<and> current_input_metadata w' = Some md)"

lemma dispatched_refl [simp]: "dispatched pid md w w"
  by (auto simp: dispatched_def)

lemma dispatched_trans:
  "dispatched pid md w w1 \<Longrightarrow> dispatched pid md w1 w2 \<Longrightarrow> dispatched pid md w w2"
  by (auto simp: dispatched_def)

lemma dispatched_add_producer: "dispatched pid md w (add_producer pid w)"
  by (simp add: dispatched_def add_producer_distinct)

lemma dispatched_send:
  assumes "send_payload wr (add_producer pid w) mp = (e, w2, es)" and "current_input_metadata w = None"
  shows "dispatched pid (mp_metadata mp) w w2"
  using send_payload_frame [OF assms(1)] assms(2)
  by (simp add: dispatched_def add_producer_distinct)

definition workers_dispatched :: "producer_id \<Rightarrow> metadata \<Rightarrow> workers \<Rightarrow> workers \<Rightarrow> bool" where
  "workers_dispatched pid md ws ws' \<longleftrightarrow>
     list_all2 (\<lambda>(c, w) (c', w'). c' = c \<and> dispatched pid md w w') ws ws'"

lemma workers_dispatched_refl [simp]: "workers_dispatched pid md ws ws"
  by (auto simp: workers_dispatched_def intro: list_all2_refl)

lemma workers_dispatched_trans:
  assumes "workers_dispatched pid md ws ws1" and "workers_dispatched pid md ws1 ws2"
  shows "workers_dispatched pid md ws ws2"
  using assms unfolding workers_dispatched_def
  by (rule list_all2_trans [rotated]) (auto intro: dispatched_trans)

lemma workers_dispatched_set:
  assumes "dict_get ws c = Some w" and "dispatched pid md w w'"
  shows "workers_dispatched pid md ws (dict_set c w' ws)"
  using assms
  by (induction ws) (auto simp: workers_dispatched_def intro!: list_all2_refl split: if_splits)

lemma workers_dispatched_keys: "workers_dispatched pid md ws ws' \<Longrightarrow> map fst ws' = map fst ws"
  unfolding workers_dispatched_def by (induction rule: list_all2_induct) auto

lemma workers_dispatched_get:
  assumes "workers_dispatched pid md ws ws'"
  shows "case dict_get ws c of None \<Rightarrow> dict_get ws' c = None
    | Some w \<Rightarrow> \<exists>w'. dict_get ws' c = Some w' \<and> dispatched pid md w w'"
  using assms unfolding workers_dispatched_def
  by (induction rule: list_all2_induct) (auto split: option.splits)

lemma workers_dispatched_getD:
  assumes "workers_dispatched pid md ws ws'" and "dict_get ws' c = Some w'"
  obtains w where "dict_get ws c = Some w" and "dispatched pid md w w'"
  using workers_dispatched_get [OF assms(1), of c] assms(2) by (auto split: option.splits)

lemma workers_dispatched_getE:
  assumes "workers_dispatched pid md ws ws'" and "dict_get ws c = Some w"
  obtains w' where "dict_get ws' c = Some w'" and "dispatched pid md w w'"
  using workers_dispatched_get [OF assms(1), of c] assms(2) by auto

lemma dispatch_dispatched:
  "dispatch wr pid mp cs b ws = (e, b', ws', es) \<Longrightarrow>
     workers_dispatched pid (mp_metadata mp) ws ws' \<and> token_returns a p es = 0"
proof (induction cs arbitrary: b ws e b' ws' es)
  case Nil
  then show ?case by simp
next
  case (Cons c cs)
  show ?case
  proof (cases "dict_get ws c")
    case None
    with Cons show ?thesis by auto
  next
    case (Some w)
    let ?w1 = "add_producer pid w"
    show ?thesis
    proof (cases "current_input_metadata w = None")
      case False
      have "workers_dispatched pid (mp_metadata mp) ws (dict_set c ?w1 ws)"
        by (rule workers_dispatched_set [OF Some dispatched_add_producer])
      then show ?thesis
        using Cons.IH [of b "dict_set c ?w1 ws" e b' ws' es] Cons.prems Some False
          workers_dispatched_trans by (auto simp: Let_def)
    next
      case True
      obtain e2 w2 es2 where sp: "send_payload wr ?w1 mp = (e2, w2, es2)"
        by (metis prod_cases3)
      have d: "workers_dispatched pid (mp_metadata mp) ws (dict_set c w2 ws)"
        by (rule workers_dispatched_set [OF Some dispatched_send [OF sp True]])
      have t: "token_returns a p es2 = 0" by (rule send_payload_frame(6) [OF sp])
      show ?thesis
      proof (cases e2)
        case (Some x)
        with d t sp True \<open>dict_get ws c = Some w\<close> Cons.prems show ?thesis
          by (auto simp: Let_def)
      next
        case None
        with sp True \<open>dict_get ws c = Some w\<close> Cons.prems obtain es3 where
          "dispatch wr pid mp cs False (dict_set c w2 ws) = (e, b', ws', es3)" "es = es2 @ es3"
          by (auto simp: Let_def split: prod.splits)
        then show ?thesis
          using Cons.IH [of False "dict_set c w2 ws" e b' ws' es3] d t workers_dispatched_trans
          by auto
      qed
    qed
  qed
qed

text \<open>
  Unless a write fails, the flag says whether every target was busy, and an idle target ends up
  working on the input.
\<close>

lemma idle_in_set [simp]:
  "idle_in (dict_set c w ws) c' \<longleftrightarrow>
     (if c' = c then current_input_metadata w = None else idle_in ws c')"
  by (auto simp: idle_in_def)

definition working_on :: "workers \<Rightarrow> metadata \<Rightarrow> bool" where
  "working_on ws md \<longleftrightarrow> (\<exists>c w. dict_get ws c = Some w \<and> current_input_metadata w = Some md)"

lemma working_on_set:
  "dict_get ws c = Some w0 \<Longrightarrow> current_input_metadata w0 \<noteq> Some md \<Longrightarrow> working_on ws md \<Longrightarrow>
     working_on (dict_set c w ws) md"
  unfolding working_on_def by (metis dict_get_set option.inject)

lemma working_on_dispatched:
  assumes "workers_dispatched pid md' ws ws'" and "working_on ws md"
  shows "working_on ws' md"
proof -
  from assms(2) obtain c w where w: "dict_get ws c = Some w" "current_input_metadata w = Some md"
    by (auto simp: working_on_def)
  then obtain w' where "dict_get ws' c = Some w'" "dispatched pid md' w w'"
    using workers_dispatched_getE [OF assms(1)] by blast
  with w show ?thesis by (auto simp: working_on_def dispatched_def)
qed

lemma dispatch_busy:
  "distinct cs \<Longrightarrow> dispatch wr pid mp cs b ws = (None, b', ws', es) \<Longrightarrow>
     (b' \<longleftrightarrow> b \<and> \<not> (\<exists>c \<in> set cs. idle_in ws c)) \<and>
     ((\<exists>c \<in> set cs. idle_in ws c) \<longrightarrow> working_on ws' (mp_metadata mp))"
proof (induction cs arbitrary: b ws b' ws' es)
  case Nil
  then show ?case by simp
next
  case (Cons c cs)
  from Cons.prems(1) have c: "c \<notin> set cs" and dcs: "distinct cs" by auto
  have keep: "(\<exists>c' \<in> set cs. idle_in (dict_set c w2 ws) c') \<longleftrightarrow> (\<exists>c' \<in> set cs. idle_in ws c')" for w2
    using c by (metis idle_in_set)
  show ?case
  proof (cases "dict_get ws c")
    case None
    with Cons.prems(2) Cons.IH [OF dcs, of b ws b' ws' es] show ?thesis by (auto simp: idle_in_def)
  next
    case (Some w)
    let ?w1 = "add_producer pid w"
    show ?thesis
    proof (cases "current_input_metadata w = None")
      case False
      with Some have "\<not> idle_in ws c" by (simp add: idle_in_def)
      moreover have d: "dispatch wr pid mp cs b (dict_set c ?w1 ws) = (None, b', ws', es)"
        using Cons.prems(2) Some False by (simp add: Let_def)
      ultimately show ?thesis using Cons.IH [OF dcs d, unfolded keep] by auto
    next
      case True
      obtain e2 w2 es2 where sp: "send_payload wr ?w1 mp = (e2, w2, es2)"
        by (metis prod_cases3)
      have idle: "idle_in ws c" using Some True by (simp add: idle_in_def)
      from sp True Some Cons.prems(2) obtain es3 where
        d: "dispatch wr pid mp cs False (dict_set c w2 ws) = (None, b', ws', es3)"
        by (auto simp: Let_def split: prod.splits option.splits)
      have "working_on (dict_set c w2 ws) (mp_metadata mp)"
        using send_payload_frame(5) [OF sp] by (auto simp: working_on_def)
      then have "working_on ws' (mp_metadata mp)"
        using working_on_dispatched dispatch_dispatched [OF d, of "[]" "[]"] by blast
      then show ?thesis using Cons.IH [OF dcs d] idle by auto
    qed
  qed
qed

section \<open>The order of the targets does not matter\<close>

text \<open>What a dispatch that goes through does to one target.\<close>

definition deliver :: "producer_id \<Rightarrow> metadata_payload \<Rightarrow> engine_worker \<Rightarrow> engine_worker" where
  "deliver pid mp w =
     (let w1 = add_producer pid w; md = mp_metadata mp
      in if current_input_metadata w = None
         then w1\<lparr>current_input_metadata := Some md,
                 latest_input_processed := (latest_input_processed w)(md_producer_id md \<mapsto> md)\<rparr>
         else w1)"

lemma dict_set_map:
  "dict_wf ws \<Longrightarrow> dict_get ws c = Some w \<Longrightarrow>
     dict_set c v ws = map (\<lambda>(k, x). (k, if k = c then v else x)) ws"
proof (induction ws)
  case Nil
  then show ?case by simp
next
  case (Cons kx ws)
  obtain k x where kx: "kx = (k, x)" by (cases kx)
  show ?case
  proof (cases "k = c")
    case True
    with Cons.prems(1) kx have "c \<notin> fst ` set ws" by auto
    then have "map (\<lambda>(k, x). (k, if k = c then v else x)) ws = ws"
      by (induction ws) auto
    with True kx show ?thesis by simp
  next
    case False
    with Cons kx show ?thesis by auto
  qed
qed

lemma map_if_in_cong:
  "map (\<lambda>(k, x). (k, if k \<in> A then f x else x)) (map (\<lambda>(k, x). (k, if k = c then v else x)) ws) =
   map (\<lambda>(k, x). (k, if k \<in> insert c A then f x else x)) ws"
  if "c \<notin> A" and "\<And>x. (c, x) \<in> set ws \<Longrightarrow> v = f x"
  using that by (induction ws) auto

text \<open>The message an idle target is sent.\<close>

definition frame_for :: "metadata_payload \<Rightarrow> ctx \<Rightarrow> effect" where
  "frame_for mp c = SendEngine c \<lparr>te_input_frame = mp_payload mp,
     te_client_info = md_client_info (mp_metadata mp)\<rparr>"

lemma deliver_context [simp]: "ew_context (deliver pid mp w) = ew_context w"
  by (simp add: deliver_def Let_def)

lemma dispatch_step:
  assumes w: "dict_get ws c = Some w" and cw: "ew_context w = c" and wr: "wr c"
  shows "dispatch wr pid mp (c # cs) b ws =
    (let (e, b', ws', es') =
       dispatch wr pid mp cs (b \<and> \<not> idle_in ws c) (dict_set c (deliver pid mp w) ws)
     in (e, b', ws', (if idle_in ws c then [frame_for mp c] else []) @ es'))"
proof (cases "current_input_metadata w")
  case None
  then have idle: "idle_in ws c" using w by (simp add: idle_in_def)
  have sp: "send_payload wr (add_producer pid w) mp = (None, deliver pid mp w, [frame_for mp c])"
    using None cw wr by (simp add: send_payload_def Let_def deliver_def frame_for_def)
  show ?thesis using w None idle by (simp add: Let_def sp)
next
  case (Some md)
  then have "\<not> idle_in ws c" "deliver pid mp w = add_producer pid w"
    using w by (auto simp: idle_in_def deliver_def Let_def)
  then show ?thesis using Some w by (simp add: Let_def)
qed

lemma dispatch_through:
  assumes "dict_wf ws" and "distinct cs" and "\<forall>c \<in> set cs. wr c"
    and "\<forall>c w. dict_get ws c = Some w \<longrightarrow> ew_context w = c"
  shows "dispatch wr pid mp cs b ws =
    (None, b \<and> \<not> (\<exists>c \<in> set cs. idle_in ws c),
     map (\<lambda>(c, w). (c, if c \<in> set cs then deliver pid mp w else w)) ws,
     map (frame_for mp) (filter (idle_in ws) cs))"
  using assms
proof (induction cs arbitrary: b ws)
  case Nil
  have "map (\<lambda>(c, w). (c, w)) ws = ws" by (induction ws) auto
  then show ?case by simp
next
  case (Cons c cs)
  from Cons.prems(2) have c: "c \<notin> set cs" "distinct cs" by auto
  show ?case
  proof (cases "dict_get ws c")
    case None
    then have "c \<notin> fst ` set ws" by (simp add: map_of_eq_None_iff)
    then have "map (\<lambda>(k, w). (k, if k \<in> set (c # cs) then deliver pid mp w else w)) ws =
      map (\<lambda>(k, w). (k, if k \<in> set cs then deliver pid mp w else w)) ws"
      by (intro map_cong) (auto simp: image_iff)
    moreover have "\<not> idle_in ws c" using None by (simp add: idle_in_def)
    ultimately show ?thesis using None Cons.IH [OF Cons.prems(1) c(2)] Cons.prems by auto
  next
    case (Some w)
    then have cw: "ew_context w = c" using Cons.prems(4) by blast
    define ws1 where "ws1 = dict_set c (deliver pid mp w) ws"
    have ws1: "ws1 = map (\<lambda>(k, x). (k, if k = c then deliver pid mp w else x)) ws"
      unfolding ws1_def by (rule dict_set_map [OF Cons.prems(1) Some])
    have "dict_wf ws1" using Cons.prems(1) by (simp add: ws1_def)
    moreover have "\<forall>c w. dict_get ws1 c = Some w \<longrightarrow> ew_context w = c"
      using Cons.prems(4) cw by (auto simp: ws1_def split: if_splits)
    ultimately have ih: "dispatch wr pid mp cs (b \<and> \<not> idle_in ws c) ws1 =
      (None, (b \<and> \<not> idle_in ws c) \<and> \<not> (\<exists>c \<in> set cs. idle_in ws1 c),
       map (\<lambda>(c, w). (c, if c \<in> set cs then deliver pid mp w else w)) ws1,
       map (frame_for mp) (filter (idle_in ws1) cs))"
      using Cons.IH [OF _ c(2)] Cons.prems(3) by simp
    have idl: "idle_in ws1 c' = idle_in ws c'" if "c' \<in> set cs" for c'
      using that c(1) by (auto simp: ws1_def)
    have same: "filter (idle_in ws1) cs = filter (idle_in ws) cs"
      by (rule filter_cong [OF refl idl])
    have same': "(\<exists>c \<in> set cs. idle_in ws1 c) \<longleftrightarrow> (\<exists>c \<in> set cs. idle_in ws c)"
      by (rule bex_cong [OF refl idl])
    have "x = w" if "(c, x) \<in> set ws" for x
      using that Some map_of_is_SomeI [OF Cons.prems(1) that] by simp
    then have v: "deliver pid mp w = deliver pid mp x" if "(c, x) \<in> set ws" for x
      using that by blast
    have "map (\<lambda>(c, w). (c, if c \<in> set cs then deliver pid mp w else w)) ws1 =
      map (\<lambda>(k, w). (k, if k \<in> set (c # cs) then deliver pid mp w else w)) ws"
      unfolding ws1 list.set by (rule map_if_in_cong [OF c(1) v])
    moreover have "wr c" using Cons.prems(3) by simp
    ultimately show ?thesis
      unfolding dispatch_step [where wr = wr, OF Some cw \<open>wr c\<close>] ws1_def [symmetric] ih same same'
      by auto
  qed
qed

section \<open>Processing one input\<close>

lemma distinct_targets: "dict_wf ws \<Longrightarrow> distinct (targets_of ws ids)"
  by (simp add: targets_of_def distinct_map_filter)

lemma targets_of_mem:
  "dict_wf ws \<Longrightarrow> c \<in> set (targets_of ws ids) \<longleftrightarrow>
     (\<exists>w. dict_get ws c = Some w \<and> ew_engine_id w \<in> set ids)"
  by (auto simp: targets_of_def image_iff)

lemma update_targets_simps [simp]:
  "pi_producer_id (update_targets ts p) = pi_producer_id p"
  "input_queue (update_targets ts p) = input_queue p"
  "pi_size_for_queues (update_targets ts p) = pi_size_for_queues p"
  "latest_input_sent_to_engine (update_targets ts p) = latest_input_sent_to_engine p"
  "pending_token_return (update_targets ts p) = pending_token_return p"
  "pending (update_targets ts p) = pending p"
  "debt (update_targets ts p) a = debt p a"
  "wf_producer_info pid (update_targets ts p) = wf_producer_info pid p"
  by (auto simp: update_targets_def pending_def debt_def in_flight_debt_def wf_producer_info_def
      split: option.splits)

text \<open>Whether an input would find an idle target.\<close>

definition idle_target :: "workers \<Rightarrow> from_client \<Rightarrow> bool" where
  "idle_target ws fc \<longleftrightarrow>
     (\<exists>c \<in> set (targets_of ws (in_target_engine_ids (input_of fc))). idle_in ws c)"

text \<open>The part after the target check, in terms of the dispatch result.\<close>

lemma process_input_targeted:
  assumes "targets_of ws (in_target_engine_ids (input_of fc)) \<noteq> []"
    and "mp = metadata_payload_of (pi_producer_id p) fc a i"
    and "p1 = update_targets (targets_of ws (in_target_engine_ids (input_of fc))) p"
    and "dispatch wr (pi_producer_id p) mp (targets_of ws (in_target_engine_ids (input_of fc)))
      True ws = (e, b, ws2, es2)"
  shows "process_input_from_client wr ws p fc a i =
    (case e of
       Some x \<Rightarrow> (Inl x, ws2, p1, es2)
     | None \<Rightarrow>
         (if b
          then (let (success, p2) = add_input_to_queue mp p1
                in if success then (Inr (SUCCESS, empty_message), ws2, p2, es2)
                   else (Inr (SERVER_DROPPED_FRAME, MsgProducerQueueFull (pi_producer_id p)),
                         ws2, p2, es2))
          else (Inr (SUCCESS, empty_message), ws2,
                p1\<lparr>latest_input_sent_to_engine := Some mp, pending_token_return := Some True\<rparr>, es2)))"
  using assms by (simp add: process_input_from_client_def Let_def split: option.split)

lemma process_input_cases:
  assumes wf: "dict_wf ws"
    and eq: "process_input_from_client wr ws p fc a i = (r, ws', p', es)"
    and mp_def: "mp = metadata_payload_of (pi_producer_id p) fc a i"
    and ids_def: "ids = in_target_engine_ids (input_of fc)"
    and p1_def: "p1 = update_targets (targets_of ws ids) p"
  obtains (no_engine) "targets_of ws ids = []" "ws' = ws" "p' = p" "es = []"
      "r = Inr (NO_ENGINE_FOR_INPUT, MsgNoTargetEngines ids (map (\<lambda>(c, w). ew_engine_id w) ws))"
  | (raised) e where "targets_of ws ids \<noteq> []" "r = Inl e" "p' = p1"
  | (dropped) "targets_of ws ids \<noteq> []" "\<not> idle_target ws fc" "producer_queue_full p" "p' = p1"
      "r = Inr (SERVER_DROPPED_FRAME, MsgProducerQueueFull (pi_producer_id p))"
  | (queued) "targets_of ws ids \<noteq> []" "\<not> idle_target ws fc" "\<not> producer_queue_full p"
      "p' = p1\<lparr>input_queue := input_queue p @ [mp]\<rparr>" "r = Inr (SUCCESS, empty_message)"
  | (sent) "targets_of ws ids \<noteq> []" "idle_target ws fc" "working_on ws' (mp_metadata mp)"
      "p' = p1\<lparr>latest_input_sent_to_engine := Some mp, pending_token_return := Some True\<rparr>"
      "r = Inr (SUCCESS, empty_message)"
proof (cases "targets_of ws ids = []")
  case True
  have "process_input_from_client wr ws p fc a i =
    (Inr (NO_ENGINE_FOR_INPUT, MsgNoTargetEngines ids (map (\<lambda>(c, w). ew_engine_id w) ws)), ws, p, [])"
    using True by (simp add: process_input_from_client_def ids_def)
  then show thesis using eq True by (intro no_engine) simp_all
next
  case False
  obtain e b ws2 es2 where
    d: "dispatch wr (pi_producer_id p) mp (targets_of ws ids) True ws = (e, b, ws2, es2)"
    by (metis prod_cases4)
  note step = process_input_targeted [OF False [unfolded ids_def] mp_def p1_def [unfolded ids_def]
      d [unfolded ids_def]]
  show thesis
  proof (cases e)
    case (Some x)
    with step eq have "r = Inl x" "p' = p1" by simp_all
    with False show thesis by (rule raised)
  next
    case None
    note busy = dispatch_busy [OF distinct_targets [OF wf] d [unfolded None]]
    show thesis
    proof (cases b)
      case True
      with busy have ni: "\<not> idle_target ws fc" by (simp add: idle_target_def ids_def)
      show thesis
      proof (cases "producer_queue_full p")
        case full: True
        then have "producer_queue_full p1" by (simp add: producer_queue_full_def p1_def)
        then have "add_input_to_queue mp p1 = (False, p1)" by (rule producer_queue.put_full)
        with step eq None True have "p' = p1"
          "r = Inr (SERVER_DROPPED_FRAME, MsgProducerQueueFull (pi_producer_id p))" by simp_all
        with False ni full show thesis by (rule dropped)
      next
        case room: False
        then have "add_input_to_queue mp p1 = (True, p1\<lparr>input_queue := input_queue p @ [mp]\<rparr>)"
          by (simp add: producer_queue_full_def p1_def add_input_to_queue_def)
        with step eq None True have "p' = p1\<lparr>input_queue := input_queue p @ [mp]\<rparr>"
          "r = Inr (SUCCESS, empty_message)" by simp_all
        with False ni room show thesis by (rule queued)
      qed
    next
      case b: False
      with busy have it: "idle_target ws fc" and won: "working_on ws2 (mp_metadata mp)"
        by (auto simp: idle_target_def ids_def)
      from step eq None b have "ws' = ws2" "r = Inr (SUCCESS, empty_message)"
        "p' = p1\<lparr>latest_input_sent_to_engine := Some mp, pending_token_return := Some True\<rparr>"
        by simp_all
      with False it won show thesis by (intro sent) simp_all
    qed
  qed
qed

lemma process_input_workers:
  assumes "process_input_from_client wr ws p fc a i = (r, ws', p', es)"
  shows "workers_dispatched (pi_producer_id p)
      (mp_metadata (metadata_payload_of (pi_producer_id p) fc a i)) ws ws'"
    and "token_returns b q es = 0"
proof -
  let ?mp = "metadata_payload_of (pi_producer_id p) fc a i"
  let ?ts = "targets_of ws (in_target_engine_ids (input_of fc))"
  obtain e bz ws2 es2 where
    d: "dispatch wr (pi_producer_id p) ?mp ?ts True ws = (e, bz, ws2, es2)"
    by (metis prod_cases4)
  have "ws' = ws \<and> es = [] \<or> ws' = ws2 \<and> es = es2"
    using assms d
    by (auto simp: process_input_from_client_def Let_def split: if_splits option.splits prod.splits)
  then show "workers_dispatched (pi_producer_id p) (mp_metadata ?mp) ws ws'"
    "token_returns b q es = 0"
    using dispatch_dispatched [OF d, of b q] by auto
qed

section \<open>Well-formed engine side\<close>

definition wf_worker :: "producer_table \<Rightarrow> ctx \<Rightarrow> engine_worker \<Rightarrow> bool" where
  "wf_worker ps c w \<longleftrightarrow>
     ew_context w = c \<and> distinct (producers w) \<and> set (producers w) \<subseteq> dom ps \<and>
     (\<forall>md. current_input_metadata w = Some md \<longrightarrow> md_producer_id md \<in> dom ps)"

definition worker_ids :: "workers \<Rightarrow> engine_id list" where
  "worker_ids ws = map (\<lambda>(c, w). ew_engine_id w) ws"

text \<open>
  The producer table: every producer is well-formed and has the server's queue size, and a pending
  token return always has an engine working on the in-flight input.
\<close>

definition wf_producers :: "nat \<Rightarrow> workers \<Rightarrow> producer_table \<Rightarrow> bool" where
  "wf_producers n ws ps \<longleftrightarrow>
     (\<forall>pid p. ps pid = Some p \<longrightarrow>
        wf_producer_info pid p \<and> pi_size_for_queues p = n \<and>
        (\<forall>mp. pending p \<longrightarrow> latest_input_sent_to_engine p = Some mp \<longrightarrow>
           working_on ws (mp_metadata mp)))"

definition wf_workers :: "producer_table \<Rightarrow> workers \<Rightarrow> bool" where
  "wf_workers ps ws \<longleftrightarrow>
     dict_wf ws \<and> distinct (worker_ids ws) \<and>
     (\<forall>c w. dict_get ws c = Some w \<longrightarrow> wf_worker ps c w)"

definition wf_engine_side :: "engine_side \<Rightarrow> bool" where
  "wf_engine_side s \<longleftrightarrow>
     wf_workers (producer_infos s) (engine_workers s) \<and>
     distinct (engine_ids s) \<and> set (engine_ids s) = set (worker_ids (engine_workers s)) \<and>
     wf_producers (size_for_queues s) (engine_workers s) (producer_infos s)"

lemma wf_engine_sideD:
  assumes "wf_engine_side s"
  shows "wf_workers (producer_infos s) (engine_workers s)" and "dict_wf (engine_workers s)"
    and "wf_producers (size_for_queues s) (engine_workers s) (producer_infos s)"
    and "distinct (engine_ids s)" and "set (engine_ids s) = set (worker_ids (engine_workers s))"
    and "distinct (worker_ids (engine_workers s))"
  using assms by (auto simp: wf_engine_side_def wf_workers_def)

lemma wf_producersD:
  assumes "wf_producers n ws ps" and "ps pid = Some p"
  shows "wf_producer_info pid p" and "pi_size_for_queues p = n" and "pi_producer_id p = pid"
    and "pending p \<Longrightarrow> latest_input_sent_to_engine p = Some mp \<Longrightarrow> working_on ws (mp_metadata mp)"
  using assms by (auto simp: wf_producers_def wf_producer_info_def)

lemma wf_workers_mono: "wf_workers ps ws \<Longrightarrow> dom ps \<subseteq> dom ps' \<Longrightarrow> wf_workers ps' ws"
  unfolding wf_workers_def wf_worker_def by blast

lemma worker_ids_dispatched: "workers_dispatched pid md ws ws' \<Longrightarrow> worker_ids ws' = worker_ids ws"
  unfolding workers_dispatched_def worker_ids_def
  by (induction rule: list_all2_induct) (auto simp: dispatched_def)

lemma wf_workers_dispatched:
  assumes wf: "wf_workers ps ws" and d: "workers_dispatched pid md ws ws'"
    and ps: "dom ps \<subseteq> dom ps'" "pid \<in> dom ps'" "md_producer_id md \<in> dom ps'"
  shows "wf_workers ps' ws'"
  unfolding wf_workers_def
proof (intro conjI allI impI)
  show "dict_wf ws'" using wf workers_dispatched_keys [OF d] by (simp add: wf_workers_def)
  show "distinct (worker_ids ws')" using wf worker_ids_dispatched [OF d] by (simp add: wf_workers_def)
  fix c w'
  assume "dict_get ws' c = Some w'"
  then obtain w where "dict_get ws c = Some w" and dw: "dispatched pid md w w'"
    using workers_dispatched_getD [OF d] by blast
  then have "wf_worker ps c w" using wf by (simp add: wf_workers_def)
  with dw ps show "wf_worker ps' c w'" unfolding wf_worker_def dispatched_def by auto
qed

lemma wf_producers_update:
  assumes wf: "wf_producers n ws ps" and keep: "\<And>md. working_on ws md \<Longrightarrow> working_on ws' md"
    and p: "wf_producer_info pid p'" "pi_size_for_queues p' = n"
      "\<And>mp. pending p' \<Longrightarrow> latest_input_sent_to_engine p' = Some mp \<Longrightarrow>
        working_on ws' (mp_metadata mp)"
  shows "wf_producers n ws' (ps(pid \<mapsto> p'))"
  using assms unfolding wf_producers_def by auto

text \<open>The producer of an input after \<open>process_input_from_client\<close>.\<close>

lemma process_input_producer:
  assumes wf: "dict_wf ws" and p: "wf_producer_info pid p"
    and latest: "\<And>mp. pending p \<Longrightarrow> latest_input_sent_to_engine p = Some mp \<Longrightarrow>
        working_on ws (mp_metadata mp)"
    and eq: "process_input_from_client wr ws p fc a i = (r, ws', p', es)"
  shows "wf_producer_info pid p' \<and> pi_size_for_queues p' = pi_size_for_queues p \<and>
    (\<forall>mp. pending p' \<longrightarrow> latest_input_sent_to_engine p' = Some mp \<longrightarrow>
        working_on ws' (mp_metadata mp))"
proof -
  have keep: "working_on ws md \<Longrightarrow> working_on ws' md" for md
    using working_on_dispatched process_input_workers(1) [OF eq] by blast
  have id: "pi_producer_id p = pid" using p by (simp add: wf_producer_info_def)
  from wf eq refl refl refl show ?thesis
  proof (cases rule: process_input_cases)
    case queued
    then show ?thesis
      using p latest keep id
      by (auto simp: wf_producer_info_def producer_queue_full_def pending_def metadata_payload_of_def)
  next
    case sent
    then show ?thesis
      using p id by (auto simp: wf_producer_info_def metadata_payload_of_def)
  qed (use p latest keep in auto)
qed

section \<open>The engine callback keeps the invariant and the books\<close>

definition owed :: "engine_side \<Rightarrow> address \<Rightarrow> producer_id \<Rightarrow> nat" where
  "owed s a pid = (case producer_infos s pid of None \<Rightarrow> 0 | Some p \<Rightarrow> debt p a)"

text \<open>
  An input is taken without loss when it does not displace an in-flight input whose token return
  is still pending, that is when no target is idle while one is pending.
\<close>

definition lossless :: "engine_side \<Rightarrow> from_client \<Rightarrow> bool" where
  "lossless s fc \<longleftrightarrow>
     (case producer_infos s (in_producer_id (input_of fc)) of
        None \<Rightarrow> True
      | Some p \<Rightarrow> pending p \<longrightarrow> \<not> idle_target (engine_workers s) fc)"

text \<open>The producer an input belongs to, created on demand.\<close>

definition producer_for :: "engine_side \<Rightarrow> producer_id \<Rightarrow> producer_info" where
  "producer_for s pid =
     (case producer_infos s pid of
        None \<Rightarrow> new_producer_info pid (size_for_queues s)
      | Some p \<Rightarrow> p)"

lemma owed_producer_for: "owed s a pid = debt (producer_for s pid) a"
  by (simp add: owed_def producer_for_def split: option.split)

lemma wf_producer_for:
  assumes "wf_engine_side s"
  shows "wf_producer_info pid (producer_for s pid)"
    and "pi_size_for_queues (producer_for s pid) = size_for_queues s"
    and "pi_producer_id (producer_for s pid) = pid"
    and "pending (producer_for s pid) \<Longrightarrow>
      latest_input_sent_to_engine (producer_for s pid) = Some mp \<Longrightarrow>
      working_on (engine_workers s) (mp_metadata mp)"
proof -
  have n: "wf_producer_info pid (new_producer_info pid k)"
    "pi_size_for_queues (new_producer_info pid k) = k"
    "pi_producer_id (new_producer_info pid k) = pid"
    "\<not> pending (new_producer_info pid k)" for k
    by (simp_all add: new_producer_info_def pending_def wf_producer_info_def)
  note d = wf_producersD [OF wf_engine_sideD(3) [OF assms]]
  show "wf_producer_info pid (producer_for s pid)"
    "pi_size_for_queues (producer_for s pid) = size_for_queues s"
    "pi_producer_id (producer_for s pid) = pid"
    "pending (producer_for s pid) \<Longrightarrow>
      latest_input_sent_to_engine (producer_for s pid) = Some mp \<Longrightarrow>
      working_on (engine_workers s) (mp_metadata mp)"
    using n d by (auto simp: producer_for_def split: option.splits)
qed

lemma send_to_engine_unfold:
  assumes "send_to_engine wr s fc a i = (r, s', es)" and "pid = in_producer_id (input_of fc)"
  obtains ws' p' where
    "process_input_from_client wr (engine_workers s) (producer_for s pid) fc a i = (r, ws', p', es)"
    and "s' = s\<lparr>engine_workers := ws', producer_infos := (producer_infos s)(pid \<mapsto> p')\<rparr>"
  using assms by (auto simp: send_to_engine_def producer_for_def Let_def split: prod.splits)

lemma send_to_engine_wf:
  assumes wf: "wf_engine_side s" and eq: "send_to_engine wr s fc a i = (r, s', es)"
  shows "wf_engine_side s'"
proof -
  let ?pid = "in_producer_id (input_of fc)"
  let ?p = "producer_for s ?pid"
  from eq refl obtain ws' p' where
    pr: "process_input_from_client wr (engine_workers s) ?p fc a i = (r, ws', p', es)"
    and s': "s' = s\<lparr>engine_workers := ws', producer_infos := (producer_infos s)(?pid \<mapsto> p')\<rparr>"
    by (rule send_to_engine_unfold)
  note P = wf_producer_for [OF wf, of ?pid]
  note D = process_input_workers(1) [OF pr]
  have keep: "working_on (engine_workers s) md \<Longrightarrow> working_on ws' md" for md
    using working_on_dispatched [OF D] by blast
  have "wf_workers ((producer_infos s)(?pid \<mapsto> p')) ws'"
    by (rule wf_workers_dispatched [OF wf_engine_sideD(1) [OF wf] D])
      (auto simp: P(3) metadata_payload_of_def)
  moreover have p': "wf_producer_info ?pid p' \<and> pi_size_for_queues p' = pi_size_for_queues ?p \<and>
    (\<forall>mp. pending p' \<longrightarrow> latest_input_sent_to_engine p' = Some mp \<longrightarrow>
        working_on ws' (mp_metadata mp))"
    by (rule process_input_producer [OF wf_engine_sideD(2) [OF wf] P(1) _ pr]) (rule P(4))
  moreover have "wf_producers (size_for_queues s) ws' ((producer_infos s)(?pid \<mapsto> p'))"
    by (rule wf_producers_update [OF wf_engine_sideD(3) [OF wf]]) (use p' P(2) keep in auto)
  ultimately show ?thesis
    using wf worker_ids_dispatched [OF D] by (simp add: s' wf_engine_side_def)
qed

lemma debt_sent:
  "\<not> pending p \<Longrightarrow>
     debt (p\<lparr>latest_input_sent_to_engine := Some mp, pending_token_return := Some True\<rparr>) b =
     debt p b + (if from_address b mp then 1 else 0)"
  by (auto simp: debt_def in_flight_debt_def pending_def split: option.splits)

lemma debt_displaced:
  "debt (p\<lparr>latest_input_sent_to_engine := Some mp, pending_token_return := Some True\<rparr>) b \<le>
     debt p b + (if from_address b mp then 1 else 0)"
  by (auto simp: debt_def in_flight_debt_def pending_def split: option.splits)

lemma debt_queued:
  "debt (p\<lparr>input_queue := input_queue p @ [mp]\<rparr>) b =
     debt p b + (if from_address b mp then 1 else 0)"
  by (auto simp: debt_def in_flight_debt_def pending_def split: option.splits)

lemma process_input_debt:
  assumes wf: "dict_wf ws" and eq: "process_input_from_client wr ws p fc a i = (r, ws', p', es)"
  shows "debt p' b \<le> debt p b + (if accepted r \<and> b = a then 1 else 0)"
    and "(pending p \<longrightarrow> \<not> idle_target ws fc) \<Longrightarrow>
      debt p' b = debt p b + (if accepted r \<and> b = a then 1 else 0)"
proof -
  let ?mp = "metadata_payload_of (pi_producer_id p) fc a i"
  let ?p1 = "update_targets (targets_of ws (in_target_engine_ids (input_of fc))) p"
  have fa: "from_address b ?mp \<longleftrightarrow> b = a"
    by (auto simp: from_address_def metadata_payload_of_def)
  have "debt p' b \<le> debt p b + (if accepted r \<and> b = a then 1 else 0) \<and>
    ((pending p \<longrightarrow> \<not> idle_target ws fc) \<longrightarrow>
      debt p' b = debt p b + (if accepted r \<and> b = a then 1 else 0))"
    using wf eq refl refl refl
  proof (cases rule: process_input_cases)
    case queued
    then show ?thesis using debt_queued [where p = ?p1 and mp = ?mp and b = b] fa by simp
  next
    case sent
    then show ?thesis
      using debt_sent [where p = ?p1 and mp = ?mp and b = b]
        debt_displaced [where p = ?p1 and mp = ?mp and b = b] fa by simp
  qed auto
  then show "debt p' b \<le> debt p b + (if accepted r \<and> b = a then 1 else 0)"
    "(pending p \<longrightarrow> \<not> idle_target ws fc) \<Longrightarrow>
      debt p' b = debt p b + (if accepted r \<and> b = a then 1 else 0)"
    by blast+
qed

lemma send_to_engine_owed:
  assumes wf: "wf_engine_side s" and eq: "send_to_engine wr s fc a i = (r, s', es)"
  shows "owed s' b q \<le> owed s b q +
      (if accepted r \<and> b = a \<and> q = in_producer_id (input_of fc) then 1 else 0)"
    and "lossless s fc \<Longrightarrow> owed s' b q = owed s b q +
      (if accepted r \<and> b = a \<and> q = in_producer_id (input_of fc) then 1 else 0)"
proof -
  let ?pid = "in_producer_id (input_of fc)"
  from eq refl obtain ws' p' where
    pr: "process_input_from_client wr (engine_workers s) (producer_for s ?pid) fc a i =
      (r, ws', p', es)"
    and s': "s' = s\<lparr>engine_workers := ws', producer_infos := (producer_infos s)(?pid \<mapsto> p')\<rparr>"
    by (rule send_to_engine_unfold)
  have o: "owed s' b q = (if q = ?pid then debt p' b else owed s b q)"
    by (simp add: owed_def s')
  have l: "pending (producer_for s ?pid) \<longrightarrow> \<not> idle_target (engine_workers s) fc" if "lossless s fc"
    using that
    by (simp add: lossless_def producer_for_def pending_def new_producer_info_def
        split: option.splits)
  note D = process_input_debt [OF wf_engine_sideD(2) [OF wf] pr, of b]
  show "owed s' b q \<le> owed s b q + (if accepted r \<and> b = a \<and> q = ?pid then 1 else 0)"
    unfolding o using D(1) owed_producer_for [of s b ?pid] by auto
  show "lossless s fc \<Longrightarrow> owed s' b q = owed s b q +
      (if accepted r \<and> b = a \<and> q = ?pid then 1 else 0)"
    unfolding o using D(2) l owed_producer_for [of s b ?pid] by auto
qed

lemma send_to_engine_no_returns:
  assumes eq: "send_to_engine wr s fc a i = (r, s', es)"
  shows "token_returns b q es = 0"
proof -
  from eq refl obtain ws' p' where "process_input_from_client wr (engine_workers s)
      (producer_for s (in_producer_id (input_of fc))) fc a i = (r, ws', p', es)"
    by (rule send_to_engine_unfold)
  then show ?thesis by (rule process_input_workers(2))
qed

interpretation engine_flow: flow_control "send_to_engine wr" owed wf_engine_side lossless for wr
  using send_to_engine_wf send_to_engine_owed send_to_engine_no_returns
  by unfold_locales blast+

section \<open>Properties of the input path\<close>


definition sample_workers :: workers where
  "sample_workers = [(1, new_engine_worker 1 ''e1'' False 3), (2, new_engine_worker 2 ''e2'' False 3)]"


lemma send_to_engine_through:
  assumes wf: "wf_engine_side s" and wr: "\<forall>c. wr c"
    and pr: "process_input_from_client wr (engine_workers s) p fc a i = (Inl e, ws', p', es)"
  shows False
proof -
  let ?ts = "targets_of (engine_workers s) (in_target_engine_ids (input_of fc))"
  note D = wf_engine_sideD [OF wf]
  have cx: "\<forall>c w. dict_get (engine_workers s) c = Some w \<longrightarrow> ew_context w = c"
    using D(1) unfolding wf_workers_def wf_worker_def by blast
  show False
    using pr dispatch_through [OF D(2) distinct_targets [OF D(2)] _ cx, of _ wr "pi_producer_id p"] wr
    by (auto simp: process_input_from_client_def Let_def split: if_splits prod.splits)
qed

text \<open>
  C14. What an input is answered.  As long as the engines can be written to, an input that targets no
  connected engine is refused with \<open>NO_ENGINE_FOR_INPUT\<close>, an input is accepted when one of its targets
  is idle or there is room in its producer's queue, and it is dropped with \<open>SERVER_DROPPED_FRAME\<close>
  exactly when all its targets are busy and the queue is full.
\<close>

theorem send_to_engine_replies:
  assumes "wf_engine_side s" and "\<forall>c. wr c"
  shows "fst (send_to_engine wr s fc a i) =
    (let ids = in_target_engine_ids (input_of fc);
         pid = in_producer_id (input_of fc);
         p = producer_for s pid
     in if targets_of (engine_workers s) ids = []
        then Inr (NO_ENGINE_FOR_INPUT, MsgNoTargetEngines ids (worker_ids (engine_workers s)))
        else if idle_target (engine_workers s) fc \<or> length (input_queue p) \<noteq> size_for_queues s
        then Inr (SUCCESS, empty_message)
        else Inr (SERVER_DROPPED_FRAME, MsgProducerQueueFull pid))"
proof -
  let ?pid = "in_producer_id (input_of fc)"
  obtain r s' es where eq: "send_to_engine wr s fc a i = (r, s', es)" by (metis prod_cases3)
  from eq refl obtain ws' p' where
    pr: "process_input_from_client wr (engine_workers s) (producer_for s ?pid) fc a i = (r, ws', p', es)"
    by (rule send_to_engine_unfold)
  note P = wf_producer_for [OF assms(1), of ?pid]
  from wf_engine_sideD(2) [OF assms(1)] pr refl refl refl show ?thesis
  proof (cases rule: process_input_cases)
    case (raised e)
    then show ?thesis using send_to_engine_through [OF assms] pr by blast
  qed (use eq P in \<open>auto simp: Let_def producer_queue_full_def worker_ids_def\<close>)
qed

definition sample_side :: engine_side where
  "sample_side = \<lparr>engine_workers = sample_workers, engine_ids = [''e1'', ''e2''],
     producer_infos = Map.empty, size_for_queues = 3\<rparr>"

lemma sample_side_wf: "wf_engine_side sample_side"
  by (auto simp: wf_engine_side_def sample_side_def sample_workers_def wf_workers_def wf_worker_def
      wf_producers_def worker_ids_def new_engine_worker_def split: if_splits)

theorem send_to_engine_replies_witness:
  "fst (send_to_engine (\<lambda>_. True) sample_side FromClientUnset ''c'' default_any) =
     Inr (NO_ENGINE_FOR_INPUT, MsgNoTargetEngines [] [''e1'', ''e2''])"
  using send_to_engine_replies [OF sample_side_wf, of "\<lambda>_. True" FromClientUnset "''c''" default_any]
  by (simp add: sample_side_def sample_workers_def targets_of_def default_input_msg_def worker_ids_def
      new_engine_worker_def)

end
