(* ===== verification/Result_Manager.thy ===== *)
theory Result_Manager
  imports Protocol
begin

text \<open>
  \<open>result_manager.py\<close>: the result sinks of a server.  A sink is named by a number; whether its
  \<open>process_result\<close> (or \<open>cleanup\<close>) raises is an argument, since a sink talks to a ZeroMQ socket.
\<close>

section \<open>Operations\<close>

definition register_result_sink :: "nat \<Rightarrow> nat list \<Rightarrow> nat list" where
  "register_result_sink k sinks = (if k \<in> set sinks then sinks else sinks @ [k])"

definition unregister_result_sink :: "nat \<Rightarrow> nat list \<Rightarrow> nat list" where
  "unregister_result_sink k sinks = removeAll k sinks"

text \<open>Only successful results are passed on; an exception of one sink does not stop the others.\<close>

definition process_result :: "(nat \<Rightarrow> bool) \<Rightarrow> nat list \<Rightarrow> result \<Rightarrow> effect list" where
  "process_result sink_ok sinks r =
     (if code (res_status r) \<noteq> SUCCESS then []
      else map (\<lambda>k. SendSink k r) (filter sink_ok sinks))"

text \<open>\<open>cleanup\<close> is not guarded: it stops at the first sink that raises.\<close>

fun cleanup_sinks :: "(nat \<Rightarrow> bool) \<Rightarrow> nat list \<Rightarrow> py_exn option \<times> nat list" where
  "cleanup_sinks sink_ok [] = (None, [])"
| "cleanup_sinks sink_ok (k # ks) =
     (if sink_ok k then (let (e, done) = cleanup_sinks sink_ok ks in (e, k # done))
      else (Some GenericException, []))"

section \<open>The ZeroMQ sink\<close>

text \<open>
  \<open>ZeroMQSink\<close>: the address it binds, and the multipart message it publishes for a result: the engine
  identifier, by which subscribers filter, and the encoded result.
\<close>

definition zeromq_sink_endpoint :: "endpoint \<Rightarrow> string" where
  "zeromq_sink_endpoint port_or_path =
     (case port_or_path of Port n \<Rightarrow> ''tcp://*:'' @ str_int n | Path p \<Rightarrow> ''ipc://'' @ p)"

definition zeromq_sink_message :: "(result \<Rightarrow> bytes) \<Rightarrow> result \<Rightarrow> bytes list" where
  "zeromq_sink_message serialize r = [res_target_engine_id r, serialize r]"

section \<open>Properties\<close>

lemma register_distinct: "distinct sinks \<Longrightarrow> distinct (register_result_sink k sinks)"
  by (simp add: register_result_sink_def)

lemma register_set [simp]: "set (register_result_sink k sinks) = insert k (set sinks)"
  by (auto simp: register_result_sink_def)

lemma unregister_set [simp]: "set (unregister_result_sink k sinks) = set sinks - {k}"
  by (auto simp: unregister_result_sink_def)

lemma unregister_register:
  "k \<notin> set sinks \<Longrightarrow> unregister_result_sink k (register_result_sink k sinks) = sinks"
  by (simp add: unregister_result_sink_def register_result_sink_def)

text \<open>A subscriber of one engine gets the results of that engine, and can decode them.\<close>

lemma sink_message_decodes:
  assumes "parse (serialize r) = Some r"
  shows "\<exists>topic body. zeromq_sink_message serialize r = [topic, body] \<and> topic = res_target_engine_id r \<and>
    parse body = Some r"
  using assms by (simp add: zeromq_sink_message_def)

lemma process_result_no_returns [simp]: "token_returns a p (process_result ok sinks r) = 0"
proof -
  have "token_returns a p (map (\<lambda>k. SendSink k r) ks) = 0" for ks
    by (induction ks) auto
  then show ?thesis by (simp add: process_result_def)
qed

lemma process_result_delivers:
  "SendSink k x \<in> set (process_result ok sinks r) \<longleftrightarrow>
     x = r \<and> k \<in> set sinks \<and> ok k \<and> code (res_status r) = SUCCESS"
  by (auto simp: process_result_def)

end
