(* ===== verification/Server_Runner.thy ===== *)
theory Server_Runner
  imports Engine_Side Result_Manager
begin

text \<open>
  The server of \<open>server_runner.py\<close>: \<open>_Server\<close> joined with the \<open>GabrielServer\<close> it owns.  Engine
  registration, engine results and engine disconnection are handlers on the joint state; together
  with the client events they form a labelled step relation.
\<close>

section \<open>State\<close>

text \<open>
  \<open>_Server._engine_ids\<close> and \<open>GabrielServer._engine_ids\<close> are one and the same set object, so there is
  one field for it, in \<open>engine_side\<close>.
\<close>

record server =
  srv_engine_side :: engine_side
  srv_num_tokens :: int
  srv_clients :: clients
  srv_sinks :: "nat list"

text \<open>
  What the outside decides at each event: which writes go through.  A response on a client's own
  connection is written, dropped because the connection is already gone, or fails with an exception.
\<close>

datatype response_write = Written | Dropped | Failed

record world =
  engine_write :: engine_write
  send_via_transport :: transport
  sink_ok :: "nat \<Rightarrow> bool"
  client_write :: "address \<Rightarrow> response_write"

type_synonym handled = "py_exn option \<times> server \<times> effect list"

definition init_server :: "int \<Rightarrow> nat \<Rightarrow> server" where
  "init_server num_tokens maxlen =
     \<lparr>srv_engine_side = \<lparr>engine_workers = [], engine_ids = [], producer_infos = Map.empty,
        size_for_queues = maxlen\<rparr>,
      srv_num_tokens = num_tokens, srv_clients = [], srv_sinks = []\<rparr>"

section \<open>Engine results\<close>

text \<open>\<open>await engine_worker.send_next_input()\<close> on the server's tables.\<close>

definition engine_next :: "world \<Rightarrow> server \<Rightarrow> ctx \<Rightarrow> engine_worker \<Rightarrow> handled" where
  "engine_next W s c w =
     (let eng = srv_engine_side s;
          (e, w', ps', es) = send_next_input (engine_write W) w (producer_infos eng)
      in (e, s\<lparr>srv_engine_side := eng\<lparr>engine_workers := dict_set c w' (engine_workers eng),
                 producer_infos := ps'\<rparr>\<rparr>, es))"

text \<open>
  \<open>producer_info.pending_token_return and latest_input.metadata == engine_worker_metadata\<close>; the
  attribute access fails when there is no in-flight input.
\<close>

definition is_first_result :: "producer_info \<Rightarrow> metadata \<Rightarrow> py_exn + bool" where
  "is_first_result p md =
     (if pending p
      then case latest_input_sent_to_engine p of
             None \<Rightarrow> Inl AttributeError
           | Some mp \<Rightarrow> Inr (mp_metadata mp = md)
      else Inr False)"

definition clear_pending :: "producer_id \<Rightarrow> producer_info \<Rightarrow> server \<Rightarrow> server" where
  "clear_pending pid p s =
     s\<lparr>srv_engine_side := (srv_engine_side s)\<lparr>producer_infos :=
         (producer_infos (srv_engine_side s))(pid \<mapsto> p\<lparr>pending_token_return := Some False\<rparr>)\<rparr>\<rparr>"

text \<open>The result of an engine for its current input, once the producer is known.\<close>

definition finish_input ::
  "world \<Rightarrow> server \<Rightarrow> ctx \<Rightarrow> engine_worker \<Rightarrow> metadata \<Rightarrow> producer_info \<Rightarrow> result \<Rightarrow> handled" where
  "finish_input W s c w md p r =
     (case is_first_result p md of
        Inl e \<Rightarrow> (Some e, s, [])
      | Inr True \<Rightarrow>
          (let s1 = clear_pending (md_producer_id md) p s;
               (_, cs, es1) = send_result (send_via_transport W) (srv_clients s1)
                  (md_client_address md) (pi_producer_id p) (ew_engine_id w) r True;
               (e, s2, es2) = engine_next W (s1\<lparr>srv_clients := cs\<rparr>) c w
           in (e, s2, es1 @ es2))
      | Inr False \<Rightarrow>
          (let (cs, es1) =
                 (if ew_all_responses_required w
                  then let (_, cs, es) = send_result (send_via_transport W) (srv_clients s)
                             (md_client_address md) (pi_producer_id p) (ew_engine_id w) r False
                       in (cs, es)
                  else (srv_clients s, []));
               (e, s2, es2) = engine_next W (s\<lparr>srv_clients := cs\<rparr>) c w
           in (e, s2, es1 @ es2)))"

text \<open>\<open>_handle_from_engine\<close>.\<close>

definition is_register :: "from_engine \<Rightarrow> bool" where
  "is_register m = (case m of Register _ _ \<Rightarrow> True | _ \<Rightarrow> False)"

definition handle_from_engine :: "world \<Rightarrow> server \<Rightarrow> ctx \<Rightarrow> from_engine \<Rightarrow> handled" where
  "handle_from_engine W s c from_engine =
     (case dict_get (engine_workers (srv_engine_side s)) c of
        None \<Rightarrow> (None, s, [])
      | Some w \<Rightarrow>
          (if is_register from_engine then (None, s, [])
           else case current_input_metadata w of
             None \<Rightarrow>
               (None, s, process_result (sink_ok W) (srv_sinks s) (engine_result_of from_engine))
           | Some md \<Rightarrow>
               (let r = (engine_result_of from_engine)\<lparr>res_frame_id := md_frame_id md\<rparr>;
                    to_sinks = process_result (sink_ok W) (srv_sinks s) r
                in case producer_infos (srv_engine_side s) (md_producer_id md) of
                     None \<Rightarrow> (None, s, to_sinks)
                   | Some p \<Rightarrow>
                       (let (e, s', es) = finish_input W s c w md p r
                        in (e, s', to_sinks @ es)))))"

section \<open>Engine registration and removal\<close>

text \<open>
  \<open>_remove_engine_worker\<close>, first part: an engine that disconnects in the middle of the in-flight
  input gives its token back (or, if it must answer every input, at least an error result).
\<close>

definition disconnect_result :: "engine_id \<Rightarrow> metadata \<Rightarrow> result" where
  "disconnect_result engine_id md =
     default_result\<lparr>res_status := \<lparr>code = ENGINE_ERROR,
         message_text = MsgEngineDisconnected engine_id\<rparr>,
       res_target_engine_id := engine_id, res_frame_id := md_frame_id md\<rparr>"

definition release_current_input :: "world \<Rightarrow> server \<Rightarrow> engine_worker \<Rightarrow> handled" where
  "release_current_input W s w =
     (case current_input_metadata w of
        None \<Rightarrow> (None, s, [])
      | Some md \<Rightarrow>
          (case producer_infos (srv_engine_side s) (md_producer_id md) of
             None \<Rightarrow> (None, s, [])
           | Some p \<Rightarrow>
               (case latest_input_sent_to_engine p of
                  None \<Rightarrow> (None, s, [])
                | Some mp \<Rightarrow>
                    (if md = mp_metadata mp \<and> (pending p \<or> ew_all_responses_required w)
                     then let s1 = clear_pending (md_producer_id md) p s
                          in (case pending_token_return p of
                                None \<Rightarrow> (Some TypeError, s1, [])
                              | Some return_token \<Rightarrow>
                                  (let (_, cs, es) = send_result (send_via_transport W)
                                         (srv_clients s1) (md_client_address md)
                                         (pi_producer_id p) (ew_engine_id w)
                                         (disconnect_result (ew_engine_id w) md) return_token
                                   in (None, s1\<lparr>srv_clients := cs\<rparr>, es)))
                     else (None, s, [])))))"

definition remove_engine_worker :: "world \<Rightarrow> server \<Rightarrow> ctx \<Rightarrow> handled" where
  "remove_engine_worker W s c =
     (case dict_get (engine_workers (srv_engine_side s)) c of
        None \<Rightarrow> (Some KeyError, s, [])
      | Some w \<Rightarrow>
          (let (e, s1, es1) = release_current_input W s w;
               eng = srv_engine_side s1
           in case e of
                Some x \<Rightarrow> (Some x, s1, es1)
              | None \<Rightarrow>
                  (if ew_engine_id w \<notin> set (engine_ids eng) then (Some KeyError, s1, es1)
                   else let eng' = eng\<lparr>engine_ids := removeAll (ew_engine_id w) (engine_ids eng),
                                       engine_workers := dict_del c (engine_workers eng)\<rparr>
                        in (None, s1\<lparr>srv_engine_side := eng'\<rparr>,
                            es1 @ engines_updated_cb (send_via_transport W) (srv_clients s1)
                                    (engine_ids eng')))))"

text \<open>\<open>_add_engine_worker\<close>: an engine that is already connected under this id is removed first.\<close>

definition insert_engine_worker :: "world \<Rightarrow> server \<Rightarrow> ctx \<Rightarrow> engine_id \<Rightarrow> bool \<Rightarrow> handled" where
  "insert_engine_worker W s c engine_id all_responses_required =
     (let eng = srv_engine_side s;
          w = new_engine_worker c engine_id all_responses_required (size_for_queues eng);
          eng' = eng\<lparr>engine_workers := dict_set c w (engine_workers eng),
                     engine_ids := (if engine_id \<in> set (engine_ids eng) then engine_ids eng
                                    else engine_ids eng @ [engine_id])\<rparr>
      in (None, s\<lparr>srv_engine_side := eng'\<rparr>,
          engines_updated_cb (send_via_transport W) (srv_clients s) (engine_ids eng')))"

definition add_engine_worker :: "world \<Rightarrow> server \<Rightarrow> ctx \<Rightarrow> engine_id \<Rightarrow> bool \<Rightarrow> handled" where
  "add_engine_worker W s c engine_id all_responses_required =
     (let eng = srv_engine_side s;
          (e, s1, es1) =
            (if engine_id \<in> set (engine_ids eng)
             then case find (\<lambda>(k, w). ew_engine_id w = engine_id) (engine_workers eng) of
                    None \<Rightarrow> (None, s, [])
                  | Some (k, _) \<Rightarrow> remove_engine_worker W s k
             else (None, s, []))
      in case e of
           Some x \<Rightarrow> (Some x, s1, es1)
         | None \<Rightarrow>
             (let (e2, s2, es2) = insert_engine_worker W s1 c engine_id all_responses_required
              in (e2, s2, es1 @ es2)))"

section \<open>Engine sessions\<close>

text \<open>
  \<open>EngineSession\<close> in its three phases: the first message (or the end of the stream before it), each
  later message, and the \<open>finally\<close> block.  A handler that raises ends the session.
\<close>

definition engine_session_start :: "world \<Rightarrow> server \<Rightarrow> ctx \<Rightarrow> from_engine option \<Rightarrow> handled" where
  "engine_session_start W s c first =
     (case first of
        Some (Register engine_id all_responses_required) \<Rightarrow>
          add_engine_worker W s c engine_id all_responses_required
      | _ \<Rightarrow> (None, s, []))"

definition engine_session_end :: "world \<Rightarrow> server \<Rightarrow> ctx \<Rightarrow> handled" where
  "engine_session_end W s c =
     (if c \<in> fst ` set (engine_workers (srv_engine_side s)) then remove_engine_worker W s c
      else (None, s, []))"

definition engine_session_message :: "world \<Rightarrow> server \<Rightarrow> ctx \<Rightarrow> from_engine \<Rightarrow> handled" where
  "engine_session_message W s c m =
     (let (e, s1, es1) = handle_from_engine W s c m
      in case e of
           None \<Rightarrow> (None, s1, es1)
         | Some x \<Rightarrow>
             (let (e2, s2, es2) = engine_session_end W s1 c
              in (Some (case e2 of None \<Rightarrow> x | Some y \<Rightarrow> y), s2, es1 @ es2)))"

section \<open>Client events\<close>

definition client_connect :: "server \<Rightarrow> address \<Rightarrow> server" where
  "client_connect s a = s\<lparr>srv_clients := dict_set a new_client (srv_clients s)\<rparr>"

definition client_disconnect :: "server \<Rightarrow> address \<Rightarrow> server" where
  "client_disconnect s a = s\<lparr>srv_clients := dict_del a (srv_clients s)\<rparr>"

text \<open>
  The queue of received messages that a client has on the transports that separate receiving from
  consuming (\<open>client.inputs\<close>).
\<close>

definition enqueue_input :: "server \<Rightarrow> address \<Rightarrow> bytes \<Rightarrow> server" where
  "enqueue_input s a raw =
     (case dict_get (srv_clients s) a of
        None \<Rightarrow> s
      | Some c \<Rightarrow>
          s\<lparr>srv_clients := dict_set a (c\<lparr>client_inputs := client_inputs c @ [raw]\<rparr>) (srv_clients s)\<rparr>)"

definition dequeue_input :: "server \<Rightarrow> address \<Rightarrow> server" where
  "dequeue_input s a =
     (case dict_get (srv_clients s) a of
        None \<Rightarrow> s
      | Some c \<Rightarrow>
          s\<lparr>srv_clients := dict_set a (c\<lparr>client_inputs := tl (client_inputs c)\<rparr>) (srv_clients s)\<rparr>)"

text \<open>
  One message of a connected client: \<open>handle_message\<close> with \<open>_send_to_engine\<close> as the engine callback,
  and the response written on the client's own connection.
\<close>

definition client_message :: "world \<Rightarrow> server \<Rightarrow> address \<Rightarrow> from_client \<Rightarrow> handled" where
  "client_message W s a from_client =
     (case dict_get (srv_clients s) a of
        None \<Rightarrow> (None, s, [])
      | Some c \<Rightarrow>
          (let eng = srv_engine_side s;
               (out, c', eng', es) =
                 handle_message (srv_num_tokens s) (send_to_engine (engine_write W))
                   (engine_ids eng) c a from_client eng;
               s' = s\<lparr>srv_engine_side := eng', srv_clients := dict_set a c' (srv_clients s)\<rparr>
           in case out of
                Silent \<Rightarrow> (None, s', es)
              | Respond m \<Rightarrow>
                  (case client_write W a of
                     Written \<Rightarrow> (None, s', es @ [SendClient a m])
                   | Dropped \<Rightarrow> (None, s', es)
                   | Failed \<Rightarrow> (Some RpcWriteError, s', es))
              | Raise e \<Rightarrow> (Some e, s', es)))"

section \<open>Events and reachable states\<close>

text \<open>
  Each event is one handler, run to its end.  A new client session has a fresh address, under which
  the engine side holds no input of an earlier session; a new engine stream is a new object.
\<close>

datatype event =
    ClientConnect address
  | ClientDisconnect address
  | ClientMessage address from_client
  | ClientEnqueue address bytes
  | ClientDequeue address
  | EngineStart ctx "from_engine option"
  | EngineMessage ctx from_engine
  | EngineEnd ctx
  | RegisterSink nat
  | UnregisterSink nat

definition server_event :: "world \<Rightarrow> server \<Rightarrow> event \<Rightarrow> handled" where
  "server_event W s ev =
     (case ev of
        ClientConnect a \<Rightarrow> (None, client_connect s a, [])
      | ClientDisconnect a \<Rightarrow> (None, client_disconnect s a, [])
      | ClientMessage a m \<Rightarrow> client_message W s a m
      | ClientEnqueue a raw \<Rightarrow> (None, enqueue_input s a raw, [])
      | ClientDequeue a \<Rightarrow> (None, dequeue_input s a, [])
      | EngineStart c first \<Rightarrow> engine_session_start W s c first
      | EngineMessage c m \<Rightarrow> engine_session_message W s c m
      | EngineEnd c \<Rightarrow> engine_session_end W s c
      | RegisterSink k \<Rightarrow> (None, s\<lparr>srv_sinks := register_result_sink k (srv_sinks s)\<rparr>, [])
      | UnregisterSink k \<Rightarrow> (None, s\<lparr>srv_sinks := unregister_result_sink k (srv_sinks s)\<rparr>, []))"

definition enabled :: "server \<Rightarrow> event \<Rightarrow> bool" where
  "enabled s ev =
     (case ev of
        ClientConnect a \<Rightarrow> (\<forall>pid. owed (srv_engine_side s) a pid = 0)
      | EngineStart c _ \<Rightarrow> c \<notin> fst ` set (engine_workers (srv_engine_side s))
      | _ \<Rightarrow> True)"

text \<open>
  The states of a server that starts empty with \<open>N\<close> tokens per producer and queues of length \<open>n\<close>,
  along runs in which every event satisfies \<open>ok\<close> in the state it meets.
\<close>

inductive reachable :: "(server \<Rightarrow> event \<Rightarrow> bool) \<Rightarrow> int \<Rightarrow> nat \<Rightarrow> server \<Rightarrow> bool"
  for ok N n where
  start: "reachable ok N n (init_server N n)"
| step: "reachable ok N n s \<Longrightarrow> enabled s ev \<Longrightarrow> ok s ev \<Longrightarrow> server_event W s ev = (e, s', es) \<Longrightarrow>
    reachable ok N n s'"

definition any_event :: "server \<Rightarrow> event \<Rightarrow> bool" where
  "any_event s ev \<longleftrightarrow> True"

section \<open>Workers and producers after an engine's turn\<close>

lemma worker_ids_set:
  "dict_get ws c = Some w \<Longrightarrow> ew_engine_id w2 = ew_engine_id w \<Longrightarrow>
     worker_ids (dict_set c w2 ws) = worker_ids ws"
  by (induction ws) (auto simp: worker_ids_def split: if_splits)

lemma wf_workers_set:
  assumes "wf_workers ps ws" and "dict_get ws c = Some w" and "ew_engine_id w2 = ew_engine_id w"
    and "wf_worker ps' c w2" and "dom ps \<subseteq> dom ps'"
  shows "wf_workers ps' (dict_set c w2 ws)"
  using wf_workers_mono [OF assms(1,5)] assms(2-4) worker_ids_set [OF assms(2,3)]
  by (auto simp: wf_workers_def)

text \<open>
  The engine's current input is not what any producer is waiting for: the condition under which the
  engine may turn to its next input.
\<close>

definition not_awaited :: "producer_table \<Rightarrow> engine_worker \<Rightarrow> bool" where
  "not_awaited ps w \<longleftrightarrow>
     (\<forall>pid p mp. ps pid = Some p \<longrightarrow> pending p \<longrightarrow> latest_input_sent_to_engine p = Some mp \<longrightarrow>
        current_input_metadata w \<noteq> Some (mp_metadata mp))"

lemma wf_producers_set:
  assumes "wf_producers n ws ps" and "dict_get ws c = Some w" and "not_awaited ps w"
  shows "wf_producers n (dict_set c w2 ws) ps"
  using assms working_on_set [OF assms(2)] unfolding wf_producers_def not_awaited_def by blast

lemma wf_producers_upd:
  assumes "wf_producers n ws ps" and "wf_producer_info pid p" and "pi_size_for_queues p = n"
    and "\<And>mp. pending p \<Longrightarrow> latest_input_sent_to_engine p = Some mp \<Longrightarrow> working_on ws (mp_metadata mp)"
  shows "wf_producers n ws (ps(pid \<mapsto> p))"
  using assms unfolding wf_producers_def by auto

lemma taken_size [simp]: "pi_size_for_queues (taken p) = pi_size_for_queues p"
  by (simp add: taken_def get_input_from_queue_def split: list.split)

lemma send_next_input_wf:
  assumes wf: "wf_engine_side s" and w: "dict_get (engine_workers s) c = Some w"
    and na: "not_awaited (producer_infos s) w"
    and eq: "send_next_input wr w (producer_infos s) = (e, w2, ps2, es)"
  shows "wf_engine_side (s\<lparr>engine_workers := dict_set c w2 (engine_workers s), producer_infos := ps2\<rparr>)"
    and "owed (s\<lparr>engine_workers := dict_set c w2 (engine_workers s), producer_infos := ps2\<rparr>) = owed s"
proof -
  let ?ws = "engine_workers s" and ?ps = "producer_infos s" and ?n = "size_for_queues s"
  note fr = send_next_input_frame [OF eq]
  note D = wf_engine_sideD [OF wf]
  have ww: "wf_worker ?ps c w" using D(1) w by (simp add: wf_workers_def)
  note P = wf_producers_set [OF D(3) w na]
  have "dom ?ps \<subseteq> dom ps2 \<and> wf_worker ps2 c w2 \<and> wf_producers ?n (dict_set c w2 ?ws) ps2 \<and>
    (\<forall>a pid. (case ps2 pid of None \<Rightarrow> 0 | Some p \<Rightarrow> debt p a) = owed s a pid)"
  proof (rule send_next_input_cases [of w ?ps wr])
    assume "send_next_input wr w ?ps = (None, clear_current_input_metadata w, ?ps, [])"
    with eq ww P show ?thesis by (auto simp: wf_worker_def owed_def)
  next
    fix k q p mp e' w2' es'
    assume k: "k < length (producers w)" and q: "q = rotate1 (producers w) ! k" "?ps q = Some p"
      and off: "offer w p = Some mp"
      and sp: "send_payload wr (w\<lparr>producers := rotate (Suc k) (producers w)\<rparr>) mp = (e', w2', es')"
      and "send_next_input wr w ?ps = (e', w2', ?ps(q \<mapsto> taken p), es')"
    with eq have r: "w2' = w2" "ps2 = ?ps(q \<mapsto> taken p)" by auto
    note f = send_payload_frame [OF sp, unfolded r(1)]
    note pd = wf_producersD [OF D(3) q(2)]
    have mpid: "md_producer_id (mp_metadata mp) = q"
      using off pd(1) by (auto simp: offer_def wf_producer_info_def split: if_splits option.splits)
    have "wf_worker ps2 c w2"
      using ww f fr(4,6) mpid r(2) by (auto simp: wf_worker_def)
    moreover have "wf_producers ?n (dict_set c w2 ?ws) ps2"
      unfolding r(2)
      by (rule wf_producers_upd [OF P wf_taken [OF pd(1)]])
        (use pd(2) taken_pending_latest [OF off] f(5) in \<open>auto simp: working_on_def\<close>)
    ultimately show ?thesis using q(2) r(2) by (auto simp: owed_def)
  qed
  then show "wf_engine_side (s\<lparr>engine_workers := dict_set c w2 ?ws, producer_infos := ps2\<rparr>)"
    "owed (s\<lparr>engine_workers := dict_set c w2 ?ws, producer_infos := ps2\<rparr>) = owed s"
    using D wf_workers_set [OF D(1) w fr(2)] worker_ids_set [OF w fr(2)]
    by (auto simp: wf_engine_side_def owed_def fun_eq_iff)
qed

section \<open>The invariant of the server\<close>

text \<open>The books of every connected client; \<open>R\<close> is a relation that its accounts keep.\<close>

type_synonym accounts_rel = "address \<Rightarrow> account_rel"

definition clients_ok ::
  "accounts_rel \<Rightarrow> int \<Rightarrow> clients \<Rightarrow> (address \<Rightarrow> producer_id \<Rightarrow> nat) \<Rightarrow> bool" where
  "clients_ok R N cs ow \<longleftrightarrow>
     dict_wf cs \<and>
     (\<forall>a c. dict_get cs a = Some c \<longrightarrow>
        books_sound N c (ow a) \<and> books_keep (R a) N c (ow a))"

definition server_inv :: "accounts_rel \<Rightarrow> int \<Rightarrow> nat \<Rightarrow> server \<Rightarrow> bool" where
  "server_inv x N n s \<longleftrightarrow>
     (\<forall>a. charge_closed (x a) \<and> give_back_closed (x a)) \<and>
     wf_engine_side (srv_engine_side s) \<and> srv_num_tokens s = N \<and>
     size_for_queues (srv_engine_side s) = n \<and>
     clients_ok x N (srv_clients s) (owed (srv_engine_side s))"

lemma server_invD:
  assumes "server_inv x N n s"
  shows "wf_engine_side (srv_engine_side s)" and "srv_num_tokens s = N"
    and "size_for_queues (srv_engine_side s) = n"
    and "clients_ok x N (srv_clients s) (owed (srv_engine_side s))"
    and "charge_closed (x a)" and "give_back_closed (x a)"
  using assms by (simp_all add: server_inv_def)

lemma send_result_ok:
  assumes ok: "clients_ok x N cs ow" and sr: "send_result tx cs a pid eid r rt = (b, cs', es)"
    and g: "give_back_closed (x a)"
    and eq: "\<And>a' p. ow' a' p + (if a' = a \<and> p = pid \<and> rt then 1 else 0) = ow a' p"
  shows "clients_ok x N cs' ow'"
proof (cases "dict_get cs a")
  case None
  then have "cs' = cs" using sr by (simp add: send_result_def)
  moreover have "ow' a' = ow a'" if "a' \<noteq> a" for a'
    using eq [of a'] that by (auto simp: fun_eq_iff)
  ultimately show ?thesis using ok None unfolding clients_ok_def by (metis option.distinct(1))
next
  case (Some c)
  then have cs': "cs' = dict_set a (credit_token c pid rt) cs"
    using sr by (auto simp: send_result_def Let_def split: prod.splits)
  have other: "ow' a' = ow a'" if "a' \<noteq> a" for a'
    using eq [of a'] that by (auto simp: fun_eq_iff)
  have e: "ow' a p + (if p = pid \<and> rt then 1 else 0) = ow a p" for p
    using eq [of a p] by (simp split: if_splits)
  have s: "books_sound N c (ow a)" and x: "books_keep (x a) N c (ow a)"
    using ok Some by (auto simp: clients_ok_def)
  have "books_sound N (credit_token c pid rt) (ow' a)"
    by (rule books_sound_credit [OF s]) (use e in \<open>simp add: le_eq_less_or_eq\<close>)
  moreover have "books_keep (x a) N (credit_token c pid rt) (ow' a)"
    by (rule books_keep_credit [OF s x g e])
  ultimately show ?thesis
    using ok other unfolding cs' clients_ok_def by (auto split: if_splits)
qed

text \<open>Settling the in-flight input of a producer.\<close>

lemma debt_clear:
  assumes "latest_input_sent_to_engine p = Some mp"
  shows "debt (p\<lparr>pending_token_return := Some False\<rparr>) b +
    (if b = md_client_address (mp_metadata mp) \<and> pending p then 1 else 0) = debt p b"
  using assms by (auto simp: debt_def in_flight_debt_def pending_def from_address_def)

lemma clear_pending_wf:
  assumes wf: "wf_engine_side (srv_engine_side s)"
    and p: "producer_infos (srv_engine_side s) pid = Some p" "latest_input_sent_to_engine p = Some mp"
  shows "wf_engine_side (srv_engine_side (clear_pending pid p s))"
    and "owed (srv_engine_side (clear_pending pid p s)) b q +
      (if b = md_client_address (mp_metadata mp) \<and> q = pid \<and> pending p then 1 else 0) =
      owed (srv_engine_side s) b q"
proof -
  note D = wf_engine_sideD [OF wf]
  note pd = wf_producersD [OF D(3) p(1)]
  let ?p = "p\<lparr>pending_token_return := Some False\<rparr>"
  have "wf_producer_info pid ?p" using pd(1) p(2) by (auto simp: wf_producer_info_def)
  then have "wf_producers (size_for_queues (srv_engine_side s)) (engine_workers (srv_engine_side s))
    ((producer_infos (srv_engine_side s))(pid \<mapsto> ?p))"
    by (rule wf_producers_upd [OF D(3)]) (use pd(2) in \<open>auto simp: pending_def\<close>)
  moreover have "wf_workers ((producer_infos (srv_engine_side s))(pid \<mapsto> ?p))
    (engine_workers (srv_engine_side s))"
    by (rule wf_workers_mono [OF D(1)]) auto
  ultimately show "wf_engine_side (srv_engine_side (clear_pending pid p s))"
    using D by (simp add: wf_engine_side_def clear_pending_def)
  show "owed (srv_engine_side (clear_pending pid p s)) b q +
      (if b = md_client_address (mp_metadata mp) \<and> q = pid \<and> pending p then 1 else 0) =
      owed (srv_engine_side s) b q"
    using debt_clear [OF p(2), of b] p(1) by (auto simp: owed_def clear_pending_def)
qed

lemma clear_pending_simps [simp]:
  "srv_clients (clear_pending pid p s) = srv_clients s"
  "srv_num_tokens (clear_pending pid p s) = srv_num_tokens s"
  "srv_sinks (clear_pending pid p s) = srv_sinks s"
  "engine_workers (srv_engine_side (clear_pending pid p s)) = engine_workers (srv_engine_side s)"
  "engine_ids (srv_engine_side (clear_pending pid p s)) = engine_ids (srv_engine_side s)"
  "size_for_queues (srv_engine_side (clear_pending pid p s)) = size_for_queues (srv_engine_side s)"
  "producer_infos (srv_engine_side (clear_pending pid p s)) =
     (producer_infos (srv_engine_side s))(pid \<mapsto> p\<lparr>pending_token_return := Some False\<rparr>)"
  by (simp_all add: clear_pending_def)

text \<open>
  The token of the in-flight input goes back to its client, or no token moves: in both cases the
  invariant is kept.
\<close>

lemma settle_inv:
  assumes inv: "server_inv x N n s"
    and p: "producer_infos (srv_engine_side s) pid = Some p" "latest_input_sent_to_engine p = Some mp"
    and a: "a = md_client_address (mp_metadata mp)"
    and sr: "send_result tx (srv_clients s) a (pi_producer_id p) eid r (pending p) = (b, cs, es)"
  shows "server_inv x N n ((clear_pending pid p s)\<lparr>srv_clients := cs\<rparr>)"
proof -
  note I = server_invD [OF inv]
  have id: "pi_producer_id p = pid" using wf_producersD(3) [OF wf_engine_sideD(3) [OF I(1)] p(1)] .
  have "clients_ok x N cs (owed (srv_engine_side (clear_pending pid p s)))"
    by (rule send_result_ok [OF I(4) sr [unfolded id] I(6)])
      (use clear_pending_wf(2) [OF I(1) p] a in simp)
  then show ?thesis
    using clear_pending_wf(1) [OF I(1) p] I(2,3,5,6) by (simp add: server_inv_def)
qed

lemma unsettled_inv:
  assumes inv: "server_inv x N n s"
    and sr: "send_result tx (srv_clients s) a pid eid r False = (b, cs, es)"
  shows "server_inv x N n (s\<lparr>srv_clients := cs\<rparr>)"
  using inv send_result_ok [OF server_invD(4) [OF inv] sr server_invD(6) [OF inv], of "owed (srv_engine_side s)"]
  by (simp add: server_inv_def)

section \<open>Every event keeps the invariant\<close>

text \<open>
  The only exception that a handler lets out of a state with the invariant is a failed write on a
  stream.
\<close>

definition only_write_error :: "py_exn option \<Rightarrow> bool" where
  "only_write_error e \<longleftrightarrow> e = None \<or> e = Some RpcWriteError"

lemma only_write_error_simps [simp]:
  "only_write_error None" "only_write_error (Some e) \<longleftrightarrow> e = RpcWriteError"
  by (simp_all add: only_write_error_def)

lemma send_payload_error: "send_payload wr w mp = (e, w', es) \<Longrightarrow> only_write_error e"
  by (auto simp: send_payload_def Let_def split: if_splits)

lemma send_next_input_error:
  assumes "send_next_input wr w ps = (e, w2, ps2, es)"
  shows "only_write_error e"
  by (rule send_next_input_cases [of w ps wr]) (use assms send_payload_error in auto)

lemma engine_next_inv:
  assumes inv: "server_inv x N n s" and w: "dict_get (engine_workers (srv_engine_side s)) c = Some w"
    and na: "not_awaited (producer_infos (srv_engine_side s)) w"
    and eq: "engine_next W s c w = (e, s', es)"
  shows "server_inv x N n s' \<and> only_write_error e"
proof -
  let ?eng = "srv_engine_side s"
  obtain e1 w2 ps2 es1 where
    sn: "send_next_input (engine_write W) w (producer_infos ?eng) = (e1, w2, ps2, es1)"
    by (metis prod_cases4)
  with eq have r: "e = e1" "s' = s\<lparr>srv_engine_side :=
      ?eng\<lparr>engine_workers := dict_set c w2 (engine_workers ?eng), producer_infos := ps2\<rparr>\<rparr>"
    by (auto simp: engine_next_def Let_def)
  note I = server_invD [OF inv]
  note S = send_next_input_wf [OF I(1) w na sn]
  show ?thesis
    using I S send_next_input_error [OF sn] by (simp add: r server_inv_def)
qed

lemma not_awaited_other:
  assumes wf: "wf_engine_side eng" and w: "current_input_metadata w = Some md"
    and p: "producer_infos eng (md_producer_id md) = Some p"
    and ne: "pending p \<Longrightarrow> latest_input_sent_to_engine p \<noteq> None \<Longrightarrow>
      mp_metadata (the (latest_input_sent_to_engine p)) \<noteq> md"
  shows "not_awaited (producer_infos eng) w"
  unfolding not_awaited_def
proof (intro allI impI)
  fix pid p' mp
  assume *: "producer_infos eng pid = Some p'" "pending p'" "latest_input_sent_to_engine p' = Some mp"
  have "md_producer_id (mp_metadata mp) = pid"
    using wf_producersD(1) [OF wf_engine_sideD(3) [OF wf] *(1)] *(3) by (simp add: wf_producer_info_def)
  then show "current_input_metadata w \<noteq> Some (mp_metadata mp)"
    using w p ne * by auto
qed

lemma not_awaited_clear:
  assumes wf: "wf_engine_side (srv_engine_side s)" and w: "current_input_metadata w = Some md"
  shows "not_awaited (producer_infos (srv_engine_side (clear_pending (md_producer_id md) p s))) w"
  unfolding not_awaited_def
proof (intro allI impI)
  fix pid p' mp
  assume *: "producer_infos (srv_engine_side (clear_pending (md_producer_id md) p s)) pid = Some p'"
    "pending p'" "latest_input_sent_to_engine p' = Some mp"
  then have ne: "pid \<noteq> md_producer_id md" by (auto simp: pending_def)
  with * have "producer_infos (srv_engine_side s) pid = Some p'" by simp
  then have "md_producer_id (mp_metadata mp) = pid"
    using wf_producersD(1) [OF wf_engine_sideD(3) [OF wf]] *(3) by (simp add: wf_producer_info_def)
  then show "current_input_metadata w \<noteq> Some (mp_metadata mp)" using w ne by auto
qed

lemma is_first_result_cases:
  assumes "wf_producer_info pid p"
  obtains (first) mp where "is_first_result p md = Inr True" "pending p"
      "latest_input_sent_to_engine p = Some mp" "mp_metadata mp = md"
  | (later) "is_first_result p md = Inr False"
      "pending p \<Longrightarrow> latest_input_sent_to_engine p \<noteq> None \<Longrightarrow>
        mp_metadata (the (latest_input_sent_to_engine p)) \<noteq> md"
proof (cases "pending p")
  case True
  then obtain mp where "latest_input_sent_to_engine p = Some mp"
    using wf_pending_latest [OF assms] by blast
  with True first later show thesis by (cases "mp_metadata mp = md") (auto simp: is_first_result_def)
next
  case False
  with later show thesis by (simp add: is_first_result_def)
qed

lemma finish_input_inv:
  assumes inv: "server_inv x N n s" and w: "dict_get (engine_workers (srv_engine_side s)) c = Some w"
    and md: "current_input_metadata w = Some md"
    and p: "producer_infos (srv_engine_side s) (md_producer_id md) = Some p"
    and eq: "finish_input W s c w md p r = (e, s', es)"
  shows "server_inv x N n s' \<and> only_write_error e"
proof -
  note I = server_invD [OF inv]
  note pd = wf_producersD [OF wf_engine_sideD(3) [OF I(1)] p]
  from pd(1) show ?thesis
  proof (cases rule: is_first_result_cases [where md = md])
    case (first mp)
    let ?s1 = "clear_pending (md_producer_id md) p s"
    obtain b cs es1 where sr: "send_result (send_via_transport W) (srv_clients s)
        (md_client_address md) (pi_producer_id p) (ew_engine_id w) r True = (b, cs, es1)"
      by (metis prod_cases3)
    obtain e2 s2 es2 where en: "engine_next W (?s1\<lparr>srv_clients := cs\<rparr>) c w = (e2, s2, es2)"
      by (metis prod_cases3)
    have i1: "server_inv x N n (?s1\<lparr>srv_clients := cs\<rparr>)"
      by (rule settle_inv [OF inv p first(3) refl]) (use sr first in simp)
    have "server_inv x N n s2 \<and> only_write_error e2"
      by (rule engine_next_inv [OF i1 _ _ en])
        (use w not_awaited_clear [OF I(1) md] in simp_all)
    moreover have "e = e2" "s' = s2"
      using eq sr en by (auto simp: finish_input_def first(1) Let_def)
    ultimately show ?thesis by simp
  next
    case later
    have na: "not_awaited (producer_infos (srv_engine_side s)) w"
      by (rule not_awaited_other [OF I(1) md p later(2)])
    obtain cs where ex: "\<exists>es2. engine_next W (s\<lparr>srv_clients := cs\<rparr>) c w = (e, s', es2)"
      and i: "server_inv x N n (s\<lparr>srv_clients := cs\<rparr>)"
    proof (cases "ew_all_responses_required w")
      case True
      obtain b cs es1 where sr: "send_result (send_via_transport W) (srv_clients s)
          (md_client_address md) (pi_producer_id p) (ew_engine_id w) r False = (b, cs, es1)"
        by (metis prod_cases3)
      show thesis
        by (rule that [of cs, OF _ unsettled_inv [OF inv sr]])
          (use eq later(1) True sr in \<open>auto simp: finish_input_def Let_def split: prod.splits\<close>)
    next
      case False
      show thesis
        by (rule that [of "srv_clients s"])
          (use eq later(1) False inv in \<open>auto simp: finish_input_def Let_def split: prod.splits\<close>)
    qed
    from ex obtain es2 where en: "engine_next W (s\<lparr>srv_clients := cs\<rparr>) c w = (e, s', es2)" ..
    show ?thesis by (rule engine_next_inv [OF i _ _ en]) (use w na in simp_all)
  qed
qed

lemma handle_from_engine_inv:
  assumes inv: "server_inv x N n s" and eq: "handle_from_engine W s c m = (e, s', es)"
  shows "server_inv x N n s' \<and> only_write_error e"
proof (cases "s' = s \<and> e = None")
  case True
  with inv show ?thesis by simp
next
  case False
  with eq obtain w md p es1 where "dict_get (engine_workers (srv_engine_side s)) c = Some w"
    "current_input_metadata w = Some md"
    "producer_infos (srv_engine_side s) (md_producer_id md) = Some p"
    "finish_input W s c w md p ((engine_result_of m)\<lparr>res_frame_id := md_frame_id md\<rparr>) = (e, s', es1)"
    by (auto simp: handle_from_engine_def Let_def split: option.splits if_splits prod.splits)
  then show ?thesis by (rule finish_input_inv [OF inv])
qed

text \<open>
  The release either has nothing to do, and then nobody waits for the worker's current input, or it
  settles the in-flight input that the worker holds.
\<close>

lemma release_current_input_held:
  assumes "current_input_metadata w = Some md"
    and "producer_infos (srv_engine_side s) (md_producer_id md) = Some p"
    and "latest_input_sent_to_engine p = Some mp" and "mp_metadata mp = md"
    and "pending p \<or> ew_all_responses_required w" and "pending_token_return p = Some rt"
    and "send_result (send_via_transport W) (srv_clients s) (md_client_address md)
      (pi_producer_id p) (ew_engine_id w) (disconnect_result (ew_engine_id w) md) rt = (b, cs, es)"
  shows "release_current_input W s w =
    (None, (clear_pending (md_producer_id md) p s)\<lparr>srv_clients := cs\<rparr>, es)"
  using assms by (simp add: release_current_input_def Let_def)

lemma not_awaited_unknown:
  assumes wf: "wf_engine_side eng" and "current_input_metadata w = Some md"
    and "producer_infos eng (md_producer_id md) = None"
  shows "not_awaited (producer_infos eng) w"
  unfolding not_awaited_def
proof (intro allI impI)
  fix pid p mp
  assume *: "producer_infos eng pid = Some p" "latest_input_sent_to_engine p = Some mp"
  then have "md_producer_id (mp_metadata mp) = pid"
    using wf_producersD(1) [OF wf_engine_sideD(3) [OF wf] *(1)] by (simp add: wf_producer_info_def)
  then show "current_input_metadata w \<noteq> Some (mp_metadata mp)" using assms(2,3) * by auto
qed

lemma release_current_input_cases:
  assumes wf: "wf_engine_side (srv_engine_side s)"
  obtains (skip) "release_current_input W s w = (None, s, [])"
      "not_awaited (producer_infos (srv_engine_side s)) w"
  | (settle) md p mp b cs es where "current_input_metadata w = Some md"
      "producer_infos (srv_engine_side s) (md_producer_id md) = Some p"
      "latest_input_sent_to_engine p = Some mp" "mp_metadata mp = md"
      "send_result (send_via_transport W) (srv_clients s) (md_client_address md)
        (pi_producer_id p) (ew_engine_id w) (disconnect_result (ew_engine_id w) md) (pending p) =
        (b, cs, es)"
      "release_current_input W s w =
        (None, (clear_pending (md_producer_id md) p s)\<lparr>srv_clients := cs\<rparr>, es)"
proof (cases "current_input_metadata w")
  case None
  then show thesis by (intro skip) (auto simp: release_current_input_def not_awaited_def)
next
  case md: (Some md)
  show thesis
  proof (cases "producer_infos (srv_engine_side s) (md_producer_id md)")
    case None
    then show thesis
      by (intro skip not_awaited_unknown [OF wf md]) (simp_all add: release_current_input_def md)
  next
    case p: (Some p)
    show thesis
    proof (cases "\<exists>mp. latest_input_sent_to_engine p = Some mp \<and> mp_metadata mp = md \<and>
        (pending p \<or> ew_all_responses_required w)")
      case False
      then show thesis
        by (intro skip not_awaited_other [OF wf md p])
          (auto simp: release_current_input_def md p split: option.split)
    next
      case True
      then obtain mp where l: "latest_input_sent_to_engine p = Some mp" "mp_metadata mp = md"
        "pending p \<or> ew_all_responses_required w" by blast
      have pt: "pending_token_return p = Some (pending p)"
        using wf_producersD(1) [OF wf_engine_sideD(3) [OF wf] p] l(1)
        by (auto simp: wf_producer_info_def pending_def)
      obtain b cs es where sr: "send_result (send_via_transport W) (srv_clients s)
          (md_client_address md) (pi_producer_id p) (ew_engine_id w)
          (disconnect_result (ew_engine_id w) md) (pending p) = (b, cs, es)"
        by (metis prod_cases3)
      show thesis
        by (rule settle [OF md p l(1,2) sr release_current_input_held [OF md p l pt sr]])
    qed
  qed
qed

lemma release_current_input_inv:
  assumes inv: "server_inv x N n s" and eq: "release_current_input W s w = (e, s', es)"
  shows "server_inv x N n s' \<and> e = None \<and> not_awaited (producer_infos (srv_engine_side s')) w \<and>
    engine_workers (srv_engine_side s') = engine_workers (srv_engine_side s) \<and>
    engine_ids (srv_engine_side s') = engine_ids (srv_engine_side s)"
proof (rule release_current_input_cases [OF server_invD(1) [OF inv], of W w])
  assume "release_current_input W s w = (None, s, [])"
    "not_awaited (producer_infos (srv_engine_side s)) w"
  with inv eq show ?thesis by simp
next
  fix md p mp b cs es1
  assume md: "current_input_metadata w = Some md"
    and p: "producer_infos (srv_engine_side s) (md_producer_id md) = Some p"
    and l: "latest_input_sent_to_engine p = Some mp" "mp_metadata mp = md"
    and sr: "send_result (send_via_transport W) (srv_clients s) (md_client_address md)
        (pi_producer_id p) (ew_engine_id w) (disconnect_result (ew_engine_id w) md) (pending p) =
        (b, cs, es1)"
    and r: "release_current_input W s w =
        (None, (clear_pending (md_producer_id md) p s)\<lparr>srv_clients := cs\<rparr>, es1)"
  have "server_inv x N n ((clear_pending (md_producer_id md) p s)\<lparr>srv_clients := cs\<rparr>)"
    by (rule settle_inv [OF inv p l(1) _ sr]) (simp add: l(2))
  then show ?thesis
    using eq r not_awaited_clear [OF server_invD(1) [OF inv] md] by auto
qed

text \<open>Taking an engine that nobody waits for out of the tables.\<close>

lemma worker_ids_del:
  "dict_wf ws \<Longrightarrow> dict_get ws c = Some w \<Longrightarrow> distinct (worker_ids ws) \<Longrightarrow>
     set (worker_ids (dict_del c ws)) = set (worker_ids ws) - {ew_engine_id w} \<and>
     distinct (worker_ids (dict_del c ws))"
proof (induction ws)
  case Nil
  then show ?case by simp
next
  case (Cons kv ws)
  obtain k v where kv: "kv = (k, v)" by (cases kv)
  show ?case
  proof (cases "k = c")
    case True
    with Cons.prems(1) kv have "dict_del c ws = ws" by (simp add: delete_id)
    with True Cons.prems kv show ?thesis by (auto simp: worker_ids_def)
  next
    case False
    with Cons.prems kv have w: "dict_get ws c = Some w" by simp
    then have "(c, w) \<in> set ws" by (rule map_of_SomeD)
    then have "ew_engine_id w \<in> set (worker_ids ws)" by (force simp: worker_ids_def)
    with Cons.prems(3) kv have "ew_engine_id v \<noteq> ew_engine_id w" by (auto simp: worker_ids_def)
    moreover have "set (worker_ids (dict_del c ws)) = set (worker_ids ws) - {ew_engine_id w} \<and>
      distinct (worker_ids (dict_del c ws))"
      using Cons kv w by (simp add: worker_ids_def)
    ultimately show ?thesis using False Cons.prems(3) kv by (auto simp: worker_ids_def)
  qed
qed

lemma wf_remove_worker:
  assumes wf: "wf_engine_side s" and w: "dict_get (engine_workers s) c = Some w"
    and na: "not_awaited (producer_infos s) w"
  shows "wf_engine_side (s\<lparr>engine_ids := removeAll (ew_engine_id w) (engine_ids s),
    engine_workers := dict_del c (engine_workers s)\<rparr>)"
proof -
  note D = wf_engine_sideD [OF wf]
  note ids = worker_ids_del [OF D(2) w D(6)]
  have keep: "working_on (dict_del c (engine_workers s)) md"
    if "working_on (engine_workers s) md" "current_input_metadata w \<noteq> Some md" for md
    using that w unfolding working_on_def by (metis dict_get_del option.inject)
  have "wf_workers (producer_infos s) (dict_del c (engine_workers s))"
    using D(1) ids by (auto simp: wf_workers_def dict_get_del)
  moreover have "wf_producers (size_for_queues s) (dict_del c (engine_workers s)) (producer_infos s)"
    using D(3) na keep unfolding wf_producers_def not_awaited_def by blast
  ultimately show ?thesis using D(4,5) ids by (simp add: wf_engine_side_def distinct_removeAll)
qed

lemma worker_id_in_engine_ids:
  assumes "wf_engine_side s" and "dict_get (engine_workers s) c = Some w"
  shows "ew_engine_id w \<in> set (engine_ids s)"
proof -
  have "(c, w) \<in> set (engine_workers s)" using assms(2) by (rule map_of_SomeD)
  then show ?thesis using wf_engine_sideD(5) [OF assms(1)] by (force simp: worker_ids_def)
qed

lemma remove_engine_worker_inv:
  assumes inv: "server_inv x N n s" and w: "dict_get (engine_workers (srv_engine_side s)) c = Some w"
    and eq: "remove_engine_worker W s c = (e, s', es)"
  shows "server_inv x N n s' \<and> e = None \<and>
    engine_workers (srv_engine_side s') = dict_del c (engine_workers (srv_engine_side s)) \<and>
    set (engine_ids (srv_engine_side s')) = set (engine_ids (srv_engine_side s)) - {ew_engine_id w}"
proof -
  obtain e1 s1 es1 where r: "release_current_input W s w = (e1, s1, es1)" by (metis prod_cases3)
  note R = release_current_input_inv [OF inv r]
  let ?eng = "srv_engine_side s1"
  let ?eng' = "?eng\<lparr>engine_ids := removeAll (ew_engine_id w) (engine_ids ?eng),
    engine_workers := dict_del c (engine_workers ?eng)\<rparr>"
  have w1: "dict_get (engine_workers ?eng) c = Some w" using w R by simp
  note I = server_invD [OF conjunct1 [OF R]]
  have "ew_engine_id w \<in> set (engine_ids ?eng)" by (rule worker_id_in_engine_ids [OF I(1) w1])
  then have s': "e = None" "s' = s1\<lparr>srv_engine_side := ?eng'\<rparr>"
    using eq w r R by (auto simp: remove_engine_worker_def Let_def)
  have "wf_engine_side ?eng'"
    by (rule wf_remove_worker [OF I(1) w1]) (use R in simp)
  moreover have "owed ?eng' = owed ?eng" by (simp add: owed_def fun_eq_iff)
  ultimately show ?thesis using I R s' by (auto simp: server_inv_def)
qed

lemma worker_ids_new: "c \<notin> fst ` set ws \<Longrightarrow>
    worker_ids (dict_set c w ws) = worker_ids ws @ [ew_engine_id w]"
  by (induction ws) (auto simp: worker_ids_def)

lemma insert_engine_worker_inv:
  assumes inv: "server_inv x N n s" and c: "c \<notin> fst ` set (engine_workers (srv_engine_side s))"
    and eid: "eid \<notin> set (engine_ids (srv_engine_side s))"
    and eq: "insert_engine_worker W s c eid arr = (e, s', es)"
  shows "server_inv x N n s' \<and> e = None"
proof -
  let ?eng = "srv_engine_side s"
  let ?w = "new_engine_worker c eid arr (size_for_queues ?eng)"
  let ?eng' = "?eng\<lparr>engine_workers := dict_set c ?w (engine_workers ?eng),
    engine_ids := engine_ids ?eng @ [eid]\<rparr>"
  note I = server_invD [OF inv]
  note D = wf_engine_sideD [OF I(1)]
  have s': "e = None" "s' = s\<lparr>srv_engine_side := ?eng'\<rparr>"
    using eq eid by (auto simp: insert_engine_worker_def Let_def)
  have id: "ew_engine_id ?w = eid" by (simp add: new_engine_worker_def)
  have ids: "worker_ids (dict_set c ?w (engine_workers ?eng)) = worker_ids (engine_workers ?eng) @ [eid]"
    using worker_ids_new [OF c] id by simp
  have "wf_worker (producer_infos ?eng) c ?w" by (simp add: wf_worker_def new_engine_worker_def)
  then have ww: "wf_workers (producer_infos ?eng) (dict_set c ?w (engine_workers ?eng))"
    unfolding wf_workers_def ids using D(1,5) eid by (simp add: wf_workers_def)
  have keep: "working_on (dict_set c ?w (engine_workers ?eng)) md"
    if wo: "working_on (engine_workers ?eng) md" for md
  proof -
    from wo obtain k v where kv: "dict_get (engine_workers ?eng) k = Some v"
      "current_input_metadata v = Some md" by (auto simp: working_on_def)
    then have "k \<noteq> c" using dict_get_in_keys [OF kv(1)] c by blast
    with kv show ?thesis unfolding working_on_def by (metis dict_get_set)
  qed
  have "wf_producers (size_for_queues ?eng) (dict_set c ?w (engine_workers ?eng))
    (producer_infos ?eng)"
    using D(3) keep unfolding wf_producers_def by blast
  with ww have "wf_engine_side ?eng'" using D(4,5) eid ids by (simp add: wf_engine_side_def)
  moreover have "owed ?eng' = owed ?eng" by (simp add: owed_def fun_eq_iff)
  ultimately show ?thesis using I s' by (simp add: server_inv_def)
qed

text \<open>An engine id that is in use has a worker, so the search of \<open>_add_engine_worker\<close> succeeds.\<close>

lemma find_worker:
  assumes wf: "wf_engine_side s" and "eid \<in> set (engine_ids s)"
  obtains k w where "find (\<lambda>(k, w). ew_engine_id w = eid) (engine_workers s) = Some (k, w)"
    and "dict_get (engine_workers s) k = Some w" and "ew_engine_id w = eid"
proof -
  have "eid \<in> set (worker_ids (engine_workers s))" using wf_engine_sideD(5) [OF wf] assms(2) by simp
  then have "find (\<lambda>(k, w). ew_engine_id w = eid) (engine_workers s) \<noteq> None"
    by (auto simp: find_None_iff worker_ids_def)
  then obtain k w where f: "find (\<lambda>(k, w). ew_engine_id w = eid) (engine_workers s) = Some (k, w)"
    by auto
  then have m: "(k, w) \<in> set (engine_workers s)" and i: "ew_engine_id w = eid"
    by (auto simp: find_Some_iff in_set_conv_nth)
  show thesis by (rule that [OF f map_of_is_SomeI [OF wf_engine_sideD(2) [OF wf] m] i])
qed

lemma add_engine_worker_inv:
  assumes inv: "server_inv x N n s" and c: "c \<notin> fst ` set (engine_workers (srv_engine_side s))"
    and eq: "add_engine_worker W s c eid arr = (e, s', es)"
  shows "server_inv x N n s' \<and> e = None"
proof (cases "eid \<in> set (engine_ids (srv_engine_side s))")
  case False
  then obtain es2 where "insert_engine_worker W s c eid arr = (e, s', es2)"
    using eq by (auto simp: add_engine_worker_def Let_def split: prod.splits)
  then show ?thesis by (rule insert_engine_worker_inv [OF inv c False])
next
  case True
  obtain k w where f: "find (\<lambda>(k, w). ew_engine_id w = eid) (engine_workers (srv_engine_side s)) = Some (k, w)"
    and w: "dict_get (engine_workers (srv_engine_side s)) k = Some w" "ew_engine_id w = eid"
    using find_worker [OF server_invD(1) [OF inv] True] by blast
  obtain e1 s1 es1 where r: "remove_engine_worker W s k = (e1, s1, es1)" by (metis prod_cases3)
  note R = remove_engine_worker_inv [OF inv w(1) r]
  obtain es2 where i: "insert_engine_worker W s1 c eid arr = (e, s', es2)"
    using eq True f r R by (auto simp: add_engine_worker_def Let_def split: prod.splits)
  show ?thesis
    by (rule insert_engine_worker_inv [OF conjunct1 [OF R] _ _ i])
      (use R c w(2) in \<open>simp_all add: dict_keys_del\<close>)
qed

lemma engine_session_start_inv:
  assumes inv: "server_inv x N n s" and c: "c \<notin> fst ` set (engine_workers (srv_engine_side s))"
    and eq: "engine_session_start W s c m = (e, s', es)"
  shows "server_inv x N n s' \<and> e = None"
proof (cases "\<exists>eid arr. m = Some (Register eid arr)")
  case True
  then obtain eid arr where "m = Some (Register eid arr)" by blast
  with eq have "add_engine_worker W s c eid arr = (e, s', es)" by (simp add: engine_session_start_def)
  then show ?thesis by (rule add_engine_worker_inv [OF inv c])
next
  case False
  with eq inv show ?thesis
    by (auto simp: engine_session_start_def split: option.splits from_engine.splits)
qed

lemma engine_session_end_inv:
  assumes inv: "server_inv x N n s" and eq: "engine_session_end W s c = (e, s', es)"
  shows "server_inv x N n s' \<and> e = None"
proof (cases "dict_get (engine_workers (srv_engine_side s)) c")
  case None
  then have "c \<notin> fst ` set (engine_workers (srv_engine_side s))" by (simp add: map_of_eq_None_iff)
  with inv eq show ?thesis by (simp add: engine_session_end_def)
next
  case (Some w)
  then have "remove_engine_worker W s c = (e, s', es)"
    using eq dict_get_in_keys [OF Some] by (simp add: engine_session_end_def)
  from remove_engine_worker_inv [OF inv Some this] show ?thesis by simp
qed

lemma engine_session_message_inv:
  assumes inv: "server_inv x N n s" and eq: "engine_session_message W s c m = (e, s', es)"
  shows "server_inv x N n s' \<and> only_write_error e"
proof -
  obtain e1 s1 es1 where h: "handle_from_engine W s c m = (e1, s1, es1)" by (metis prod_cases3)
  obtain e2 s2 es2 where d: "engine_session_end W s1 c = (e2, s2, es2)" by (metis prod_cases3)
  note H = handle_from_engine_inv [OF inv h]
  from H d engine_session_end_inv [OF conjunct1 [OF H] d] eq h show ?thesis
    by (auto simp: engine_session_message_def split: option.splits)
qed

lemma dispatch_error: "dispatch wr pid mp cs b ws = (e, b', ws', es) \<Longrightarrow> only_write_error e"
proof (induction cs arbitrary: b ws e b' ws' es)
  case (Cons c cs)
  then show ?case
    using send_payload_error
    by (fastforce simp: Let_def split: option.splits if_splits prod.splits)
qed simp

lemma send_to_engine_error:
  assumes "send_to_engine wr s fc a i = (Inl e, s', es)"
  shows "e = RpcWriteError"
proof -
  from assms refl obtain ws' p' where
    pr: "process_input_from_client wr (engine_workers s)
      (producer_for s (in_producer_id (input_of fc))) fc a i = (Inl e, ws', p', es)"
    by (rule send_to_engine_unfold)
  then obtain b ws2 es2 mp ts pid where
    "dispatch wr pid mp ts True (engine_workers s) = (Some e, b, ws2, es2)"
    by (auto simp: process_input_from_client_def Let_def split: if_splits option.splits prod.splits)
  from dispatch_error [OF this] show ?thesis by simp
qed

lemma send_to_engine_size:
  assumes "send_to_engine wr s fc a i = (r, s', es)"
  shows "size_for_queues s' = size_for_queues s" and "engine_ids s' = engine_ids s"
  by (rule send_to_engine_unfold [OF assms refl], simp)+

lemma handle_message_size:
  assumes h: "handle_message N (send_to_engine wr) ids c a fc s = (out, c', s', es)"
  shows "size_for_queues s' = size_for_queues s \<and> (\<forall>e. out = Raise e \<longrightarrow> e = RpcWriteError)"
  using engine_flow.charged_or_not [of fc c N wr s a]
proof cases
  case (charged i r s1 es1)
  note C = engine_flow.handle_message_charged [OF charged(4,1-3) h]
  have "size_for_queues s' = size_for_queues s"
    using send_to_engine_size(1) [OF charged(4)] C(1) by simp
  moreover have "e = RpcWriteError" if o: "out = Raise e" for e
  proof (cases r)
    case (Inl e')
    then have "e' = e" using C(5) [OF Inl] o by simp
    then show ?thesis using send_to_engine_error [OF charged(4) [unfolded Inl]] by simp
  next
    case (Inr sm)
    obtain st msg where sm: "sm = (st, msg)" by (cases sm)
    show ?thesis using C(6) C(7) [OF Inr [unfolded sm]] o by (cases "st = SUCCESS") (auto simp: Inr sm)
  qed
  ultimately show ?thesis by blast
next
  case uncharged
  then show ?thesis using engine_flow.handle_message_uncharged(1,5) [OF uncharged h] by simp
qed

lemma client_message_inv:
  assumes inv: "server_inv x N n s" and l: "(\<forall>a. forfeit_closed (x a)) \<or> lossless (srv_engine_side s) fc"
    and eq: "client_message W s a fc = (e, s', es)"
  shows "server_inv x N n s' \<and> only_write_error e"
proof (cases "dict_get (srv_clients s) a")
  case None
  with inv eq show ?thesis by (simp add: client_message_def)
next
  case (Some c)
  note I = server_invD [OF inv]
  let ?eng = "srv_engine_side s"
  obtain out c' eng' es1 where h: "handle_message N (send_to_engine (engine_write W))
      (engine_ids ?eng) c a fc ?eng = (out, c', eng', es1)"
    by (metis prod_cases4)
  note S = handle_message_size [OF h]
  have r: "s' = s\<lparr>srv_engine_side := eng', srv_clients := dict_set a c' (srv_clients s)\<rparr>"
    "only_write_error e"
    using eq Some h S I(2) by (auto simp: client_message_def Let_def split: outcome.splits response_write.splits)
  have bk: "books_sound N c (owed ?eng a)" "books_keep (x a) N c (owed ?eng a)"
    using I(4) Some by (auto simp: clients_ok_def)
  have "books_sound N c' (owed eng' a)" by (rule engine_flow.handle_message_sound [OF I(1) bk(1) h])
  moreover have "books_keep (x a) N c' (owed eng' a)"
    by (rule engine_flow.handle_message_keeps [OF I(1) bk(2) I(5) _ h]) (use l in blast)
  moreover have "books_sound N d (owed eng' b) \<and> books_keep (x b) N d (owed eng' b)"
    if "dict_get (srv_clients s) b = Some d" "b \<noteq> a" for b d
  proof -
    have d: "books_sound N d (owed ?eng b)" "books_keep (x b) N d (owed ?eng b)"
      using I(4) that(1) by (auto simp: clients_ok_def)
    note o = engine_flow.handle_message_others [OF I(1) that(2) h]
    have "forfeit_closed (x b) \<or> owed eng' b = owed ?eng b" using o l by (auto simp: fun_eq_iff)
    then show ?thesis using books_sound_mono [OF d(1)] books_keep_mono [OF _ d(2)] o d(2) by metis
  qed
  ultimately have "clients_ok x N (dict_set a c' (srv_clients s)) (owed eng')"
    using I(4) by (auto simp: clients_ok_def split: if_splits)
  then show ?thesis
    using r S I(2,3,5,6) engine_flow.handle_message_inv [OF I(1) h] by (simp add: server_inv_def)
qed

lemma client_connect_inv:
  assumes inv: "server_inv x N n s" and N: "0 \<le> N" and en: "enabled s (ClientConnect a)"
    and x: "\<And>p. x a p N 0"
  shows "server_inv x N n (client_connect s a)"
  using inv en books_sound_new_client [OF N] books_keep_new_client [where R = "x a", OF _ x]
  by (auto simp: server_inv_def clients_ok_def client_connect_def enabled_def split: if_splits)

lemma client_disconnect_inv:
  "server_inv x N n s \<Longrightarrow> server_inv x N n (client_disconnect s a)"
  by (auto simp: server_inv_def clients_ok_def client_disconnect_def dict_get_del split: if_splits)

lemma client_inputs_inv:
  assumes inv: "server_inv x N n s" and c: "dict_get (srv_clients s) a = Some c"
  shows "server_inv x N n (s\<lparr>srv_clients := dict_set a (c\<lparr>client_inputs := q\<rparr>) (srv_clients s)\<rparr>)"
proof -
  have t: "tokens_of N (c\<lparr>client_inputs := q\<rparr>) p = tokens_of N c p" for p by (simp add: tokens_of_def)
  have "books_sound N c ow \<Longrightarrow> books_sound N (c\<lparr>client_inputs := q\<rparr>) ow"
    "books_keep (x a) N c ow \<Longrightarrow> books_keep (x a) N (c\<lparr>client_inputs := q\<rparr>) ow" for ow
    by (simp_all add: books_sound_def books_keep_def t)
  then show ?thesis using inv c by (auto simp: server_inv_def clients_ok_def split: if_splits)
qed

lemma enqueue_input_inv: "server_inv x N n s \<Longrightarrow> server_inv x N n (enqueue_input s a raw)"
  using client_inputs_inv [of x N n s a] by (simp add: enqueue_input_def split: option.split)

lemma dequeue_input_inv: "server_inv x N n s \<Longrightarrow> server_inv x N n (dequeue_input s a)"
  using client_inputs_inv [of x N n s a] by (simp add: dequeue_input_def split: option.split)

definition lossless_event :: "server \<Rightarrow> event \<Rightarrow> bool" where
  "lossless_event s ev =
     (case ev of ClientMessage a fc \<Rightarrow> lossless (srv_engine_side s) fc | _ \<Rightarrow> True)"

lemma server_event_inv:
  assumes inv: "server_inv x N n s" and N: "0 \<le> N" and en: "enabled s ev"
    and l: "(\<forall>a. forfeit_closed (x a)) \<or> lossless_event s ev"
    and cn: "\<And>a p. ev = ClientConnect a \<Longrightarrow> x a p N 0"
    and eq: "server_event W s ev = (e, s', es)"
  shows "server_inv x N n s' \<and> only_write_error e"
proof (cases ev)
  case (ClientConnect a)
  then show ?thesis using client_connect_inv [OF inv N] cn en eq by (auto simp: server_event_def)
next
  case (ClientDisconnect a)
  then show ?thesis using client_disconnect_inv [OF inv] eq by (auto simp: server_event_def)
next
  case (ClientMessage a fc)
  then show ?thesis
    using client_message_inv [OF inv, where a = a and fc = fc and W = W and e = e and s' = s' and es = es]
      l eq by (simp add: server_event_def lossless_event_def)
next
  case (EngineStart c m)
  then show ?thesis
    using engine_session_start_inv [OF inv, of c W m e s' es] en eq
    by (auto simp: server_event_def enabled_def)
next
  case (EngineMessage c m)
  then show ?thesis
    using engine_session_message_inv [OF inv] eq by (simp add: server_event_def)
next
  case (EngineEnd c)
  then show ?thesis using engine_session_end_inv [OF inv, of W c e s' es] eq by (auto simp: server_event_def)
next
  case (ClientEnqueue a raw)
  then show ?thesis using enqueue_input_inv [OF inv] eq by (auto simp: server_event_def)
next
  case (ClientDequeue a)
  then show ?thesis using dequeue_input_inv [OF inv] eq by (auto simp: server_event_def)
next
  case (RegisterSink k)
  then show ?thesis using inv eq by (auto simp: server_event_def server_inv_def)
next
  case (UnregisterSink k)
  then show ?thesis using inv eq by (auto simp: server_event_def server_inv_def)
qed

lemma init_server_inv:
  assumes "\<And>a. charge_closed (x a)" and "\<And>a. give_back_closed (x a)"
  shows "server_inv x N n (init_server N n)"
  using assms
  by (simp add: server_inv_def init_server_def wf_engine_side_def wf_workers_def wf_producers_def
      worker_ids_def clients_ok_def)

text \<open>Reachable states have the invariant, with exact books when no event displaces an input.\<close>

definition no_accounts :: accounts_rel where
  "no_accounts a p t k \<longleftrightarrow> True"

lemma closed_no_accounts [simp]:
  "charge_closed (no_accounts a)" "give_back_closed (no_accounts a)" "forfeit_closed (no_accounts a)"
  by (simp_all add: charge_closed_def give_back_closed_def forfeit_closed_def no_accounts_def)

lemma reachable_inv:
  assumes "reachable ok N n s" and N: "0 \<le> N"
  shows "server_inv no_accounts N n s"
  using assms(1)
proof induction
  case start
  show ?case by (rule init_server_inv) simp_all
next
  case (step s ev W e s' es)
  show ?case
    by (rule conjunct1 [OF server_event_inv [OF step.IH N step.hyps(2) _ _ step.hyps(4)]],
        simp, simp add: no_accounts_def)
qed

lemma reachable_exact:
  assumes "reachable ok N n s" and N: "0 \<le> N"
    and l: "\<And>t ev. reachable ok N n t \<Longrightarrow> ok t ev \<Longrightarrow> lossless_event t ev"
  shows "server_inv (\<lambda>_. exact_account N) N n s"
  using assms(1)
proof induction
  case start
  show ?case by (rule init_server_inv) (simp_all add: closed_exact)
next
  case (step s ev W e s' es)
  have "lossless_event s ev" using l [OF step.hyps(1,3)] .
  then show ?case
    using server_event_inv [OF step.IH N step.hyps(2) _ _ step.hyps(4)] by (simp add: exact_account_def)
qed

text \<open>With at most one engine connected no input is displaced.\<close>

definition at_most_one_engine :: "server \<Rightarrow> event \<Rightarrow> bool" where
  "at_most_one_engine s ev \<longleftrightarrow> length (engine_workers (srv_engine_side s)) \<le> 1"

lemma single_engine_lossless:
  assumes wf: "wf_engine_side s" and one: "length (engine_workers s) \<le> 1"
  shows "lossless s fc"
proof (cases "producer_infos s (in_producer_id (input_of fc))")
  case None
  then show ?thesis by (simp add: lossless_def)
next
  case (Some p)
  have "\<not> idle_target (engine_workers s) fc" if pp: "pending p"
  proof -
    note D = wf_producersD [OF wf_engine_sideD(3) [OF wf] Some]
    from wf_pending_latest [OF D(1) pp] obtain mp where "latest_input_sent_to_engine p = Some mp" ..
    then have "working_on (engine_workers s) (mp_metadata mp)" using D(4) pp by blast
    then obtain c w where cw: "dict_get (engine_workers s) c = Some w" "current_input_metadata w \<noteq> None"
      by (auto simp: working_on_def)
    with one have "engine_workers s = [(c, w)]"
      by (cases "engine_workers s") (auto split: if_splits)
    with cw show ?thesis by (auto simp: idle_target_def idle_in_def split: if_splits)
  qed
  with Some show ?thesis by (simp add: lossless_def)
qed

end
