(* ===== verification/Server_Effects.thy ===== *)
theory Server_Effects
  imports Server_Runner
begin

text \<open>
  What the handlers of the server send and what they leave alone: token returns on the wire, the
  registry of engines and its announcements, result sinks, and the facts that the transports rely on.
\<close>

section \<open>Token returns on the wire\<close>

text \<open>
  How many token returns each engine handler sends.  The transport contract says that a send either
  writes its message or nothing.
\<close>

lemma engine_next_no_returns:
  assumes "engine_next W s c w = (e, s', es)"
  shows "token_returns a p es = 0"
proof -
  obtain e1 w2 ps2 es1 where
    sn: "send_next_input (engine_write W) w (producer_infos (srv_engine_side s)) = (e1, w2, ps2, es1)"
    by (metis prod_cases4)
  with assms have "es = es1" by (auto simp: engine_next_def Let_def)
  then show ?thesis using send_next_input_frame(5) [OF sn] by simp
qed

lemma send_result_client:
  assumes "dict_get cs a = Some c" and "send_result tx cs a pid eid r rt = (ok, cs', es)"
  shows "dict_get cs' a = Some (credit_token c pid rt)"
  using assms by (auto simp: send_result_def Let_def split: prod.splits)

lemma finish_input_first:
  assumes tx: "transport (send_via_transport W)" and f: "is_first_result p md = Inr True"
    and c: "dict_get (srv_clients s) (md_client_address md) = Some cl"
    and eq: "finish_input W s c w md p r = (e, s', es)"
  shows "dict_get (srv_clients s') (md_client_address md) = Some (credit_token cl (pi_producer_id p) True)"
    and "token_returns a q es \<le> (if a = md_client_address md \<and> q = pi_producer_id p then 1 else 0)"
    and "(\<And>cs m. fst (send_via_transport W cs (md_client_address md) m)) \<Longrightarrow>
      SendClient (md_client_address md) (ResultWrapper \<lparr>rw_producer_id = pi_producer_id p,
        rw_return_token = True, rw_result = r\<rparr>) \<in> set es"
proof -
  let ?s1 = "clear_pending (md_producer_id md) p s"
  obtain b cs es1 where sr: "send_result (send_via_transport W) (srv_clients s)
      (md_client_address md) (pi_producer_id p) (ew_engine_id w) r True = (b, cs, es1)"
    by (metis prod_cases3)
  obtain e2 s2 es2 where en: "engine_next W (?s1\<lparr>srv_clients := cs\<rparr>) c w = (e2, s2, es2)"
    by (metis prod_cases3)
  have r: "e = e2" "s' = s2" "es = es1 @ es2"
    using eq sr en by (auto simp: finish_input_def f Let_def)
  have "srv_clients s2 = cs" using en by (auto simp: engine_next_def Let_def split: prod.splits)
  then show "dict_get (srv_clients s') (md_client_address md) =
      Some (credit_token cl (pi_producer_id p) True)"
    using send_result_client [OF c sr] r by simp
  show "token_returns a q es \<le> (if a = md_client_address md \<and> q = pi_producer_id p then 1 else 0)"
    using transport.send_result_token_returns [OF tx sr, of a q] engine_next_no_returns [OF en] r by simp
  assume ok: "\<And>cs m. fst (send_via_transport W cs (md_client_address md) m)"
  have b using sr c ok by (auto simp: send_result_def Let_def split: prod.splits) (metis fst_conv)
  then show "SendClient (md_client_address md) (ResultWrapper \<lparr>rw_producer_id = pi_producer_id p,
        rw_return_token = True, rw_result = r\<rparr>) \<in> set es"
    using transport.send_result_known(2) [OF tx c sr] r by simp
qed

lemma finish_input_later:
  assumes tx: "transport (send_via_transport W)" and f: "is_first_result p md = Inr False"
    and eq: "finish_input W s c w md p r = (e, s', es)"
  shows "token_returns a q es = 0"
proof -
  obtain b cs es1 where sr: "send_result (send_via_transport W) (srv_clients s)
      (md_client_address md) (pi_producer_id p) (ew_engine_id w) r False = (b, cs, es1)"
    by (metis prod_cases3)
  then have "token_returns a q es1 = 0"
    using transport.send_result_token_returns [OF tx sr, of a q] by simp
  with eq sr show ?thesis
    by (auto simp: finish_input_def f Let_def engine_next_no_returns split: prod.splits if_splits)
qed

lemma credit_nothing [simp]: "credit_token c pid False = c"
  by (simp add: credit_token_def split: option.split)

lemma send_result_nothing:
  assumes "send_result tx cs a pid eid r False = (ok, cs', es)"
  shows "dict_get cs' = dict_get cs"
  using assms by (auto simp: send_result_def Let_def fun_eq_iff split: option.splits prod.splits)

lemma finish_input_later_tokens:
  assumes f: "is_first_result p md = Inr False" and eq: "finish_input W s c w md p r = (e, s', es)"
    and cs: "dict_get (srv_clients s) a = Some cl" "dict_get (srv_clients s') a = Some cl'"
  shows "tokens_of N cl' q = tokens_of N cl q"
proof -
  obtain b cs es1 where sr: "send_result (send_via_transport W) (srv_clients s)
      (md_client_address md) (pi_producer_id p) (ew_engine_id w) r False = (b, cs, es1)"
    by (metis prod_cases3)
  have "dict_get (srv_clients s') = dict_get (srv_clients s)"
    using eq sr send_result_nothing [OF sr]
    by (auto simp: finish_input_def f engine_next_def Let_def split: prod.splits if_splits)
  with cs show ?thesis by simp
qed

lemma tokens_of_credit_owed:
  assumes "books_sound N c ow" and "0 < ow pid"
  shows "tokens_of N (credit_token c pid True) pid = tokens_of N c pid + 1"
  using assms by (auto simp: tokens_of_credit books_sound_def)

lemma owed_in_flight:
  assumes "producer_infos eng pid = Some p" and "pending p"
    and "latest_input_sent_to_engine p = Some mp" and "md_client_address (mp_metadata mp) = a"
  shows "0 < owed eng a pid"
  using assms by (simp add: owed_def debt_def in_flight_debt_def from_address_def)

text \<open>The token of an in-flight input always finds its producer in the client's table.\<close>

lemma credit_in_flight:
  assumes inv: "server_inv R N n s" and c: "dict_get (srv_clients s) (md_client_address md) = Some cl"
    and p: "producer_infos (srv_engine_side s) (md_producer_id md) = Some p" "pending p"
      "latest_input_sent_to_engine p = Some mp" "mp_metadata mp = md"
  shows "pi_producer_id p = md_producer_id md"
    and "tokens_of N (credit_token cl (md_producer_id md) True) (md_producer_id md) =
      tokens_of N cl (md_producer_id md) + 1"
proof -
  note I = server_invD [OF inv]
  show "pi_producer_id p = md_producer_id md"
    using wf_producersD(3) [OF wf_engine_sideD(3) [OF I(1)] p(1)] .
  have "books_sound N cl (owed (srv_engine_side s) (md_client_address md))"
    using I(4) c unfolding clients_ok_def by blast
  then show "tokens_of N (credit_token cl (md_producer_id md) True) (md_producer_id md) =
      tokens_of N cl (md_producer_id md) + 1"
    by (rule tokens_of_credit_owed) (rule owed_in_flight [OF p(1-3)], simp add: p(4))
qed

lemma handle_from_engine_working:
  assumes "dict_get (engine_workers (srv_engine_side s)) c = Some w" and "\<not> is_register m"
    and "current_input_metadata w = Some md"
    and "producer_infos (srv_engine_side s) (md_producer_id md) = Some p"
    and "r = (engine_result_of m)\<lparr>res_frame_id := md_frame_id md\<rparr>"
    and "handle_from_engine W s c m = (e, s', es)"
  obtains es1 where "finish_input W s c w md p r = (e, s', es1)"
    and "es = process_result (sink_ok W) (srv_sinks s) r @ es1"
  using assms by (auto simp: handle_from_engine_def Let_def split: prod.splits)

text \<open>Removing a worker that holds the awaited input.\<close>

lemma remove_engine_worker_holding:
  assumes inv: "server_inv R N n s" and tx: "transport (send_via_transport W)"
    and ok: "\<And>cs m. fst (send_via_transport W cs (md_client_address md) m)"
    and w: "dict_get (engine_workers (srv_engine_side s)) c = Some w"
      "current_input_metadata w = Some md"
    and p: "producer_infos (srv_engine_side s) (md_producer_id md) = Some p" "pending p"
      "latest_input_sent_to_engine p = Some mp" "mp_metadata mp = md"
    and c: "dict_get (srv_clients s) (md_client_address md) = Some cl"
    and eq: "remove_engine_worker W s c = (e, s', es)"
  shows "dict_get (srv_clients s') (md_client_address md) =
      Some (credit_token cl (md_producer_id md) True)"
    and "SendClient (md_client_address md) (ResultWrapper \<lparr>rw_producer_id = md_producer_id md,
        rw_return_token = True, rw_result = disconnect_result (ew_engine_id w) md\<rparr>) \<in> set es"
proof -
  obtain b cs es1 where sr: "send_result (send_via_transport W) (srv_clients s)
      (md_client_address md) (md_producer_id md) (ew_engine_id w)
      (disconnect_result (ew_engine_id w) md) True = (b, cs, es1)"
    by (metis prod_cases3)
  have id: "pi_producer_id p = md_producer_id md" by (rule credit_in_flight(1) [OF inv c p])
  have pt: "pending_token_return p = Some True" using p(2) by (simp add: pending_def)
  have r: "release_current_input W s w =
      (None, (clear_pending (md_producer_id md) p s)\<lparr>srv_clients := cs\<rparr>, es1)"
    by (rule release_current_input_held [OF w(2) p(1,3,4) _ pt]) (use p(2) sr id in simp_all)
  have "ew_engine_id w \<in> set (engine_ids (srv_engine_side s))"
    by (rule worker_id_in_engine_ids [OF server_invD(1) [OF inv] w(1)])
  then have s': "srv_clients s' = cs" and es: "set es1 \<subseteq> set es"
    using eq w(1) r by (auto simp: remove_engine_worker_def Let_def)
  show "dict_get (srv_clients s') (md_client_address md) = Some (credit_token cl (md_producer_id md) True)"
    using send_result_client [OF c sr] s' by simp
  have b using sr c ok by (auto simp: send_result_def Let_def split: prod.splits) (metis fst_conv)
  then show "SendClient (md_client_address md) (ResultWrapper \<lparr>rw_producer_id = md_producer_id md,
        rw_return_token = True, rw_result = disconnect_result (ew_engine_id w) md\<rparr>) \<in> set es"
    using transport.send_result_known(2) [OF tx c sr] es by auto
qed

section \<open>The engine registry\<close>

lemma worker_id_inj:
  assumes d: "distinct (worker_ids ws)" and w: "dict_get ws k = Some w" "dict_get ws k' = Some w'"
    and id: "ew_engine_id w = ew_engine_id w'"
  shows "k = k'"
proof -
  have inj: "inj_on (\<lambda>(c, w). ew_engine_id w) (set ws)"
    using d by (simp add: worker_ids_def distinct_map)
  have "(k, w) = (k', w')"
    by (rule inj_onD [OF inj _ map_of_SomeD [OF w(1)] map_of_SomeD [OF w(2)]]) (simp add: id)
  then show ?thesis by simp
qed

lemma insert_engine_worker_workers:
  assumes "insert_engine_worker W s k eid arr = (e, s', es)"
  shows "engine_workers (srv_engine_side s') = dict_set k
      (new_engine_worker k eid arr (size_for_queues (srv_engine_side s))) (engine_workers (srv_engine_side s))"
    and "eid \<in> set (engine_ids (srv_engine_side s'))"
    and "es = engines_updated_cb (send_via_transport W) (srv_clients s') (engine_ids (srv_engine_side s'))"
  using assms by (auto simp: insert_engine_worker_def Let_def)

lemma add_engine_worker_cases:
  assumes inv: "server_inv R N n s" and eq: "add_engine_worker W s k eid arr = (e, s', es)"
  obtains (new) "eid \<notin> set (engine_ids (srv_engine_side s))"
      "insert_engine_worker W s k eid arr = (e, s', es)"
  | (replace) j w s1 es1 es2 where "dict_get (engine_workers (srv_engine_side s)) j = Some w"
      "ew_engine_id w = eid" "remove_engine_worker W s j = (None, s1, es1)"
      "insert_engine_worker W s1 k eid arr = (e, s', es2)" "es = es1 @ es2"
proof (cases "eid \<in> set (engine_ids (srv_engine_side s))")
  case False
  then have "insert_engine_worker W s k eid arr = (e, s', es)"
    using eq by (auto simp: add_engine_worker_def Let_def split: prod.splits)
  with False show thesis by (rule new)
next
  case True
  obtain j w where f: "find (\<lambda>(k, w). ew_engine_id w = eid) (engine_workers (srv_engine_side s)) = Some (j, w)"
    and w: "dict_get (engine_workers (srv_engine_side s)) j = Some w" "ew_engine_id w = eid"
    using find_worker [OF server_invD(1) [OF inv] True] by blast
  obtain e1 s1 es1 where r: "remove_engine_worker W s j = (e1, s1, es1)" by (metis prod_cases3)
  have e1: "e1 = None" using remove_engine_worker_inv [OF inv w(1) r] by simp
  obtain e2 s2 es2 where i: "insert_engine_worker W s1 k eid arr = (e2, s2, es2)" by (metis prod_cases3)
  have "e2 = e" "s2 = s'" "es = es1 @ es2"
    using eq True f r e1 i by (auto simp: add_engine_worker_def Let_def)
  then show thesis using replace [OF w] r i e1 by simp
qed

text \<open>The worker on a stream, unless it has the given id.\<close>

definition other_engine :: "engine_id \<Rightarrow> workers \<Rightarrow> ctx \<Rightarrow> engine_worker option" where
  "other_engine eid ws k =
     (case dict_get ws k of None \<Rightarrow> None | Some w \<Rightarrow> (if ew_engine_id w = eid then None else Some w))"

lemma other_engine_new:
  assumes "wf_engine_side s" and "eid \<notin> set (engine_ids s)"
  shows "other_engine eid (engine_workers s) k = dict_get (engine_workers s) k"
proof (cases "dict_get (engine_workers s) k")
  case (Some w)
  then show ?thesis using worker_id_in_engine_ids [OF assms(1) Some] assms(2) by (auto simp: other_engine_def)
qed (simp add: other_engine_def)

lemma other_engine_removed:
  assumes "wf_engine_side s" and "dict_get (engine_workers s) j = Some w" and "ew_engine_id w = eid"
  shows "other_engine eid (engine_workers s) k = dict_get (dict_del j (engine_workers s)) k"
proof (cases "dict_get (engine_workers s) k")
  case (Some v)
  then show ?thesis
    using worker_id_inj [OF wf_engine_sideD(6) [OF assms(1)] assms(2) Some] assms(2,3)
    by (cases "k = j") (simp_all add: other_engine_def dict_get_del, blast)
qed (simp add: other_engine_def dict_get_del)

lemma add_engine_worker_registry:
  assumes inv: "server_inv R N n s" and eq: "add_engine_worker W s k eid arr = (e, s', es)"
  shows "dict_get (engine_workers (srv_engine_side s')) k' =
      (if k' = k then Some (new_engine_worker k eid arr n)
       else other_engine eid (engine_workers (srv_engine_side s)) k') \<and>
    eid \<in> set (engine_ids (srv_engine_side s'))"
  using inv eq
proof (cases rule: add_engine_worker_cases)
  case new
  note I = server_invD [OF inv]
  show ?thesis
    using insert_engine_worker_workers(1,2) [OF new(2)] I(3) other_engine_new [OF I(1) new(1)] by simp
next
  case (replace j w s1 es1 es2)
  note I = server_invD [OF inv]
  note R = remove_engine_worker_inv [OF inv replace(1,3)]
  have "size_for_queues (srv_engine_side s1) = n" using server_invD(3) R by blast
  then show ?thesis
    using insert_engine_worker_workers(1,2) [OF replace(4)] R other_engine_removed [OF I(1) replace(1,2)]
    by simp
qed

text \<open>Every change of the registry is announced to the clients.\<close>

definition announced :: "world \<Rightarrow> server \<Rightarrow> effect list \<Rightarrow> bool" where
  "announced W s es \<longleftrightarrow>
     (\<forall>a c. dict_get (srv_clients s) a = Some c \<longrightarrow>
        fst (send_via_transport W (srv_clients s) a (EngineIdsUpdate (engine_ids (srv_engine_side s)))) \<longrightarrow>
        SendClient a (EngineIdsUpdate (engine_ids (srv_engine_side s))) \<in> set es)"

lemma announcedI:
  assumes "transport (send_via_transport W)"
    and "set (engines_updated_cb (send_via_transport W) (srv_clients s) (engine_ids (srv_engine_side s)))
      \<subseteq> set es"
  shows "announced W s es"
  unfolding announced_def using transport.engines_updated_reaches [OF assms(1)] assms(2) by blast

lemma add_engine_worker_announces:
  assumes tx: "transport (send_via_transport W)" and inv: "server_inv R N n s"
    and eq: "add_engine_worker W s k eid arr = (e, s', es)"
  shows "announced W s' es"
  using inv eq
proof (cases rule: add_engine_worker_cases)
  case new
  show ?thesis by (rule announcedI [OF tx]) (use insert_engine_worker_workers(3) [OF new(2)] in simp)
next
  case (replace j w s1 es1 es2)
  show ?thesis
    by (rule announcedI [OF tx]) (use insert_engine_worker_workers(3) [OF replace(4)] replace(5) in simp)
qed

lemma remove_engine_worker_announces:
  assumes tx: "transport (send_via_transport W)" and inv: "server_inv R N n s"
    and w: "dict_get (engine_workers (srv_engine_side s)) k = Some w"
    and eq: "remove_engine_worker W s k = (e, s', es)"
  shows "announced W s' es"
proof (rule announcedI [OF tx])
  obtain e1 s1 es1 where r: "release_current_input W s w = (e1, s1, es1)" by (metis prod_cases3)
  note R = release_current_input_inv [OF inv r]
  have "ew_engine_id w \<in> set (engine_ids (srv_engine_side s1))"
    using worker_id_in_engine_ids [OF server_invD(1) [OF inv] w] R by simp
  then show "set (engines_updated_cb (send_via_transport W) (srv_clients s') (engine_ids (srv_engine_side s')))
      \<subseteq> set es"
    using eq w r R by (auto simp: remove_engine_worker_def Let_def)
qed

lemma engine_session_end_announces:
  assumes tx: "transport (send_via_transport W)" and inv: "server_inv R N n s"
    and eq: "engine_session_end W s k = (e, s', es)"
  shows "announced W s' es \<or> engine_ids (srv_engine_side s') = engine_ids (srv_engine_side s)"
proof (cases "dict_get (engine_workers (srv_engine_side s)) k")
  case None
  then have "k \<notin> fst ` set (engine_workers (srv_engine_side s))" by (simp add: map_of_eq_None_iff)
  with eq show ?thesis by (simp add: engine_session_end_def)
next
  case (Some w)
  then have "remove_engine_worker W s k = (e, s', es)"
    using eq dict_get_in_keys [OF Some] by (simp add: engine_session_end_def)
  from remove_engine_worker_announces [OF tx inv Some this] show ?thesis ..
qed

lemma handle_from_engine_ids:
  assumes "handle_from_engine W s k m = (e, s', es)"
  shows "engine_ids (srv_engine_side s') = engine_ids (srv_engine_side s)"
proof -
  have "engine_ids (srv_engine_side s2) = engine_ids (srv_engine_side s1)"
    if "engine_next W s1 k w = (e2, s2, es2)" for s1 s2 w e2 es2
    using that by (auto simp: engine_next_def Let_def split: prod.splits)
  then have "engine_ids (srv_engine_side s2) = engine_ids (srv_engine_side s)"
    if "finish_input W s k w md p r = (e2, s2, es2)" for w md p r e2 s2 es2
    using that by (fastforce simp: finish_input_def Let_def split: prod.splits sum.splits bool.splits if_splits)
  with assms show ?thesis
    by (auto simp: handle_from_engine_def Let_def split: option.splits if_splits prod.splits)
qed

lemma client_message_ids:
  assumes "client_message W s a fc = (e, s', es)"
  shows "engine_ids (srv_engine_side s') = engine_ids (srv_engine_side s)"
proof (cases "dict_get (srv_clients s) a")
  case None
  with assms show ?thesis by (simp add: client_message_def)
next
  case (Some c)
  obtain out c' eng' es1 where h: "handle_message (srv_num_tokens s) (send_to_engine (engine_write W))
      (engine_ids (srv_engine_side s)) c a fc (srv_engine_side s) = (out, c', eng', es1)"
    by (metis prod_cases4)
  have "engine_ids eng' = engine_ids (srv_engine_side s)"
    using engine_flow.charged_or_not [of fc c "srv_num_tokens s" "engine_write W" "srv_engine_side s" a]
  proof cases
    case (charged i r s1 es1')
    then show ?thesis
      using engine_flow.handle_message_charged(1) [OF charged(4,1-3) h] send_to_engine_size(2) by blast
  next
    case uncharged
    then show ?thesis using engine_flow.handle_message_uncharged(1) [OF uncharged h] by simp
  qed
  with assms Some h show ?thesis
    by (auto simp: client_message_def Let_def split: outcome.splits response_write.splits)
qed

section \<open>Result sinks\<close>

lemma send_result_no_sink:
  assumes tx: "transport tx" and sr: "send_result tx cs a pid eid r rt = (ok, cs', es)"
  shows "SendSink j x \<notin> set es"
proof (cases "dict_get cs a")
  case None
  with sr show ?thesis by (simp add: send_result_def)
next
  case (Some c)
  from transport.send_result_known(2) [OF tx Some sr] show ?thesis by simp
qed

lemma engine_next_no_sink:
  assumes "engine_next W s c w = (e, s', es)"
  shows "SendSink j x \<notin> set es"
proof -
  obtain e1 w2 ps2 es1 where
    sn: "send_next_input (engine_write W) w (producer_infos (srv_engine_side s)) = (e1, w2, ps2, es1)"
    by (metis prod_cases4)
  with assms have es: "es = es1" by (auto simp: engine_next_def Let_def)
  show ?thesis
    by (rule send_next_input_cases [of w "producer_infos (srv_engine_side s)" "engine_write W"])
      (use sn es in \<open>auto simp: send_payload_def Let_def split: if_splits\<close>)
qed

lemma finish_input_no_sink:
  assumes tx: "transport (send_via_transport W)" and eq: "finish_input W s c w md p r = (e, s', es)"
  shows "SendSink j x \<notin> set es"
proof -
  have sr: "SendSink j x \<notin> set (snd (snd (send_result (send_via_transport W) cs a pid eid r rt)))"
    for cs a pid eid rt using send_result_no_sink [OF tx] by (metis prod.collapse)
  have en: "SendSink j x \<notin> set (snd (snd (engine_next W t c w)))" for t
    using engine_next_no_sink by (metis prod.collapse)
  have "es = snd (snd (finish_input W s c w md p r))" using eq by simp
  also have "SendSink j x \<notin> set \<dots>"
    by (auto simp: finish_input_def Let_def split_def split: sum.split bool.split dest: sr [THEN notE] en [THEN notE])
  finally show ?thesis .
qed

section \<open>What the transports rely on\<close>

text \<open>
  The engine callback only answers with status codes that have a name, so \<open>StatusCode.Name\<close> in the
  error paths of the transports does not raise.
\<close>

lemma send_to_engine_named:
  assumes "send_to_engine wr s fc a i = (Inr (st, msg), s', es)"
  shows "status_code_has_name st"
proof -
  from assms refl obtain ws' p' where
    "process_input_from_client wr (engine_workers s)
      (producer_for s (in_producer_id (input_of fc))) fc a i = (Inr (st, msg), ws', p', es)"
    by (rule send_to_engine_unfold)
  then show ?thesis
    by (auto simp: process_input_from_client_def Let_def status_code_has_name_def
        split: if_splits option.splits prod.splits)
qed

lemma consumer_helper_named:
  assumes "consumer_helper N (send_to_engine wr) c a fc s = (Inr (st, msg), c', s', es)"
  shows "status_code_has_name st"
  using assms send_to_engine_named
  by (auto simp: consumer_helper_def Let_def status_code_has_name_def split: if_splits option.splits prod.splits)

text \<open>Only connecting and disconnecting change which clients are known.\<close>

definition same_clients :: "server \<Rightarrow> server \<Rightarrow> bool" where
  "same_clients s s' \<longleftrightarrow> (\<forall>a. dict_get (srv_clients s') a = None \<longleftrightarrow> dict_get (srv_clients s) a = None)"

lemma same_clients_refl [simp]: "same_clients s s"
  by (simp add: same_clients_def)

lemma same_clients_trans: "same_clients s t \<Longrightarrow> same_clients t u \<Longrightarrow> same_clients s u"
  by (simp add: same_clients_def)

lemma same_clients_cong: "srv_clients t = srv_clients s \<Longrightarrow> same_clients s t"
  by (simp add: same_clients_def)

lemma send_result_same:
  assumes "send_result tx (srv_clients s) a pid eid r rt = (ok, cs, es)" and "srv_clients t = cs"
  shows "same_clients s t"
proof (cases "dict_get (srv_clients s) a")
  case None
  with assms show ?thesis by (simp add: send_result_def same_clients_def)
next
  case (Some c)
  with assms have "srv_clients t = dict_set a (credit_token c pid rt) (srv_clients s)"
    by (auto simp: send_result_def Let_def split: prod.splits)
  with Some show ?thesis by (simp add: same_clients_def)
qed

lemma engine_next_clients: "engine_next W s c w = (e, s', es) \<Longrightarrow> srv_clients s' = srv_clients s"
  by (auto simp: engine_next_def Let_def split: prod.splits)

lemma finish_input_same:
  assumes "finish_input W s c w md p r = (e, s', es)"
  shows "same_clients s s'"
  using assms send_result_same [of "send_via_transport W" s]
  by (fastforce simp: finish_input_def Let_def split: sum.splits bool.splits prod.splits if_splits
      dest!: engine_next_clients intro: same_clients_cong)

lemma handle_from_engine_same:
  assumes "handle_from_engine W s c m = (e, s', es)"
  shows "same_clients s s'"
  using assms finish_input_same
  by (fastforce simp: handle_from_engine_def Let_def split: option.splits if_splits prod.splits)

lemma release_current_input_same:
  assumes "release_current_input W s w = (e, s', es)"
  shows "same_clients s s'"
  using assms send_result_same [of "send_via_transport W" s]
  by (fastforce simp: release_current_input_def Let_def
      split: option.splits if_splits prod.splits intro: same_clients_cong)

lemma remove_engine_worker_same:
  assumes "remove_engine_worker W s c = (e, s', es)"
  shows "same_clients s s'"
proof (cases "dict_get (engine_workers (srv_engine_side s)) c")
  case None
  with assms show ?thesis by (simp add: remove_engine_worker_def)
next
  case (Some w)
  obtain e1 s1 es1 where r: "release_current_input W s w = (e1, s1, es1)" by (metis prod_cases3)
  have "srv_clients s' = srv_clients s1"
    using assms Some r by (auto simp: remove_engine_worker_def Let_def split: option.splits if_splits)
  then show ?thesis
    using release_current_input_same [OF r] by (simp add: same_clients_def)
qed

lemma insert_engine_worker_clients:
  "insert_engine_worker W s c eid arr = (e, s', es) \<Longrightarrow> srv_clients s' = srv_clients s"
  by (auto simp: insert_engine_worker_def Let_def)

lemma add_engine_worker_same:
  assumes inv: "server_inv R N n s" and eq: "add_engine_worker W s c eid arr = (e, s', es)"
  shows "same_clients s s'"
  using inv eq
proof (cases rule: add_engine_worker_cases)
  case new
  then show ?thesis by (intro same_clients_cong insert_engine_worker_clients)
next
  case (replace j w s1 es1 es2)
  have "same_clients s1 s'" by (intro same_clients_cong insert_engine_worker_clients) (rule replace(4))
  then show ?thesis using remove_engine_worker_same [OF replace(3)] same_clients_trans by blast
qed

lemma engine_session_end_same:
  "engine_session_end W s c = (e, s', es) \<Longrightarrow> same_clients s s'"
  using remove_engine_worker_same by (auto simp: engine_session_end_def split: if_splits)

lemma engine_session_message_same:
  assumes "engine_session_message W s c m = (e, s', es)"
  shows "same_clients s s'"
proof -
  obtain e1 s1 es1 where h: "handle_from_engine W s c m = (e1, s1, es1)" by (metis prod_cases3)
  obtain e2 s2 es2 where d: "engine_session_end W s1 c = (e2, s2, es2)" by (metis prod_cases3)
  have "s' = s1 \<or> s' = s2"
    using assms h d by (auto simp: engine_session_message_def split: option.splits)
  then show ?thesis
    using handle_from_engine_same [OF h] engine_session_end_same [OF d] same_clients_trans by blast
qed

lemma client_message_same:
  assumes "client_message W s a fc = (e, s', es)"
  shows "same_clients s s'"
proof (cases "dict_get (srv_clients s) a")
  case None
  with assms show ?thesis by (simp add: client_message_def)
next
  case (Some c)
  then obtain c' where "srv_clients s' = dict_set a c' (srv_clients s)"
    using assms by (auto simp: client_message_def Let_def split: prod.splits outcome.splits response_write.splits)
  with Some show ?thesis by (simp add: same_clients_def)
qed

definition changes_clients :: "event \<Rightarrow> bool" where
  "changes_clients ev = (case ev of ClientConnect _ \<Rightarrow> True | ClientDisconnect _ \<Rightarrow> True | _ \<Rightarrow> False)"

lemma server_event_same:
  assumes inv: "server_inv R N n s" and ev: "\<not> changes_clients ev"
    and eq: "server_event W s ev = (e, s', es)"
  shows "same_clients s s'"
proof (cases ev)
  case (ClientMessage a fc)
  then show ?thesis using client_message_same eq by (simp add: server_event_def)
next
  case (EngineStart c m)
  then show ?thesis
    using eq add_engine_worker_same [OF inv]
    by (auto simp: server_event_def engine_session_start_def split: option.splits from_engine.splits)
next
  case (EngineMessage c m)
  then show ?thesis using engine_session_message_same eq by (simp add: server_event_def)
next
  case (EngineEnd c)
  then show ?thesis using engine_session_end_same eq by (simp add: server_event_def)
qed (use ev eq in \<open>auto simp: server_event_def changes_clients_def same_clients_def enqueue_input_def
      dequeue_input_def split: option.splits if_splits\<close>)

text \<open>Every event leads from a reachable state to a reachable state, and so does disconnecting everybody.\<close>

lemma reachable_disconnect_all:
  assumes "reachable any_event N n s"
  shows "reachable any_event N n (s\<lparr>srv_clients := []\<rparr>)"
  using assms
proof (induction "length (srv_clients s)" arbitrary: s rule: less_induct)
  case less
  show ?case
  proof (cases "srv_clients s")
    case Nil
    then have "s\<lparr>srv_clients := []\<rparr> = s" by simp
    with less.prems show ?thesis by simp
  next
    case (Cons ac cs)
    let ?a = "fst ac"
    let ?s = "client_disconnect s ?a"
    have "reachable any_event N n ?s"
      by (rule reachable.step [where ev = "ClientDisconnect ?a" and e = None and es = "[]"])
        (use less.prems in \<open>simp_all add: enabled_def any_event_def server_event_def\<close>)
    moreover have "length (srv_clients ?s) < length (srv_clients s)"
      using Cons length_delete_le [of ?a cs] by (cases ac) (simp add: client_disconnect_def)
    ultimately have "reachable any_event N n (?s\<lparr>srv_clients := []\<rparr>)" by (rule less.hyps [rotated])
    then show ?thesis by (simp add: client_disconnect_def)
  qed
qed

lemma reachable_event:
  assumes "reachable any_event N n s" and "enabled s ev"
  shows "reachable any_event N n (fst (snd (server_event W s ev)))"
proof -
  obtain e s' es where "server_event W s ev = (e, s', es)" by (metis prod_cases3)
  with assms show ?thesis using reachable.step [where ok = any_event] by (simp add: any_event_def)
qed

end
