(* ===== verification/Grpc_Server.thy ===== *)
theory Grpc_Server
  imports Server_Effects
begin

text \<open>
  \<open>grpc_server.py\<close>: the gRPC transport.  A client opens one control stream, which creates its entry in
  \<open>_clients\<close> and its write lock, and one upload stream per producer.  The transport is shown to satisfy
  the interface \<open>transport\<close>, its message handler to be the common one, and everything it reaches to be
  reachable by the events of the server.
\<close>

section \<open>State\<close>

text \<open>
  The server with the keys of \<open>_write_locks\<close>.  A lock is held only inside one send, which is one step
  here, so its own state is not recorded.  \<open>g_bound\<close> says whether the underlying gRPC server is started.
\<close>

record grpc_server =
  g_server :: server
  write_locks :: "address list"
  g_is_running :: bool
  g_bound :: bool

definition new_grpc_server :: "int \<Rightarrow> nat \<Rightarrow> grpc_server" where
  "new_grpc_server num_tokens maxlen =
     \<lparr>g_server = init_server num_tokens maxlen, write_locks = [], g_is_running = False, g_bound = False\<rparr>"

section \<open>Starting and stopping\<close>

text \<open>The channel options and the address that \<open>_start_grpc_server\<close> binds.\<close>

definition grpc_server_options :: "int option \<Rightarrow> int option \<Rightarrow> (string \<times> int) list" where
  "grpc_server_options http2_stream_window_bytes message_max_size =
     [(''grpc.http2.min_ping_interval_without_data_ms'', 5000), (''grpc.http2.max_pings_without_data'', 0)] @
     (case http2_stream_window_bytes of None \<Rightarrow> [] | Some b \<Rightarrow> [(''grpc.http2.lookahead_bytes'', b)]) @
     (case message_max_size of
        None \<Rightarrow> []
      | Some b \<Rightarrow> [(''grpc.max_send_message_length'', b), (''grpc.max_receive_message_length'', b)])"

definition grpc_server_target :: "string \<Rightarrow> bool \<Rightarrow> string" where
  "grpc_server_target port_or_path use_ipc =
     (if use_ipc then ''unix://'' @ port_or_path else ''[::]:'' @ port_or_path)"

definition start_grpc_server :: "grpc_server \<Rightarrow> grpc_server" where
  "start_grpc_server g = g\<lparr>g_bound := True\<rparr>"

definition mark_started :: "grpc_server \<Rightarrow> grpc_server" where
  "mark_started g = g\<lparr>g_is_running := True\<rparr>"

definition grpc_shutdown :: "(nat \<Rightarrow> bool) \<Rightarrow> grpc_server \<Rightarrow> py_exn option \<times> grpc_server" where
  "grpc_shutdown ok g =
     (fst (cleanup_sinks ok (srv_sinks (g_server g))), g\<lparr>g_bound := False, g_is_running := False\<rparr>)"

definition close_server_socket :: "grpc_server \<Rightarrow> grpc_server" where
  "close_server_socket g =
     g\<lparr>g_bound := False, g_server := (g_server g)\<lparr>srv_clients := []\<rparr>, write_locks := []\<rparr>"

definition recreate_server_socket :: "grpc_server \<Rightarrow> grpc_server" where
  "recreate_server_socket g = start_grpc_server g"

section \<open>Sending\<close>

text \<open>
  \<open>_send_via_transport\<close>: \<open>ok\<close> says whether the write on the client's control stream goes through; every
  exception of the write is caught.
\<close>

definition grpc_send :: "(address \<Rightarrow> bool) \<Rightarrow> address list \<Rightarrow> transport" where
  "grpc_send ok locks cs a m =
     (if dict_get cs a = None \<or> a \<notin> set locks then (False, [])
      else if ok a then (True, [SendClient a m])
      else (False, []))"

interpretation grpc_transport: transport "grpc_send ok locks" for ok locks
  by unfold_locales (simp add: grpc_send_def)

section \<open>Client streams\<close>

text \<open>
  The start of \<open>ClientSession\<close>: the role and session id come from the metadata of the call.  Its end is
  the \<open>finally\<close> block.
\<close>

datatype session_start =
    AbortInvalidArgument
  | ProducerStream address
  | ControlStream address

definition client_session_start ::
  "grpc_server \<Rightarrow> string option \<Rightarrow> string option \<Rightarrow> session_start \<times> grpc_server" where
  "client_session_start g session_id stream_role =
     (case session_id of
        None \<Rightarrow> (AbortInvalidArgument, g)
      | Some sid \<Rightarrow>
          (if sid = [] \<or> stream_role \<notin> {Some ''control'', Some ''producer''} then (AbortInvalidArgument, g)
           else if stream_role = Some ''producer'' then (ProducerStream sid, g)
           else (ControlStream sid,
                 g\<lparr>g_server := client_connect (g_server g) sid,
                   write_locks := List.insert sid (write_locks g)\<rparr>)))"

definition client_session_end :: "grpc_server \<Rightarrow> address \<Rightarrow> py_exn option \<times> grpc_server" where
  "client_session_end g sid =
     (if dict_get (srv_clients (g_server g)) sid = None then (Some KeyError, g)
      else let g1 = g\<lparr>g_server := client_disconnect (g_server g) sid\<rparr>
           in if sid \<notin> set (write_locks g) then (Some KeyError, g1)
              else (None, g1\<lparr>write_locks := removeAll sid (write_locks g)\<rparr>))"

text \<open>
  \<open>_handle_from_client\<close> for the client of a session.  The client object that a stream holds is the entry
  of its session id, which exists as long as the control stream does.
\<close>

definition grpc_respond ::
  "(address \<Rightarrow> bool) \<Rightarrow> grpc_server \<Rightarrow> address \<Rightarrow> to_client \<Rightarrow> effect list \<Rightarrow>
     py_exn option \<times> grpc_server \<times> effect list" where
  "grpc_respond ok g sid m es =
     (if sid \<notin> set (write_locks g) then (None, g, es)
      else if ok sid then (None, g, es @ [SendClient sid m])
      else (Some RpcWriteError, g, es))"

definition grpc_handle_from_client ::
  "engine_write \<Rightarrow> (address \<Rightarrow> bool) \<Rightarrow> grpc_server \<Rightarrow> address \<Rightarrow> client \<Rightarrow> from_client \<Rightarrow>
     py_exn option \<times> grpc_server \<times> effect list" where
  "grpc_handle_from_client wr ok g sid c from_client =
     (let s = g_server g;
          (r, c', eng', es) = consumer_helper (srv_num_tokens s) (send_to_engine wr) c sid from_client
            (srv_engine_side s);
          upd = (\<lambda>d. g\<lparr>g_server := s\<lparr>srv_engine_side := eng',
                   srv_clients := dict_set sid d (srv_clients s)\<rparr>\<rparr>)
      in case r of
           Inl e \<Rightarrow> (Some e, upd c', es)
         | Inr (st, msg) \<Rightarrow>
             (if st = SUCCESS
              then if is_registration from_client
                   then grpc_respond ok (upd c') sid
                          (make_registered (srv_num_tokens s) (engine_ids eng')) es
                   else (case deduct_token c' (in_producer_id (input_of from_client)) of
                           Inl e \<Rightarrow> (Some e, upd c', es)
                         | Inr c'' \<Rightarrow> (None, upd c'', es))
              else if \<not> status_code_has_name st then (Some ValueError, upd c', es)
              else grpc_respond ok (upd c') sid (make_error_response from_client st msg) es))"

text \<open>
  One message on a control stream (\<open>_consumer\<close>) and on a producer stream (\<open>_producer_stream\<close>); the
  flag says whether the producer stream goes on.
\<close>

definition grpc_consumer_message ::
  "engine_write \<Rightarrow> (address \<Rightarrow> bool) \<Rightarrow> grpc_server \<Rightarrow> address \<Rightarrow> from_client \<Rightarrow>
     py_exn option \<times> grpc_server \<times> effect list" where
  "grpc_consumer_message wr ok g sid from_client =
     (case dict_get (srv_clients (g_server g)) sid of
        None \<Rightarrow> (None, g, [])
      | Some c \<Rightarrow> grpc_handle_from_client wr ok g sid c from_client)"

definition producer_stream_message ::
  "engine_write \<Rightarrow> (address \<Rightarrow> bool) \<Rightarrow> grpc_server \<Rightarrow> address \<Rightarrow> from_client \<Rightarrow>
     bool \<times> py_exn option \<times> grpc_server \<times> effect list" where
  "producer_stream_message wr ok g sid from_client =
     (case dict_get (srv_clients (g_server g)) sid of
        None \<Rightarrow> (False, None, g, [])
      | Some c \<Rightarrow>
          (let (e, g', es) = grpc_handle_from_client wr ok g sid c from_client
           in (e = None, e, g', es)))"

section \<open>The handler is the common one\<close>

text \<open>The world that the gRPC server gives the common handlers.\<close>

definition grpc_world :: "engine_write \<Rightarrow> (address \<Rightarrow> bool) \<Rightarrow> (nat \<Rightarrow> bool) \<Rightarrow> grpc_server \<Rightarrow> world" where
  "grpc_world wr ok sinks g =
     \<lparr>engine_write = wr, send_via_transport = grpc_send ok (write_locks g), sink_ok = sinks,
      client_write = (\<lambda>a. if a \<notin> set (write_locks g) then Dropped else if ok a then Written else Failed)\<rparr>"

lemma grpc_handle_from_client_common:
  assumes c: "dict_get (srv_clients (g_server g)) sid = Some c"
  shows "grpc_handle_from_client wr ok g sid c fc =
    (let (e, s', es) = client_message (grpc_world wr ok sinks g) (g_server g) sid fc
     in (e, g\<lparr>g_server := s'\<rparr>, es))"
proof -
  obtain r c' eng' es where ch: "consumer_helper (srv_num_tokens (g_server g)) (send_to_engine wr) c sid fc
      (srv_engine_side (g_server g)) = (r, c', eng', es)" by (metis prod_cases4)
  have ids: "is_registration fc \<Longrightarrow> engine_ids eng' = engine_ids (srv_engine_side (g_server g))"
    using ch by (auto simp: consumer_helper_registration)
  have named: "status_code_has_name st" if "r = Inr (st, msg)" for st msg
    using consumer_helper_named ch that by blast
  show ?thesis
  proof (cases r)
    case (Inl e)
    then show ?thesis
      using c ch
      by (simp add: grpc_handle_from_client_def client_message_def handle_message_def grpc_world_def Let_def)
  next
    case (Inr sm)
    obtain st msg where sm: "sm = (st, msg)" by (cases sm)
    show ?thesis
      using c ch Inr sm ids named
      by (simp add: grpc_handle_from_client_def client_message_def handle_message_def grpc_world_def
          grpc_respond_def Let_def split: sum.split)
  qed
qed

section \<open>Reachable states\<close>

text \<open>
  The events of the gRPC server: client streams, engine and sink events of the server, and the test
  hooks that close and reopen the socket.
\<close>

datatype grpc_event =
    OpenStream "string option" "string option"
  | ControlMessage address from_client
  | ProducerMessage address from_client
  | ControlEnd address
  | ServerEvent event
  | StartServer
  | StopServer
  | CloseSocket

definition grpc_step ::
  "engine_write \<Rightarrow> (address \<Rightarrow> bool) \<Rightarrow> (nat \<Rightarrow> bool) \<Rightarrow> grpc_server \<Rightarrow> grpc_event \<Rightarrow> grpc_server" where
  "grpc_step wr ok sinks g ev =
     (case ev of
        OpenStream sid role \<Rightarrow> snd (client_session_start g sid role)
      | ControlMessage sid m \<Rightarrow> fst (snd (grpc_consumer_message wr ok g sid m))
      | ProducerMessage sid m \<Rightarrow> fst (snd (snd (producer_stream_message wr ok g sid m)))
      | ControlEnd sid \<Rightarrow> snd (client_session_end g sid)
      | ServerEvent sev \<Rightarrow>
          g\<lparr>g_server := fst (snd (server_event (grpc_world wr ok sinks g) (g_server g) sev))\<rparr>
      | StartServer \<Rightarrow> mark_started (start_grpc_server g)
      | StopServer \<Rightarrow> snd (grpc_shutdown sinks g)
      | CloseSocket \<Rightarrow> recreate_server_socket (close_server_socket g))"

text \<open>
  A control stream is opened with a fresh session id (the client draws a UUID), and the server events
  are those of engines and sinks.
\<close>

definition grpc_enabled :: "grpc_server \<Rightarrow> grpc_event \<Rightarrow> bool" where
  "grpc_enabled g ev =
     (case ev of
        OpenStream (Some sid) _ \<Rightarrow> (\<forall>pid. owed (srv_engine_side (g_server g)) sid pid = 0)
      | ServerEvent sev \<Rightarrow> \<not> changes_clients sev \<and> enabled (g_server g) sev
      | _ \<Rightarrow> True)"

inductive grpc_reachable :: "int \<Rightarrow> nat \<Rightarrow> grpc_server \<Rightarrow> bool" for N n where
  start: "grpc_reachable N n (new_grpc_server N n)"
| step: "grpc_reachable N n g \<Longrightarrow> grpc_enabled g ev \<Longrightarrow> grpc_reachable N n (grpc_step wr ok sinks g ev)"

definition locks_match :: "grpc_server \<Rightarrow> bool" where
  "locks_match g \<longleftrightarrow> (\<forall>a. a \<in> set (write_locks g) \<longleftrightarrow> dict_get (srv_clients (g_server g)) a \<noteq> None)"

lemma grpc_consumer_message_server:
  "g_server (fst (snd (grpc_consumer_message wr ok g sid fc))) =
     fst (snd (client_message (grpc_world wr ok sinks g) (g_server g) sid fc)) \<and>
   write_locks (fst (snd (grpc_consumer_message wr ok g sid fc))) = write_locks g"
proof (cases "dict_get (srv_clients (g_server g)) sid")
  case None
  then show ?thesis by (simp add: grpc_consumer_message_def client_message_def)
next
  case (Some c)
  then show ?thesis
    unfolding grpc_consumer_message_def
    by (simp add: grpc_handle_from_client_common [where sinks = sinks, OF Some] split_def Let_def)
qed

lemma producer_stream_message_server:
  "fst (snd (snd (producer_stream_message wr ok g sid fc))) = fst (snd (grpc_consumer_message wr ok g sid fc))"
  by (simp add: producer_stream_message_def grpc_consumer_message_def split_def Let_def split: option.split)

lemma locks_match_same:
  "locks_match g \<Longrightarrow> write_locks g' = write_locks g \<Longrightarrow> same_clients (g_server g) (g_server g') \<Longrightarrow>
     locks_match g'"
  by (simp add: locks_match_def same_clients_def)

lemma grpc_event_step:
  assumes N: "0 \<le> N" and r: "reachable any_event N n (g_server g)" and l: "locks_match g"
    and en: "enabled (g_server g) ev" and ch: "\<not> changes_clients ev"
    and g': "g_server g' = fst (snd (server_event W (g_server g) ev))" "write_locks g' = write_locks g"
  shows "reachable any_event N n (g_server g') \<and> locks_match g'"
proof -
  obtain e s' es where se: "server_event W (g_server g) ev = (e, s', es)" by (metis prod_cases3)
  have "same_clients (g_server g) (g_server g')"
    using server_event_same [OF reachable_inv [OF r N] ch se] g'(1) se by simp
  then show ?thesis
    using reachable_event [OF r en, of W] g' locks_match_same [OF l] by simp
qed

lemma grpc_step_refines:
  assumes N: "0 \<le> N" and r: "reachable any_event N n (g_server g)" and l: "locks_match g"
    and en: "grpc_enabled g ev"
  shows "reachable any_event N n (g_server (grpc_step wr ok sinks g ev)) \<and>
    locks_match (grpc_step wr ok sinks g ev)"
proof (cases ev)
  case (OpenStream sid role)
  show ?thesis
  proof (cases "client_session_start g sid role = (ControlStream (the sid),
      g\<lparr>g_server := client_connect (g_server g) (the sid), write_locks := List.insert (the sid) (write_locks g)\<rparr>)
      \<and> sid \<noteq> None")
    case True
    then obtain a where a: "sid = Some a" by blast
    have "enabled (g_server g) (ClientConnect a)"
      using en OpenStream a by (simp add: grpc_enabled_def enabled_def)
    from reachable_event [OF r this] True a OpenStream l show ?thesis
      by (auto simp: grpc_step_def server_event_def locks_match_def client_connect_def)
  next
    case False
    then have "snd (client_session_start g sid role) = g"
      by (auto simp: client_session_start_def split: option.splits if_splits)
    with OpenStream r l show ?thesis by (simp add: grpc_step_def)
  qed
next
  case (ControlMessage sid fc)
  show ?thesis
    by (rule grpc_event_step [OF N r l, where ev = "ClientMessage sid fc" and W = "grpc_world wr ok sinks g"])
      (use grpc_consumer_message_server [of wr ok g sid fc sinks] in
        \<open>simp_all add: ControlMessage grpc_step_def enabled_def changes_clients_def server_event_def\<close>)
next
  case (ProducerMessage sid fc)
  show ?thesis
    by (rule grpc_event_step [OF N r l, where ev = "ClientMessage sid fc" and W = "grpc_world wr ok sinks g"])
      (use grpc_consumer_message_server [of wr ok g sid fc sinks] in
        \<open>simp_all add: ProducerMessage grpc_step_def enabled_def changes_clients_def server_event_def
          producer_stream_message_server\<close>)
next
  case (ControlEnd sid)
  have "enabled (g_server g) (ClientDisconnect sid)" by (simp add: enabled_def)
  from reachable_event [OF r this] r l ControlEnd show ?thesis
    by (auto simp: grpc_step_def server_event_def client_session_end_def locks_match_def client_disconnect_def
        dict_get_del Let_def)
next
  case (ServerEvent sev)
  show ?thesis
    by (rule grpc_event_step [OF N r l, where ev = sev and W = "grpc_world wr ok sinks g"])
      (use en in \<open>simp_all add: ServerEvent grpc_step_def grpc_enabled_def\<close>)
next
  case CloseSocket
  then show ?thesis
    using reachable_disconnect_all [OF r]
    by (simp add: grpc_step_def close_server_socket_def recreate_server_socket_def start_grpc_server_def
        locks_match_def)
qed (use r l in \<open>simp_all add: grpc_step_def mark_started_def start_grpc_server_def grpc_shutdown_def
      locks_match_def\<close>)

text \<open>
  C16. The gRPC server implements the server.  Every state that the gRPC server reaches through its
  client streams, engine sessions and socket hooks projects to a reachable state of the server, so
  everything proved of those holds behind this transport; and a write lock exists exactly for the
  connected clients, so that closing a connected control stream never fails.
\<close>

theorem grpc_refines_server:
  assumes "0 \<le> N" and "grpc_reachable N n g"
  shows "reachable any_event N n (g_server g) \<and> locks_match g \<and>
    (\<forall>sid. dict_get (srv_clients (g_server g)) sid \<noteq> None \<longrightarrow> fst (client_session_end g sid) = None)"
proof -
  have rl: "reachable any_event N n (g_server g) \<and> locks_match g"
    using assms(2)
  proof induction
    case start
    show ?case
      by (simp add: new_grpc_server_def reachable.start locks_match_def) (simp add: init_server_def)
  next
    case (step g ev wr ok sinks)
    then show ?case using grpc_step_refines [OF assms(1)] by blast
  qed
  then show ?thesis by (auto simp: client_session_end_def locks_match_def Let_def)
qed

definition grpc_example :: grpc_server where
  "grpc_example = grpc_step (\<lambda>_. True) (\<lambda>_. True) (\<lambda>_. True) (new_grpc_server 2 3)
     (OpenStream (Some ''s1'') (Some ''control''))"

theorem grpc_refines_server_witness:
  "dict_get (srv_clients (g_server grpc_example)) ''s1'' \<noteq> None \<and>
   fst (client_session_end grpc_example ''s1'') = None \<and> reachable any_event 2 3 (g_server grpc_example)"
proof -
  have "grpc_enabled (new_grpc_server 2 3) (OpenStream (Some ''s1'') (Some ''control''))"
    by (simp add: grpc_enabled_def new_grpc_server_def init_server_def owed_def)
  then have "grpc_reachable 2 3 grpc_example"
    unfolding grpc_example_def by (rule grpc_reachable.step [OF grpc_reachable.start])
  from grpc_refines_server [OF _ this] have
    "reachable any_event 2 3 (g_server grpc_example)"
    "dict_get (srv_clients (g_server grpc_example)) ''s1'' \<noteq> None \<longrightarrow> fst (client_session_end grpc_example ''s1'') = None"
    by simp_all
  moreover have "dict_get (srv_clients (g_server grpc_example)) ''s1'' \<noteq> None" by code_simp
  ultimately show ?thesis by blast
qed

end
