(* ===== verification/Websocket_Server.thy ===== *)
theory Websocket_Server
  imports Server_Effects
begin

text \<open>
  \<open>websocket_server.py\<close>: the Websocket transport.  Each connection has its entry in \<open>_clients\<close> and its
  write lock for as long as its handler runs.  Decoding the received bytes is the protobuf library's,
  so it is an argument.
\<close>

section \<open>State\<close>

record websocket_server =
  w_server :: server
  w_write_locks :: "address list"
  w_listener :: "bool option"

definition new_websocket_server :: "int \<Rightarrow> nat \<Rightarrow> websocket_server" where
  "new_websocket_server num_tokens maxlen =
     \<lparr>w_server = init_server num_tokens maxlen, w_write_locks = [], w_listener = None\<rparr>"

text \<open>\<open>launch_async\<close> stores the listening server; \<open>is_running\<close> asks it.\<close>

definition websocket_launch :: "websocket_server \<Rightarrow> websocket_server" where
  "websocket_launch g = g\<lparr>w_listener := Some True\<rparr>"

definition websocket_is_running :: "websocket_server \<Rightarrow> bool" where
  "websocket_is_running g = (case w_listener g of None \<Rightarrow> False | Some serving \<Rightarrow> serving)"

text \<open>\<open>get_server\<close>: where the listener is bound, and the message size limit it gets.\<close>

datatype listener =
    Serve string string "int option"
  | UnixServe string

definition get_server :: "string \<Rightarrow> int option \<Rightarrow> bool \<Rightarrow> listener" where
  "get_server port_or_path max_size use_ipc =
     (if \<not> use_ipc then Serve ''localhost'' port_or_path max_size else UnixServe port_or_path)"

section \<open>Operations\<close>

definition websocket_send :: "(address \<Rightarrow> bool) \<Rightarrow> address list \<Rightarrow> transport" where
  "websocket_send ok locks cs a m =
     (if dict_get cs a = None \<or> a \<notin> set locks then (False, [])
      else if ok a then (True, [SendClient a m])
      else (False, []))"

interpretation websocket_transport: transport "websocket_send ok locks" for ok locks
  by unfold_locales (simp add: websocket_send_def)

text \<open>The start and the \<open>finally\<close> block of \<open>_client_handler\<close>.\<close>

definition websocket_open :: "websocket_server \<Rightarrow> address \<Rightarrow> websocket_server" where
  "websocket_open g a =
     g\<lparr>w_server := client_connect (w_server g) a, w_write_locks := List.insert a (w_write_locks g)\<rparr>"

definition websocket_close :: "websocket_server \<Rightarrow> address \<Rightarrow> py_exn option \<times> websocket_server" where
  "websocket_close g a =
     (if dict_get (srv_clients (w_server g)) a = None then (Some KeyError, g)
      else let g1 = g\<lparr>w_server := client_disconnect (w_server g) a\<rparr>
           in if a \<notin> set (w_write_locks g) then (Some KeyError, g1)
              else (None, g1\<lparr>w_write_locks := removeAll a (w_write_locks g)\<rparr>))"

definition websocket_reply ::
  "(address \<Rightarrow> bool) \<Rightarrow> websocket_server \<Rightarrow> address \<Rightarrow> to_client \<Rightarrow> effect list \<Rightarrow>
     py_exn option \<times> websocket_server \<times> effect list" where
  "websocket_reply ok g a m es =
     (if a \<notin> set (w_write_locks g) then (Some KeyError, g, es)
      else if ok a then (None, g, es @ [SendClient a m])
      else (Some ConnectionClosed, g, es))"

text \<open>One iteration of \<open>_consumer\<close>.\<close>

definition websocket_consume ::
  "(bytes \<Rightarrow> from_client option) \<Rightarrow> engine_write \<Rightarrow> (address \<Rightarrow> bool) \<Rightarrow> websocket_server \<Rightarrow> address \<Rightarrow>
     client \<Rightarrow> bytes \<Rightarrow> py_exn option \<times> websocket_server \<times> effect list" where
  "websocket_consume parse wr ok g a c raw_input =
     (case parse raw_input of
        None \<Rightarrow> (Some DecodeError, g, [])
      | Some from_client \<Rightarrow>
          (let s = w_server g;
               (r, c', eng', es) = consumer_helper (srv_num_tokens s) (send_to_engine wr) c a from_client
                 (srv_engine_side s);
               upd = (\<lambda>d. g\<lparr>w_server := s\<lparr>srv_engine_side := eng',
                        srv_clients := dict_set a d (srv_clients s)\<rparr>\<rparr>)
           in case r of
                Inl e \<Rightarrow> (Some e, upd c', es)
              | Inr (st, msg) \<Rightarrow>
                  (if st = SUCCESS
                   then if is_registration from_client
                        then websocket_reply ok (upd c') a
                               (make_registered (srv_num_tokens s) (engine_ids eng')) es
                        else (case deduct_token c' (in_producer_id (input_of from_client)) of
                                Inl e \<Rightarrow> (Some e, upd c', es)
                              | Inr c'' \<Rightarrow> (None, upd c'', es))
                   else websocket_reply ok (upd c') a (make_error_response from_client st msg) es)))"

text \<open>
  A message on the connection of a client.  An exception leaves the loop, and the handler's \<open>finally\<close>
  block forgets the client.
\<close>

definition websocket_message ::
  "(bytes \<Rightarrow> from_client option) \<Rightarrow> engine_write \<Rightarrow> (address \<Rightarrow> bool) \<Rightarrow> websocket_server \<Rightarrow> address \<Rightarrow>
     bytes \<Rightarrow> py_exn option \<times> websocket_server \<times> effect list" where
  "websocket_message parse wr ok g a raw_input =
     (case dict_get (srv_clients (w_server g)) a of
        None \<Rightarrow> (None, g, [])
      | Some c \<Rightarrow>
          (let (e, g1, es) = websocket_consume parse wr ok g a c raw_input
           in case e of
                None \<Rightarrow> (None, g1, es)
              | Some x \<Rightarrow>
                  (let (e2, g2) = websocket_close g1 a
                   in (case e2 of Some y \<Rightarrow> Some y | None \<Rightarrow> (if x = ConnectionClosed then None else Some x),
                       g2, es))))"

section \<open>The handler is the common one\<close>

definition websocket_world ::
  "engine_write \<Rightarrow> (address \<Rightarrow> bool) \<Rightarrow> (nat \<Rightarrow> bool) \<Rightarrow> websocket_server \<Rightarrow> world" where
  "websocket_world wr ok sinks g =
     \<lparr>engine_write = wr, send_via_transport = websocket_send ok (w_write_locks g), sink_ok = sinks,
      client_write = (\<lambda>a. if ok a then Written else Failed)\<rparr>"

lemma websocket_consume_common:
  assumes c: "dict_get (srv_clients (w_server g)) a = Some c" and l: "a \<in> set (w_write_locks g)"
    and fc: "parse raw = Some fc"
  shows "snd (websocket_consume parse wr ok g a c raw) =
    (let (e, s', es) = client_message (websocket_world wr ok sinks g) (w_server g) a fc
     in (g\<lparr>w_server := s'\<rparr>, es))"
proof -
  obtain r c' eng' es where ch: "consumer_helper (srv_num_tokens (w_server g)) (send_to_engine wr) c a fc
      (srv_engine_side (w_server g)) = (r, c', eng', es)" by (metis prod_cases4)
  have ids: "is_registration fc \<Longrightarrow> engine_ids eng' = engine_ids (srv_engine_side (w_server g))"
    using ch by (auto simp: consumer_helper_registration)
  show ?thesis
    using c ch ids l
    by (simp add: websocket_consume_def fc client_message_def handle_message_def websocket_world_def
        websocket_reply_def Let_def split: sum.split prod.split)
qed

section \<open>Reachable states\<close>

datatype websocket_event =
    OpenConnection address
  | Receive address bytes
  | CloseConnection address
  | WsServerEvent event
  | Launch

definition websocket_step ::
  "(bytes \<Rightarrow> from_client option) \<Rightarrow> engine_write \<Rightarrow> (address \<Rightarrow> bool) \<Rightarrow> (nat \<Rightarrow> bool) \<Rightarrow> websocket_server \<Rightarrow>
     websocket_event \<Rightarrow> websocket_server" where
  "websocket_step parse wr ok sinks g ev =
     (case ev of
        OpenConnection a \<Rightarrow> websocket_open g a
      | Receive a raw \<Rightarrow> fst (snd (websocket_message parse wr ok g a raw))
      | CloseConnection a \<Rightarrow> snd (websocket_close g a)
      | WsServerEvent sev \<Rightarrow>
          g\<lparr>w_server := fst (snd (server_event (websocket_world wr ok sinks g) (w_server g) sev))\<rparr>
      | Launch \<Rightarrow> websocket_launch g)"

definition websocket_enabled :: "websocket_server \<Rightarrow> websocket_event \<Rightarrow> bool" where
  "websocket_enabled g ev =
     (case ev of
        OpenConnection a \<Rightarrow> (\<forall>pid. owed (srv_engine_side (w_server g)) a pid = 0)
      | WsServerEvent sev \<Rightarrow> \<not> changes_clients sev \<and> enabled (w_server g) sev
      | _ \<Rightarrow> True)"

inductive websocket_reachable ::
  "(bytes \<Rightarrow> from_client option) \<Rightarrow> int \<Rightarrow> nat \<Rightarrow> websocket_server \<Rightarrow> bool" for parse N n where
  start: "websocket_reachable parse N n (new_websocket_server N n)"
| step: "websocket_reachable parse N n g \<Longrightarrow> websocket_enabled g ev \<Longrightarrow>
    websocket_reachable parse N n (websocket_step parse wr ok sinks g ev)"

definition ws_locks_match :: "websocket_server \<Rightarrow> bool" where
  "ws_locks_match g \<longleftrightarrow>
     (\<forall>a. a \<in> set (w_write_locks g) \<longleftrightarrow> dict_get (srv_clients (w_server g)) a \<noteq> None)"

definition ws_ok :: "int \<Rightarrow> nat \<Rightarrow> websocket_server \<Rightarrow> bool" where
  "ws_ok N n g \<longleftrightarrow> reachable any_event N n (w_server g) \<and> ws_locks_match g"

lemma ws_event_ok:
  assumes N: "0 \<le> N" and ok: "ws_ok N n g" and en: "enabled (w_server g) ev"
    and ch: "\<not> changes_clients ev"
    and g': "w_server g' = fst (snd (server_event W (w_server g) ev))" "w_write_locks g' = w_write_locks g"
  shows "ws_ok N n g'"
proof -
  obtain e s' es where se: "server_event W (w_server g) ev = (e, s', es)" by (metis prod_cases3)
  have r: "reachable any_event N n (w_server g)" using ok by (simp add: ws_ok_def)
  have "same_clients (w_server g) (w_server g')"
    using server_event_same [OF reachable_inv [OF r N] ch se] g'(1) se by simp
  then show ?thesis
    using reachable_event [OF r en, of W] g' ok by (simp add: ws_ok_def ws_locks_match_def same_clients_def)
qed

lemma websocket_close_ok:
  assumes "ws_ok N n g"
  shows "ws_ok N n (snd (websocket_close g a))"
proof -
  have r: "reachable any_event N n (w_server g)" using assms by (simp add: ws_ok_def)
  have "enabled (w_server g) (ClientDisconnect a)" by (simp add: enabled_def)
  from reachable_event [OF r this] assms show ?thesis
    by (auto simp: websocket_close_def ws_ok_def ws_locks_match_def server_event_def client_disconnect_def
        dict_get_del Let_def)
qed

lemma websocket_message_ok:
  assumes N: "0 \<le> N" and ok: "ws_ok N n g"
  shows "ws_ok N n (fst (snd (websocket_message parse wr w g a raw)))"
proof (cases "dict_get (srv_clients (w_server g)) a")
  case None
  with ok show ?thesis by (simp add: websocket_message_def)
next
  case (Some c)
  obtain e g1 es where cs: "websocket_consume parse wr w g a c raw = (e, g1, es)" by (metis prod_cases3)
  have "ws_ok N n g1"
  proof (cases "parse raw")
    case None
    with cs ok show ?thesis by (auto simp: websocket_consume_def)
  next
    case fc: (Some fc)
    have l: "a \<in> set (w_write_locks g)" using ok Some by (simp add: ws_ok_def ws_locks_match_def)
    from websocket_consume_common [where sinks = "\<lambda>_. True" and parse = parse and wr = wr and ok = w,
        OF Some l fc] cs
    have "w_server g1 = fst (snd (client_message (websocket_world wr w (\<lambda>_. True) g) (w_server g) a fc))"
      "w_write_locks g1 = w_write_locks g"
      by (auto simp: Let_def split_def)
    then show ?thesis
      by (intro ws_event_ok [OF N ok, where ev = "ClientMessage a fc"])
        (simp_all add: enabled_def changes_clients_def server_event_def)
  qed
  moreover have "fst (snd (websocket_message parse wr w g a raw)) \<in> {g1, snd (websocket_close g1 a)}"
    using Some cs by (simp add: websocket_message_def split: option.split prod.split)
  ultimately show ?thesis using websocket_close_ok by auto
qed

lemma websocket_step_ok:
  assumes N: "0 \<le> N" and ok: "ws_ok N n g" and en: "websocket_enabled g ev"
  shows "ws_ok N n (websocket_step parse wr w sinks g ev)"
proof (cases ev)
  case (OpenConnection a)
  have r: "reachable any_event N n (w_server g)" using ok by (simp add: ws_ok_def)
  have "enabled (w_server g) (ClientConnect a)"
    using en OpenConnection by (simp add: websocket_enabled_def enabled_def)
  from reachable_event [OF r this] ok OpenConnection show ?thesis
    by (auto simp: websocket_step_def websocket_open_def server_event_def ws_ok_def ws_locks_match_def
        client_connect_def)
next
  case (WsServerEvent sev)
  show ?thesis
    by (rule ws_event_ok [OF N ok, where ev = sev and W = "websocket_world wr w sinks g"])
      (use en in \<open>simp_all add: WsServerEvent websocket_step_def websocket_enabled_def\<close>)
qed (use ok websocket_message_ok [OF N ok] websocket_close_ok [OF ok] in
      \<open>simp_all add: websocket_step_def websocket_launch_def ws_ok_def ws_locks_match_def\<close>)


definition websocket_example :: websocket_server where
  "websocket_example = websocket_step (\<lambda>_. None) (\<lambda>_. True) (\<lambda>_. True) (\<lambda>_. True)
     (new_websocket_server 2 3) (OpenConnection ''a'')"


end
