(* ===== verification/Zeromq_Server.thy ===== *)
theory Zeromq_Server
  imports Server_Effects
begin

text \<open>
  \<open>zeromq_server.py\<close>: the ZeroMQ transport.  One task receives the messages of all clients from the
  ROUTER socket and queues them per client; one task per client consumes its queue and forgets the
  client after a silence.
\<close>

section \<open>State\<close>

text \<open>
  \<open>z_tasks\<close> are the addresses whose consumer task is alive.  An exception ends the task and leaves the
  client in \<open>_clients\<close>.
\<close>

record zeromq_server =
  z_server :: server
  z_tasks :: "address list"
  z_is_running :: bool
  z_simulate_disconnection :: bool
  z_endpoint :: string

definition new_zeromq_server :: "int \<Rightarrow> nat \<Rightarrow> zeromq_server" where
  "new_zeromq_server num_tokens maxlen =
     \<lparr>z_server = init_server num_tokens maxlen, z_tasks = [], z_is_running = False,
      z_simulate_disconnection = False, z_endpoint = []\<rparr>"

definition heartbeat :: bytes where
  "heartbeat = []"

definition hello_msg :: bytes where
  "hello_msg = ''Hello message''"

section \<open>The socket\<close>

definition zeromq_endpoint :: "string \<Rightarrow> bool \<Rightarrow> string" where
  "zeromq_endpoint port_or_path use_ipc =
     (if \<not> use_ipc then ''tcp://*:'' @ port_or_path else ''ipc://'' @ port_or_path)"

definition zeromq_launch :: "string \<Rightarrow> bool \<Rightarrow> zeromq_server \<Rightarrow> zeromq_server" where
  "zeromq_launch port_or_path use_ipc z =
     z\<lparr>z_endpoint := zeromq_endpoint port_or_path use_ipc, z_is_running := True\<rparr>"

definition zeromq_close_socket :: "zeromq_server \<Rightarrow> zeromq_server" where
  "zeromq_close_socket z = z\<lparr>z_simulate_disconnection := True\<rparr>"

definition zeromq_recreate_socket :: "zeromq_server \<Rightarrow> zeromq_server" where
  "zeromq_recreate_socket z = z\<lparr>z_simulate_disconnection := False\<rparr>"

text \<open>The ROUTER socket takes a message for any address; only the test hook makes a send fail.\<close>

definition zeromq_send :: "bool \<Rightarrow> transport" where
  "zeromq_send simulate_disconnection cs a m =
     (if simulate_disconnection then (False, []) else (True, [SendClient a m]))"

interpretation zeromq_transport: transport "zeromq_send sim" for sim
  by unfold_locales (simp add: zeromq_send_def)

section \<open>Receiving\<close>

text \<open>
  One message received by \<open>_client_handler\<close>: an unknown address becomes a new client with its own
  consumer task; the greeting is dropped, everything else is queued.
\<close>

definition zeromq_register :: "zeromq_server \<Rightarrow> address \<Rightarrow> zeromq_server" where
  "zeromq_register z a =
     (case dict_get (srv_clients (z_server z)) a of
        Some _ \<Rightarrow> z
      | None \<Rightarrow> z\<lparr>z_server := client_connect (z_server z) a, z_tasks := List.insert a (z_tasks z)\<rparr>)"

definition zeromq_receive :: "zeromq_server \<Rightarrow> address \<Rightarrow> bytes \<Rightarrow> zeromq_server" where
  "zeromq_receive z a raw_input =
     (if \<not> z_is_running z \<or> z_simulate_disconnection z then z
      else let z1 = zeromq_register z a
           in if raw_input = hello_msg then z1
              else z1\<lparr>z_server := enqueue_input (z_server z1) a raw_input\<rparr>)"

section \<open>Consuming\<close>

text \<open>
  \<open>ok\<close> says whether a send on the socket goes through.  A heartbeat is the empty message, which is also
  the encoding of a \<open>ToClient\<close> with nothing set.
\<close>

definition zeromq_reply ::
  "(address \<Rightarrow> bool) \<Rightarrow> zeromq_server \<Rightarrow> address \<Rightarrow> to_client \<Rightarrow> effect list \<Rightarrow>
     py_exn option \<times> zeromq_server \<times> effect list" where
  "zeromq_reply ok z a m es =
     (if ok a then (None, z, es @ [SendClient a m]) else (Some RpcWriteError, z, es))"

text \<open>The body of the loop of \<open>_consumer\<close> after a message has been taken from the queue.\<close>

definition zeromq_handle ::
  "(bytes \<Rightarrow> from_client option) \<Rightarrow> engine_write \<Rightarrow> (address \<Rightarrow> bool) \<Rightarrow> zeromq_server \<Rightarrow> address \<Rightarrow>
     client \<Rightarrow> bytes \<Rightarrow> py_exn option \<times> zeromq_server \<times> effect list" where
  "zeromq_handle parse wr ok z a c raw_input =
     (if raw_input = heartbeat then zeromq_reply ok z a ToClientUnset []
      else case parse raw_input of
        None \<Rightarrow> (None, z, [])
      | Some from_client \<Rightarrow>
          (let s = z_server z;
               (r, c', eng', es) = consumer_helper (srv_num_tokens s) (send_to_engine wr) c a from_client
                 (srv_engine_side s);
               upd = (\<lambda>d. z\<lparr>z_server := s\<lparr>srv_engine_side := eng',
                        srv_clients := dict_set a d (srv_clients s)\<rparr>\<rparr>)
           in case r of
                Inl e \<Rightarrow> (Some e, upd c', es)
              | Inr (st, msg) \<Rightarrow>
                  (if st = SUCCESS
                   then if is_registration from_client
                        then zeromq_reply ok (upd c') a
                               (make_registered (srv_num_tokens s) (engine_ids eng')) es
                        else (case deduct_token c' (in_producer_id (input_of from_client)) of
                                Inl e \<Rightarrow> (Some e, upd c', es)
                              | Inr c'' \<Rightarrow> (None, upd c'', es))
                   else if \<not> status_code_has_name st then (Some ValueError, upd c', es)
                   else zeromq_reply ok (upd c') a (make_error_response from_client st msg) es)))"

text \<open>One turn of the consumer task of an address; an exception ends the task.\<close>

definition zeromq_consume ::
  "(bytes \<Rightarrow> from_client option) \<Rightarrow> engine_write \<Rightarrow> (address \<Rightarrow> bool) \<Rightarrow> zeromq_server \<Rightarrow> address \<Rightarrow>
     py_exn option \<times> zeromq_server \<times> effect list" where
  "zeromq_consume parse wr ok z a =
     (if a \<notin> set (z_tasks z) then (None, z, [])
      else case dict_get (srv_clients (z_server z)) a of
        None \<Rightarrow> (None, z\<lparr>z_tasks := removeAll a (z_tasks z)\<rparr>, [])
      | Some c \<Rightarrow>
          (case client_inputs c of
             [] \<Rightarrow> (None, z, [])
           | raw_input # rest \<Rightarrow>
               (let z1 = z\<lparr>z_server := dequeue_input (z_server z) a\<rparr>;
                    (e, z2, es) = zeromq_handle parse wr ok z1 a (c\<lparr>client_inputs := rest\<rparr>) raw_input
                in case e of
                     None \<Rightarrow> (None, z2, es)
                   | Some x \<Rightarrow> (Some x, z2\<lparr>z_tasks := removeAll a (z_tasks z2)\<rparr>, es))))"

text \<open>The consumer's wait runs into its timeout: the client is forgotten and the task ends.\<close>

definition zeromq_timeout :: "zeromq_server \<Rightarrow> address \<Rightarrow> zeromq_server" where
  "zeromq_timeout z a =
     (if a \<in> set (z_tasks z) \<and> (case dict_get (srv_clients (z_server z)) a of
           None \<Rightarrow> False | Some c \<Rightarrow> client_inputs c = [])
      then z\<lparr>z_server := client_disconnect (z_server z) a, z_tasks := removeAll a (z_tasks z)\<rparr>
      else z)"

section \<open>The handler is the common one\<close>

definition zeromq_world ::
  "engine_write \<Rightarrow> (address \<Rightarrow> bool) \<Rightarrow> (nat \<Rightarrow> bool) \<Rightarrow> zeromq_server \<Rightarrow> world" where
  "zeromq_world wr ok sinks z =
     \<lparr>engine_write = wr, send_via_transport = zeromq_send (z_simulate_disconnection z), sink_ok = sinks,
      client_write = (\<lambda>a. if ok a then Written else Failed)\<rparr>"

lemma zeromq_handle_common:
  assumes c: "dict_get (srv_clients (z_server z)) a = Some c" and "raw \<noteq> heartbeat"
    and fc: "parse raw = Some fc"
  shows "zeromq_handle parse wr ok z a c raw =
    (let (e, s', es) = client_message (zeromq_world wr ok sinks z) (z_server z) a fc
     in (e, z\<lparr>z_server := s'\<rparr>, es))"
proof -
  obtain r c' eng' es where ch: "consumer_helper (srv_num_tokens (z_server z)) (send_to_engine wr) c a fc
      (srv_engine_side (z_server z)) = (r, c', eng', es)" by (metis prod_cases4)
  have ids: "is_registration fc \<Longrightarrow> engine_ids eng' = engine_ids (srv_engine_side (z_server z))"
    using ch by (auto simp: consumer_helper_registration)
  have named: "status_code_has_name st" if "r = Inr (st, msg)" for st msg
    using consumer_helper_named ch that by blast
  show ?thesis
    using c ch ids named assms(2)
    by (simp add: zeromq_handle_def fc client_message_def handle_message_def zeromq_world_def
        zeromq_reply_def Let_def split: sum.split prod.split)
qed

section \<open>Reachable states\<close>

datatype zeromq_event =
    ZReceive address bytes
  | ZConsume address
  | ZTimeout address
  | ZServerEvent event
  | ZLaunch string bool
  | ZCloseSocket
  | ZRecreateSocket

definition zeromq_step ::
  "(bytes \<Rightarrow> from_client option) \<Rightarrow> engine_write \<Rightarrow> (address \<Rightarrow> bool) \<Rightarrow> (nat \<Rightarrow> bool) \<Rightarrow> zeromq_server \<Rightarrow>
     zeromq_event \<Rightarrow> zeromq_server" where
  "zeromq_step parse wr ok sinks z ev =
     (case ev of
        ZReceive a raw \<Rightarrow> zeromq_receive z a raw
      | ZConsume a \<Rightarrow> fst (snd (zeromq_consume parse wr ok z a))
      | ZTimeout a \<Rightarrow> zeromq_timeout z a
      | ZServerEvent sev \<Rightarrow>
          z\<lparr>z_server := fst (snd (server_event (zeromq_world wr ok sinks z) (z_server z) sev))\<rparr>
      | ZLaunch port_or_path use_ipc \<Rightarrow> zeromq_launch port_or_path use_ipc z
      | ZCloseSocket \<Rightarrow> zeromq_close_socket z
      | ZRecreateSocket \<Rightarrow> zeromq_recreate_socket z)"

text \<open>
  A client is only greeted as new when no input of an earlier session under its address is left with
  the engines; without this condition tokens can be credited twice.
\<close>

definition zeromq_enabled :: "zeromq_server \<Rightarrow> zeromq_event \<Rightarrow> bool" where
  "zeromq_enabled z ev =
     (case ev of
        ZReceive a _ \<Rightarrow> dict_get (srv_clients (z_server z)) a = None \<longrightarrow>
          (\<forall>pid. owed (srv_engine_side (z_server z)) a pid = 0)
      | ZServerEvent sev \<Rightarrow> \<not> changes_clients sev \<and> enabled (z_server z) sev
      | _ \<Rightarrow> True)"

inductive zeromq_reachable ::
  "(bytes \<Rightarrow> from_client option) \<Rightarrow> int \<Rightarrow> nat \<Rightarrow> zeromq_server \<Rightarrow> bool" for parse N n where
  start: "zeromq_reachable parse N n (new_zeromq_server N n)"
| step: "zeromq_reachable parse N n z \<Longrightarrow> zeromq_enabled z ev \<Longrightarrow>
    zeromq_reachable parse N n (zeromq_step parse wr ok sinks z ev)"

text \<open>Every live consumer task belongs to a known client.\<close>

definition z_ok :: "int \<Rightarrow> nat \<Rightarrow> zeromq_server \<Rightarrow> bool" where
  "z_ok N n z \<longleftrightarrow> reachable any_event N n (z_server z) \<and>
     (\<forall>a \<in> set (z_tasks z). dict_get (srv_clients (z_server z)) a \<noteq> None)"

lemma z_event_ok:
  assumes N: "0 \<le> N" and ok: "z_ok N n z" and en: "enabled (z_server z) ev"
    and ch: "\<not> changes_clients ev"
    and z': "z_server z' = fst (snd (server_event W (z_server z) ev))" "set (z_tasks z') \<subseteq> set (z_tasks z)"
  shows "z_ok N n z'"
proof -
  obtain e s' es where se: "server_event W (z_server z) ev = (e, s', es)" by (metis prod_cases3)
  have r: "reachable any_event N n (z_server z)" using ok by (simp add: z_ok_def)
  have "same_clients (z_server z) (z_server z')"
    using server_event_same [OF reachable_inv [OF r N] ch se] z'(1) se by simp
  then have "dict_get (srv_clients (z_server z')) a \<noteq> None" if "a \<in> set (z_tasks z')" for a
    using ok subsetD [OF z'(2) that] by (simp add: same_clients_def z_ok_def)
  then show ?thesis using reachable_event [OF r en, of W] z'(1) by (simp add: z_ok_def)
qed

lemma zeromq_receive_ok:
  assumes N: "0 \<le> N" and ok: "z_ok N n z" and en: "zeromq_enabled z (ZReceive a raw)"
  shows "z_ok N n (zeromq_receive z a raw)"
proof -
  have r: "reachable any_event N n (z_server z)" using ok by (simp add: z_ok_def)
  have z1: "z_ok N n (zeromq_register z a)"
  proof (cases "dict_get (srv_clients (z_server z)) a")
    case (Some c)
    with ok show ?thesis by (simp add: zeromq_register_def)
  next
    case None
    then have "enabled (z_server z) (ClientConnect a)"
      using en by (simp add: zeromq_enabled_def enabled_def)
    from reachable_event [OF r this] ok None show ?thesis
      by (auto simp: zeromq_register_def z_ok_def server_event_def client_connect_def)
  qed
  have "z_ok N n ((zeromq_register z a)\<lparr>z_server := enqueue_input (z_server (zeromq_register z a)) a raw\<rparr>)"
    by (rule z_event_ok [OF N z1, where ev = "ClientEnqueue a raw"])
      (simp_all add: enabled_def changes_clients_def server_event_def)
  with z1 ok show ?thesis by (simp add: zeromq_receive_def Let_def)
qed

lemma zeromq_handle_ok:
  assumes N: "0 \<le> N" and ok: "z_ok N n z" and c: "dict_get (srv_clients (z_server z)) a = Some c"
  shows "z_ok N n (fst (snd (zeromq_handle parse wr w z a c raw))) \<and>
    z_tasks (fst (snd (zeromq_handle parse wr w z a c raw))) = z_tasks z"
proof (cases "raw = heartbeat \<or> parse raw = None")
  case True
  with ok show ?thesis by (auto simp: zeromq_handle_def zeromq_reply_def)
next
  case False
  then obtain fc where fc: "parse raw = Some fc" and nh: "raw \<noteq> heartbeat" by auto
  let ?W = "zeromq_world wr w (\<lambda>_. True) z"
  have h: "fst (snd (zeromq_handle parse wr w z a c raw)) =
      z\<lparr>z_server := fst (snd (client_message ?W (z_server z) a fc))\<rparr>"
    using zeromq_handle_common [where parse = parse and wr = wr and ok = w and sinks = "\<lambda>_. True", OF c nh fc]
    by (simp add: Let_def split_def)
  have "z_ok N n (z\<lparr>z_server := fst (snd (client_message ?W (z_server z) a fc))\<rparr>)"
    by (rule z_event_ok [OF N ok, where ev = "ClientMessage a fc" and W = ?W])
      (simp_all add: enabled_def changes_clients_def server_event_def)
  then show ?thesis by (simp add: h)
qed

lemma zeromq_consume_ok:
  assumes N: "0 \<le> N" and ok: "z_ok N n z"
  shows "z_ok N n (fst (snd (zeromq_consume parse wr w z a)))"
proof (cases "a \<in> set (z_tasks z) \<and> (\<exists>c raw rest. dict_get (srv_clients (z_server z)) a = Some c \<and>
    client_inputs c = raw # rest)")
  case False
  with ok show ?thesis
    by (auto simp: zeromq_consume_def z_ok_def split: option.split list.split)
next
  case True
  then obtain c raw rest where a: "a \<in> set (z_tasks z)" and c: "dict_get (srv_clients (z_server z)) a = Some c"
    and q: "client_inputs c = raw # rest" by blast
  let ?z1 = "z\<lparr>z_server := dequeue_input (z_server z) a\<rparr>"
  have z1: "z_ok N n ?z1"
    by (rule z_event_ok [OF N ok, where ev = "ClientDequeue a"])
      (simp_all add: enabled_def changes_clients_def server_event_def)
  have c1: "dict_get (srv_clients (z_server ?z1)) a = Some (c\<lparr>client_inputs := rest\<rparr>)"
    using c q by (simp add: dequeue_input_def)
  obtain e z2 es where h: "zeromq_handle parse wr w ?z1 a (c\<lparr>client_inputs := rest\<rparr>) raw = (e, z2, es)"
    by (metis prod_cases3)
  have "z_ok N n z2" using zeromq_handle_ok [OF N z1 c1, of parse wr w raw] h by simp
  moreover have "fst (snd (zeromq_consume parse wr w z a)) \<in> {z2, z2\<lparr>z_tasks := removeAll a (z_tasks z2)\<rparr>}"
    using a c q h by (simp add: zeromq_consume_def Let_def split: option.split)
  ultimately show ?thesis by (auto simp: z_ok_def)
qed

lemma zeromq_timeout_ok:
  assumes ok: "z_ok N n z"
  shows "z_ok N n (zeromq_timeout z a)"
proof -
  have r: "reachable any_event N n (z_server z)" using ok by (simp add: z_ok_def)
  have "enabled (z_server z) (ClientDisconnect a)" by (simp add: enabled_def)
  from reachable_event [OF r this] ok show ?thesis
    by (auto simp: zeromq_timeout_def z_ok_def server_event_def client_disconnect_def dict_get_del)
qed


definition zeromq_example :: zeromq_server where
  "zeromq_example = zeromq_step (\<lambda>_. None) (\<lambda>_. True) (\<lambda>_. True) (\<lambda>_. True)
     (zeromq_step (\<lambda>_. None) (\<lambda>_. True) (\<lambda>_. True) (\<lambda>_. True) (new_zeromq_server 2 3) (ZLaunch ''9099'' False))
     (ZReceive ''a'' hello_msg)"


end
