(* ===== verification/Server_Main.thy ===== *)
theory Server_Main
  imports Tls_Utils Server_Runner Grpc_Server Websocket_Server Zeromq_Server
begin

text \<open>
  \<open>main.py\<close>, \<open>ServerRunner\<close> and the start of \<open>_Server.launch_async\<close>: how the command line becomes a
  server with a client-facing and an engine-facing listener.  \<open>argparse\<close> is the standard library's; its
  result is the record \<open>args\<close>.
\<close>

section \<open>The command line\<close>

datatype client_transport = ZEROMQ | WEBSOCKET | GRPC

definition transport_of_value :: "string \<Rightarrow> py_exn + client_transport" where
  "transport_of_value v =
     (if v = ''zeromq'' then Inr ZEROMQ
      else if v = ''websocket'' then Inr WEBSOCKET
      else if v = ''grpc'' then Inr GRPC
      else Inl ValueError)"

record args =
  arg_tokens :: int
  arg_client_port :: int
  arg_client_path :: "string option"
  arg_queue :: int
  arg_transport :: string
  arg_engine_port :: int
  arg_engine_path :: "string option"
  arg_tls_cert :: "string option"
  arg_tls_key :: "string option"
  arg_tls_client_ca_cert :: "string option"
  arg_prometheus_port :: int
  arg_http2_stream_window_bytes :: "int option"

text \<open>The namespace that an empty command line gives.\<close>

definition default_args :: args where
  "default_args =
     \<lparr>arg_tokens = 2, arg_client_port = 9099, arg_client_path = None, arg_queue = 60,
      arg_transport = ''grpc'', arg_engine_port = 5555, arg_engine_path = None, arg_tls_cert = None,
      arg_tls_key = None, arg_tls_client_ca_cert = None, arg_prometheus_port = 8000,
      arg_http2_stream_window_bytes = None\<rparr>"

text \<open>A port and a path exclude each other; a port counts as given unless it is zero.\<close>

definition choose_endpoint :: "int \<Rightarrow> string option \<Rightarrow> py_exn + (endpoint \<times> bool)" where
  "choose_endpoint port path =
     (if port \<noteq> 0 \<and> given path then Inl ValueError
      else Inr (case path of
                  Some p \<Rightarrow> (if p \<noteq> [] then (Path p, True) else (Port port, False))
                | None \<Rightarrow> (Port port, False)))"

record server_runner =
  sr_client_endpoint :: endpoint
  sr_engine_endpoint :: endpoint
  sr_num_tokens :: int
  sr_input_queue_maxsize :: int
  sr_message_max_size :: "int option"
  sr_client_transport :: client_transport
  sr_prometheus_port :: int
  sr_use_client_ipc :: bool
  sr_use_engine_ipc :: bool
  sr_tls_cert :: "string option"
  sr_tls_key :: "string option"
  sr_tls_client_ca_cert :: "string option"
  sr_http2_stream_window_bytes :: "int option"

definition main_runner :: "args \<Rightarrow> py_exn + server_runner" where
  "main_runner a =
     (case choose_endpoint (arg_client_port a) (arg_client_path a) of
        Inl e \<Rightarrow> Inl e
      | Inr (client_endpoint, use_client_ipc) \<Rightarrow>
          (case choose_endpoint (arg_engine_port a) (arg_engine_path a) of
             Inl e \<Rightarrow> Inl e
           | Inr (engine_endpoint, use_engine_ipc) \<Rightarrow>
               (case transport_of_value (arg_transport a) of
                  Inl e \<Rightarrow> Inl e
                | Inr tr \<Rightarrow>
                    Inr \<lparr>sr_client_endpoint = client_endpoint, sr_engine_endpoint = engine_endpoint,
                      sr_num_tokens = arg_tokens a, sr_input_queue_maxsize = arg_queue a,
                      sr_message_max_size = None, sr_client_transport = tr,
                      sr_prometheus_port = arg_prometheus_port a, sr_use_client_ipc = use_client_ipc,
                      sr_use_engine_ipc = use_engine_ipc, sr_tls_cert = arg_tls_cert a,
                      sr_tls_key = arg_tls_key a, sr_tls_client_ca_cert = arg_tls_client_ca_cert a,
                      sr_http2_stream_window_bytes = arg_http2_stream_window_bytes a\<rparr>)))"

section \<open>The listeners\<close>

record grpc_port =
  gp_target :: string
  gp_options :: "(string \<times> int) list"
  gp_credentials :: "server_credentials option"

definition engine_server_options :: "int option \<Rightarrow> (string \<times> int) list" where
  "engine_server_options message_max_size =
     [(''grpc.http2.min_ping_interval_without_data_ms'', 5000), (''grpc.http2.max_pings_without_data'', 0),
      (''grpc.keepalive_time_ms'', 10000), (''grpc.keepalive_timeout_ms'', 5000),
      (''grpc.keepalive_permit_without_calls'', 1)] @
     (case message_max_size of
        None \<Rightarrow> []
      | Some b \<Rightarrow> [(''grpc.max_send_message_length'', b), (''grpc.max_receive_message_length'', b)])"

definition engine_server_target :: "endpoint \<Rightarrow> bool \<Rightarrow> string" where
  "engine_server_target ep use_ipc =
     (if use_ipc then ''unix://'' @ endpoint_text ep else ''[::]:'' @ endpoint_text ep)"

text \<open>The engine-facing gRPC server of \<open>_Server.launch_async\<close>.\<close>

definition launch_engine_server :: "(string \<Rightarrow> bytes option) \<Rightarrow> server_runner \<Rightarrow> py_exn + grpc_port" where
  "launch_engine_server read_file r =
     (case build_server_credentials read_file (sr_tls_cert r) (sr_tls_key r) (sr_tls_client_ca_cert r) of
        Inl e \<Rightarrow> Inl e
      | Inr creds \<Rightarrow>
          Inr \<lparr>gp_target = engine_server_target (sr_engine_endpoint r) (sr_use_engine_ipc r),
               gp_options = engine_server_options (sr_message_max_size r), gp_credentials = creds\<rparr>)"

text \<open>The client-facing server that \<open>_Server.__init__\<close> chooses, as its \<open>launch_async\<close> binds it.\<close>

datatype client_listener =
    GrpcListener grpc_port
  | WebsocketListener listener
  | ZeromqListener string

definition launch_client_server ::
  "(string \<Rightarrow> bytes option) \<Rightarrow> server_runner \<Rightarrow> py_exn + client_listener" where
  "launch_client_server read_file r =
     (let ep = endpoint_text (sr_client_endpoint r); ipc = sr_use_client_ipc r
      in case sr_client_transport r of
           GRPC \<Rightarrow>
             (case build_server_credentials read_file (sr_tls_cert r) (sr_tls_key r) (sr_tls_client_ca_cert r) of
                Inl e \<Rightarrow> Inl e
              | Inr creds \<Rightarrow>
                  Inr (GrpcListener
                    \<lparr>gp_target = grpc_server_target ep ipc,
                     gp_options = grpc_server_options (sr_http2_stream_window_bytes r) (sr_message_max_size r),
                     gp_credentials = creds\<rparr>))
         | WEBSOCKET \<Rightarrow> Inr (WebsocketListener (get_server ep (sr_message_max_size r) ipc))
         | ZEROMQ \<Rightarrow> Inr (ZeromqListener (zeromq_endpoint ep ipc)))"

text \<open>The listener of a local engine's server: \<open>LocalEngine.run_async\<close> and \<open>_LocalServer.__init__\<close>.\<close>

definition launch_local_listener :: "bool \<Rightarrow> int \<Rightarrow> string option \<Rightarrow> int option \<Rightarrow> client_listener" where
  "launch_local_listener use_zeromq port ipc_path message_max_size =
     (let ep = (if given ipc_path then the ipc_path else str_int port); use_ipc = (ipc_path \<noteq> None)
      in if use_zeromq then ZeromqListener (zeromq_endpoint ep use_ipc)
         else WebsocketListener (get_server ep message_max_size use_ipc))"

section \<open>Properties\<close>

text \<open>The two gRPC listeners of one server are secured alike.\<close>

lemma listeners_secured_alike:
  assumes "launch_engine_server read_file r = Inr p" and "launch_client_server read_file r = Inr (GrpcListener q)"
  shows "gp_credentials p = gp_credentials q"
  using assms
  by (auto simp: launch_engine_server_def launch_client_server_def Let_def
      split: sum.splits client_transport.splits)

lemma path_needs_port_zero:
  assumes "main_runner a = Inr r"
  shows "given (arg_client_path a) \<Longrightarrow> arg_client_port a = 0" and "given (arg_engine_path a) \<Longrightarrow> arg_engine_port a = 0"
  using assms by (auto simp: main_runner_def choose_endpoint_def split: sum.splits if_splits)

text \<open>
  The path options clash with the default ports.  Giving a path for the client endpoint or for the
  engine endpoint, and nothing else, is always rejected: the port has a non-zero default, and a port
  together with a path raises \<open>ValueError\<close>.
\<close>

theorem path_options_rejected:
  assumes "p \<noteq> []"
  shows "main_runner (default_args\<lparr>arg_client_path := Some p\<rparr>) = Inl ValueError \<and>
    main_runner (default_args\<lparr>arg_engine_path := Some p\<rparr>) = Inl ValueError \<and>
    (\<exists>r. main_runner (default_args\<lparr>arg_client_path := Some p, arg_client_port := 0\<rparr>) = Inr r \<and>
       sr_client_endpoint r = Path p \<and> sr_use_client_ipc r)"
  using assms
  by (simp add: main_runner_def choose_endpoint_def default_args_def given_def transport_of_value_def)

theorem path_options_rejected_witness:
  "main_runner (default_args\<lparr>arg_client_path := Some ''/tmp/gabriel''\<rparr>) = Inl ValueError"
  using path_options_rejected [of "''/tmp/gabriel''"] by blast

end
