(* ===== verification/Server_Properties.thy ===== *)
theory Server_Properties
  imports Server_Effects
begin

text \<open>
  The properties of the networked server over its reachable states: token flow control, the
  in-flight input of a producer, engine results, registration and disconnection.  The examples at
  the start give the concrete runs on which the properties are exercised.
\<close>

section \<open>Concrete runs\<close>

text \<open>A run of events in one world, none of which is a client connection.\<close>

fun run :: "world \<Rightarrow> server \<Rightarrow> event list \<Rightarrow> server" where
  "run W s [] = s"
| "run W s (ev # evs) = run W (fst (snd (server_event W s ev))) evs"

definition plain_event :: "server \<Rightarrow> event \<Rightarrow> bool" where
  "plain_event s ev =
     (case ev of
        ClientConnect _ \<Rightarrow> False
      | EngineStart c _ \<Rightarrow> c \<notin> fst ` set (engine_workers (srv_engine_side s))
      | _ \<Rightarrow> True)"

fun run_ok :: "(server \<Rightarrow> event \<Rightarrow> bool) \<Rightarrow> world \<Rightarrow> server \<Rightarrow> event list \<Rightarrow> bool" where
  "run_ok ok W s [] = True"
| "run_ok ok W s (ev # evs) =
     (plain_event s ev \<and> ok s ev \<and> run_ok ok W (fst (snd (server_event W s ev))) evs)"

lemma run_append: "run W s (evs @ evs') = run W (run W s evs) evs'"
  by (induction evs arbitrary: s) auto

lemma plain_event_enabled: "plain_event s ev \<Longrightarrow> enabled s ev"
  by (simp add: plain_event_def enabled_def split: event.splits)

lemma reachable_run:
  "reachable ok N n s \<Longrightarrow> run_ok ok W s evs \<Longrightarrow> reachable ok N n (run W s evs)"
proof (induction evs arbitrary: s)
  case (Cons ev evs)
  obtain e s' es where se: "server_event W s ev = (e, s', es)" by (metis prod_cases3)
  have "reachable ok N n s'"
    by (rule reachable.step [OF Cons.prems(1) _ _ se]) (use Cons.prems(2) plain_event_enabled in auto)
  with Cons se show ?case by simp
qed simp

text \<open>All writes go through.\<close>

definition calm :: world where
  "calm = \<lparr>engine_write = (\<lambda>_. True), send_via_transport = (\<lambda>cs a m. (True, [SendClient a m])),
     sink_ok = (\<lambda>_. True), client_write = (\<lambda>_. Written)\<rparr>"

lemma calm_transport: "transport (send_via_transport calm)"
  by unfold_locales (simp add: calm_def)

lemma reachable_connected:
  assumes "ok (init_server N n) (ClientConnect a)"
  shows "reachable ok N n (client_connect (init_server N n) a)"
proof -
  have "enabled (init_server N n) (ClientConnect a)"
    by (simp add: enabled_def owed_def init_server_def)
  from reachable.step [where ok = ok and W = calm, OF reachable.start this assms] show ?thesis
    by (simp add: server_event_def)
qed

definition frame :: "int \<Rightarrow> engine_id list \<Rightarrow> from_client" where
  "frame i ids = Input \<lparr>in_frame_id = i, in_producer_id = ''cam'', in_target_engine_ids = ids,
     in_input_frame = default_input_frame\<rparr>"

definition one_engine :: "event list" where
  "one_engine = [EngineStart 1 (Some (Register ''e1'' False)), ClientMessage ''c'' (Registration None)]"

definition two_engines :: "event list" where
  "two_engines = one_engine @ [EngineStart 2 (Some (Register ''e2'' False))]"

definition demo :: "event list \<Rightarrow> server" where
  "demo evs = run calm (client_connect (init_server 2 3) ''c'') evs"

lemma reachable_demo:
  assumes "ok (init_server 2 3) (ClientConnect ''c'')"
    and "run_ok ok calm (client_connect (init_server 2 3) ''c'') evs"
  shows "reachable ok 2 3 (demo evs)"
  unfolding demo_def by (rule reachable_run [OF reachable_connected [where ok = ok, OF assms(1)] assms(2)])

text \<open>The first frame goes to an idle engine.\<close>

definition first_frame :: "event list" where
  "first_frame = one_engine @ [ClientMessage ''c'' (frame 1 [''e1''])]"

lemma first_frame_ok:
  "run_ok at_most_one_engine calm (client_connect (init_server 2 3) ''c'') first_frame"
  by code_simp

lemma run_ok_any: "run_ok ok W s evs \<Longrightarrow> run_ok any_event W s evs"
  by (induction evs arbitrary: s) (auto simp: any_event_def)

lemma demo_reachable:
  "run_ok ok calm (client_connect (init_server 2 3) ''c'') evs \<Longrightarrow> reachable any_event 2 3 (demo evs)"
  by (rule reachable_demo) (simp_all add: any_event_def run_ok_any)

definition demo_client :: "event list \<Rightarrow> client" where
  "demo_client evs = the (dict_get (srv_clients (demo evs)) ''c'')"

lemma demo_clientI:
  "dict_get (srv_clients (demo evs)) ''c'' \<noteq> None \<Longrightarrow>
     dict_get (srv_clients (demo evs)) ''c'' = Some (demo_client evs)"
  by (auto simp: demo_client_def)

text \<open>Two frames: the second waits in the queue.\<close>

definition second_frame :: "event list" where
  "second_frame = first_frame @ [ClientMessage ''c'' (frame 2 [''e1''])]"

lemma second_frame_ok:
  "run_ok at_most_one_engine calm (client_connect (init_server 2 3) ''c'') second_frame"
  by code_simp

section \<open>Flow control\<close>

text \<open>
  C1. Token safety.  In every reachable state every connected client has, for each of its producers,
  between zero and \<open>N\<close> tokens, and the tokens plus the inputs whose token the engine side still owes
  never exceed \<open>N\<close>: the server neither hands out more tokens than configured nor drives a count
  below zero.
\<close>

theorem tokens_within_allotment:
  assumes "0 \<le> N" and "reachable any_event N n s" and "dict_get (srv_clients s) a = Some c"
  shows "0 \<le> tokens_of N c pid \<and>
    tokens_of N c pid + int (owed (srv_engine_side s) a pid) \<le> N"
  using server_invD(4) [OF reachable_inv [OF assms(2,1)]] assms(3)
  unfolding clients_ok_def books_sound_def by blast

theorem tokens_within_allotment_witness:
  "tokens_of 2 (demo_client first_frame) ''cam'' = 1 \<and>
   owed (srv_engine_side (demo first_frame)) ''c'' ''cam'' = 1 \<and>
   (0::int) \<le> 1 \<and> (1::int) + int 1 \<le> 2"
proof -
  have "dict_get (srv_clients (demo first_frame)) ''c'' \<noteq> None" by code_simp
  note c = demo_clientI [OF this]
  have "tokens_of 2 (demo_client first_frame) ''cam'' = 1"
    and "owed (srv_engine_side (demo first_frame)) ''c'' ''cam'' = 1"
    by code_simp+
  then show ?thesis
    using tokens_within_allotment [OF _ demo_reachable [OF first_frame_ok] c, of "''cam''"] by simp
qed



text \<open>
  C4. The server implements the abstract account.  While a client stays connected, whatever event
  the server handles moves the account of each of its producers (tokens, owed inputs) only by
  charging a token for an accepted input, giving a token back against an owed input, or forfeiting
  an owed input.
\<close>

theorem server_refines_accounts:
  assumes "0 \<le> N" and "reachable any_event N n s" and "enabled s ev"
    and "server_event W s ev = (e, s', es)" and "ev \<noteq> ClientConnect a"
    and "dict_get (srv_clients s) a = Some c" and "dict_get (srv_clients s') a = Some c'"
  shows "account_step\<^sup>*\<^sup>* (tokens_of N c pid, owed (srv_engine_side s) a pid)
    (tokens_of N c' pid, owed (srv_engine_side s') a pid)"
proof -
  define R where "R b p t k \<longleftrightarrow>
    (b = a \<longrightarrow> account_step\<^sup>*\<^sup>* (tokens_of N c p, owed (srv_engine_side s) a p) (t, k))" for b p t k
  have cl: "charge_closed (R b) \<and> give_back_closed (R b) \<and> forfeit_closed (R b)" for b
    using closed_reach [where f = "\<lambda>p. (tokens_of N c p, owed (srv_engine_side s) a p)"]
    by (simp add: R_def charge_closed_def give_back_closed_def forfeit_closed_def)
  have "books_keep (R b) N d (owed (srv_engine_side s) b)" if "dict_get (srv_clients s) b = Some d" for b d
    using that assms(6) by (auto simp: books_keep_def R_def simp del: map_of_eq_Some_iff)
  then have "server_inv R N n s"
    using reachable_inv [OF assms(2,1)] cl unfolding server_inv_def clients_ok_def by blast
  then have "server_inv R N n s'"
    using server_event_inv [OF _ assms(1,3) _ _ assms(4), of R n] cl assms(5)
    by (auto simp: R_def)
  from server_invD(4) [OF this] assms(7) show ?thesis
    by (auto simp: clients_ok_def books_keep_def R_def simp del: map_of_eq_Some_iff)
qed

theorem server_refines_accounts_witness:
  "account_step\<^sup>*\<^sup>*
     (tokens_of 2 (demo_client first_frame) ''cam'', owed (srv_engine_side (demo first_frame)) ''c'' ''cam'')
     (tokens_of 2 (demo_client second_frame) ''cam'', owed (srv_engine_side (demo second_frame)) ''c'' ''cam'')
   \<and> tokens_of 2 (demo_client first_frame) ''cam'' = 1
   \<and> tokens_of 2 (demo_client second_frame) ''cam'' = 0"
proof -
  let ?ev = "ClientMessage ''c'' (frame 2 [''e1''])"
  obtain e s' es where se: "server_event calm (demo first_frame) ?ev = (e, s', es)" by (metis prod_cases3)
  have s': "demo second_frame = s'"
    using se by (simp add: demo_def second_frame_def run_append)
  have "dict_get (srv_clients (demo first_frame)) ''c'' \<noteq> None"
    "dict_get (srv_clients (demo second_frame)) ''c'' \<noteq> None" by code_simp+
  note c = this [THEN demo_clientI]
  have "account_step\<^sup>*\<^sup>*
     (tokens_of 2 (demo_client first_frame) ''cam'', owed (srv_engine_side (demo first_frame)) ''c'' ''cam'')
     (tokens_of 2 (demo_client second_frame) ''cam'', owed (srv_engine_side (demo second_frame)) ''c'' ''cam'')"
    unfolding s'
    by (rule server_refines_accounts [OF _ demo_reachable [OF first_frame_ok] _ se _ c(1) c(2) [unfolded s']])
      (simp_all add: enabled_def)
  moreover have "tokens_of 2 (demo_client first_frame) ''cam'' = 1"
    "tokens_of 2 (demo_client second_frame) ''cam'' = 0" by code_simp+
  ultimately show ?thesis by blast
qed


definition demo_producer :: "event list \<Rightarrow> producer_info" where
  "demo_producer evs = the (producer_infos (srv_engine_side (demo evs)) ''cam'')"

lemma demo_producerI:
  "producer_infos (srv_engine_side (demo evs)) ''cam'' \<noteq> None \<Longrightarrow>
     producer_infos (srv_engine_side (demo evs)) ''cam'' = Some (demo_producer evs)"
  by (auto simp: demo_producer_def)




text \<open>
  C21. Bounded queues.  In every reachable state no producer's queue is longer than the configured
  size, and everything in it belongs to that producer.
\<close>

theorem producer_queues_bounded:
  assumes "0 \<le> N" and "reachable any_event N n s"
    and "producer_infos (srv_engine_side s) pid = Some p"
  shows "length (input_queue p) \<le> n \<and> (\<forall>mp \<in> set (input_queue p). md_producer_id (mp_metadata mp) = pid)"
proof -
  note I = server_invD [OF reachable_inv [OF assms(2,1)]]
  note D = wf_producersD [OF wf_engine_sideD(3) [OF I(1)] assms(3)]
  show ?thesis using D(1,2) I(3) by (simp add: wf_producer_info_def)
qed

theorem producer_queues_bounded_witness:
  "length (input_queue (demo_producer second_frame)) = 1 \<and> (1::nat) \<le> 3 \<and>
   md_producer_id (mp_metadata (hd (input_queue (demo_producer second_frame)))) = ''cam''"
proof -
  have "producer_infos (srv_engine_side (demo second_frame)) ''cam'' \<noteq> None"
    and l: "length (input_queue (demo_producer second_frame)) = 1" by code_simp+
  note c = demo_producerI [OF this(1)]
  have "hd (input_queue (demo_producer second_frame)) \<in> set (input_queue (demo_producer second_frame))"
    using l by (metis hd_in_set length_0_conv zero_neq_one)
  then show ?thesis using producer_queues_bounded [OF _ demo_reachable [OF second_frame_ok] c] l by simp
qed

section \<open>Engine results\<close>

text \<open>The engine on stream \<open>k\<close> is working on the input that its producer is waiting for.\<close>

definition awaited :: "server \<Rightarrow> ctx \<Rightarrow> engine_worker \<Rightarrow> metadata \<Rightarrow> bool" where
  "awaited s k w md \<longleftrightarrow>
     dict_get (engine_workers (srv_engine_side s)) k = Some w \<and> current_input_metadata w = Some md \<and>
     (case producer_infos (srv_engine_side s) (md_producer_id md) of
        None \<Rightarrow> False
      | Some p \<Rightarrow> pending p \<and> map_option mp_metadata (latest_input_sent_to_engine p) = Some md)"

lemma awaitedE:
  assumes "awaited s k w md"
  obtains p mp where "dict_get (engine_workers (srv_engine_side s)) k = Some w"
    and "current_input_metadata w = Some md"
    and "producer_infos (srv_engine_side s) (md_producer_id md) = Some p" and "pending p"
    and "latest_input_sent_to_engine p = Some mp" and "mp_metadata mp = md"
  using assms by (auto simp: awaited_def split: option.splits)

text \<open>
  C7. The first result returns the token.  When an engine answers the input that its producer is
  waiting for, the client is credited one token and is sent the engine's result with the frame id of
  that input and the instruction to take its token back.
\<close>

theorem first_result_returns_token:
  assumes "0 \<le> N" and "reachable any_event N n s" and "transport (send_via_transport W)"
    and "\<And>cs m. fst (send_via_transport W cs (md_client_address md) m)"
    and "awaited s k w md" and "dict_get (srv_clients s) (md_client_address md) = Some c"
    and "\<not> is_register m" and "handle_from_engine W s k m = (e, s', es)"
  shows "(\<exists>c'. dict_get (srv_clients s') (md_client_address md) = Some c' \<and>
      tokens_of N c' (md_producer_id md) = tokens_of N c (md_producer_id md) + 1) \<and>
    SendClient (md_client_address md) (ResultWrapper \<lparr>rw_producer_id = md_producer_id md,
      rw_return_token = True, rw_result = (engine_result_of m)\<lparr>res_frame_id := md_frame_id md\<rparr>\<rparr>) \<in> set es"
  using assms(5)
proof (rule awaitedE)
  fix p mp
  assume w: "dict_get (engine_workers (srv_engine_side s)) k = Some w" "current_input_metadata w = Some md"
    and p: "producer_infos (srv_engine_side s) (md_producer_id md) = Some p" "pending p"
      "latest_input_sent_to_engine p = Some mp" "mp_metadata mp = md"
  note C = credit_in_flight [OF reachable_inv [OF assms(2,1)] assms(6) p]
  obtain es1 where f: "finish_input W s k w md p ((engine_result_of m)\<lparr>res_frame_id := md_frame_id md\<rparr>) =
      (e, s', es1)" and es: "set es1 \<subseteq> set es"
    using handle_from_engine_working [OF w(1) assms(7) w(2) p(1) refl assms(8)]
    by (metis Un_upper2 set_append)
  have fr: "is_first_result p md = Inr True" using p by (simp add: is_first_result_def)
  note F = finish_input_first [OF assms(3) fr assms(6) f]
  show ?thesis using F(1) F(3) [OF assms(4)] C es by auto
qed

definition demo_worker :: "event list \<Rightarrow> ctx \<Rightarrow> engine_worker" where
  "demo_worker evs k = the (dict_get (engine_workers (srv_engine_side (demo evs))) k)"

definition answer :: from_engine where
  "answer = EngineResult (default_result\<lparr>res_status := \<lparr>code = SUCCESS, message_text = empty_message\<rparr>\<rparr>)"

definition demo_md :: "int \<Rightarrow> metadata" where
  "demo_md i = \<lparr>md_frame_id = i, md_producer_id = ''cam'', md_client_address = ''c'',
     md_target_engine_ids = [''e1''], md_client_info = default_any\<rparr>"

lemma demo_awaited: "awaited (demo first_frame) 1 (demo_worker first_frame 1) (demo_md 1)"
proof -
  have "dict_get (engine_workers (srv_engine_side (demo first_frame))) 1 \<noteq> None" by code_simp
  then have "dict_get (engine_workers (srv_engine_side (demo first_frame))) 1 =
      Some (demo_worker first_frame 1)" by (auto simp: demo_worker_def)
  moreover have "current_input_metadata (demo_worker first_frame 1) = Some (demo_md 1)"
    "case producer_infos (srv_engine_side (demo first_frame)) (md_producer_id (demo_md 1)) of
       None \<Rightarrow> False
     | Some p \<Rightarrow> pending p \<and> map_option mp_metadata (latest_input_sent_to_engine p) = Some (demo_md 1)"
    by code_simp+
  ultimately show ?thesis by (simp add: awaited_def)
qed

lemma demo_first_client: "dict_get (srv_clients (demo first_frame)) ''c'' = Some (demo_client first_frame)"
  by (rule demo_clientI) code_simp

lemma demo_md_simps [simp]:
  "md_client_address (demo_md i) = ''c''" "md_producer_id (demo_md i) = ''cam''" "md_frame_id (demo_md i) = i"
  by (simp_all add: demo_md_def)

theorem first_result_returns_token_witness:
  "\<exists>c'. dict_get (srv_clients (fst (snd (handle_from_engine calm (demo first_frame) 1 answer)))) ''c'' = Some c' \<and>
     tokens_of 2 c' ''cam'' = 2"
proof -
  obtain e s' es where h: "handle_from_engine calm (demo first_frame) 1 answer = (e, s', es)"
    by (metis prod_cases3)
  have t: "tokens_of 2 (demo_client first_frame) ''cam'' = 1" by code_simp
  have ok: "\<And>cs m. fst (send_via_transport calm cs (md_client_address (demo_md 1)) m)"
    by (simp add: calm_def)
  have nr: "\<not> is_register answer" by code_simp
  have c: "dict_get (srv_clients (demo first_frame)) (md_client_address (demo_md 1)) =
      Some (demo_client first_frame)" using demo_first_client by simp
  show ?thesis
    using first_result_returns_token [OF _ demo_reachable [OF first_frame_ok] calm_transport ok
        demo_awaited c nr h] h t by simp
qed

text \<open>
  C8. At most one token per input.  A result for an input that its producer no longer waits for
  (another engine answered first, or the input was displaced) returns no token: no message sent
  carries one, and no client's tokens change.
\<close>

theorem later_result_returns_nothing:
  assumes "0 \<le> N" and "reachable any_event N n s" and "transport (send_via_transport W)"
    and "dict_get (engine_workers (srv_engine_side s)) k = Some w"
    and "current_input_metadata w = Some md" and "\<not> awaited s k w md"
    and "handle_from_engine W s k m = (e, s', es)"
    and "dict_get (srv_clients s) a = Some c" and "dict_get (srv_clients s') a = Some c'"
  shows "token_returns b q es = 0 \<and> tokens_of N c' pid = tokens_of N c pid"
proof (cases "is_register m \<or> producer_infos (srv_engine_side s) (md_producer_id md) = None")
  case True
  then have "s' = s \<and> token_returns b q es = 0"
    using assms(4,5,7) by (auto simp: handle_from_engine_def Let_def split: if_splits)
  then show ?thesis using assms(8,9) by auto
next
  case False
  then obtain p where p: "producer_infos (srv_engine_side s) (md_producer_id md) = Some p"
    and nr: "\<not> is_register m" by blast
  let ?r = "(engine_result_of m)\<lparr>res_frame_id := md_frame_id md\<rparr>"
  obtain es1 where f: "finish_input W s k w md p ?r = (e, s', es1)"
    and es: "es = process_result (sink_ok W) (srv_sinks s) ?r @ es1"
    using handle_from_engine_working [OF assms(4) nr assms(5) p refl assms(7)] by blast
  have wf: "wf_producer_info (md_producer_id md) p"
    using wf_producersD(1) [OF wf_engine_sideD(3) [OF server_invD(1) [OF reachable_inv [OF assms(2,1)]]] p] .
  have l: "is_first_result p md = Inr False"
    using wf
  proof (cases rule: is_first_result_cases [where md = md])
    case (first mp)
    with assms(4-6) p show ?thesis by (simp add: awaited_def)
  qed
  have "tokens_of N c' pid = tokens_of N c pid"
    using finish_input_later_tokens [OF l f assms(8,9)] .
  then show ?thesis using finish_input_later [OF assms(3) l f] es by simp
qed

text \<open>Both engines got frame 1; the second one answers after the first.\<close>

definition answered_once :: "event list" where
  "answered_once = two_engines @ [ClientMessage ''c'' (frame 1 [''e1'', ''e2'']), EngineMessage 1 answer]"

lemma answered_once_ok: "run_ok any_event calm (client_connect (init_server 2 3) ''c'') answered_once"
  by code_simp

theorem later_result_returns_nothing_witness:
  "token_returns ''c'' ''cam'' (snd (snd (handle_from_engine calm (demo answered_once) 2 answer))) = 0"
proof -
  let ?w = "demo_worker answered_once 2"
  let ?md = "the (current_input_metadata ?w)"
  obtain e s' es where h: "handle_from_engine calm (demo answered_once) 2 answer = (e, s', es)"
    by (metis prod_cases3)
  have "dict_get (engine_workers (srv_engine_side (demo answered_once))) 2 \<noteq> None"
    and "current_input_metadata ?w \<noteq> None"
    and na: "\<not> (case producer_infos (srv_engine_side (demo answered_once)) (md_producer_id ?md) of
       None \<Rightarrow> False
     | Some p \<Rightarrow> pending p \<and> map_option mp_metadata (latest_input_sent_to_engine p) = Some ?md)"
    and "dict_get (srv_clients (demo answered_once)) ''c'' \<noteq> None"
    and "dict_get (srv_clients (fst (snd (handle_from_engine calm (demo answered_once) 2 answer)))) ''c'' \<noteq> None"
    by code_simp+
  then obtain c c' where "dict_get (engine_workers (srv_engine_side (demo answered_once))) 2 = Some ?w"
    "current_input_metadata ?w = Some ?md" and c: "dict_get (srv_clients (demo answered_once)) ''c'' = Some c"
    "dict_get (srv_clients s') ''c'' = Some c'"
    using h by (auto simp: demo_worker_def)
  moreover have "\<not> awaited (demo answered_once) 2 ?w ?md" using na by (simp add: awaited_def)
  ultimately show ?thesis
    using later_result_returns_nothing [OF _ demo_reachable [OF answered_once_ok] calm_transport _ _ _ h c] h
    by simp
qed

text \<open>
  Result sinks.  A result of an engine that is working on an input is handed to exactly the
  registered sinks (those that do not raise), stamped with the frame id of that input, and only when
  its status is \<open>SUCCESS\<close>.
\<close>

theorem sinks_get_successful_results:
  assumes "transport (send_via_transport W)"
    and "dict_get (engine_workers (srv_engine_side s)) k = Some w"
    and "current_input_metadata w = Some md" and "\<not> is_register m"
    and "handle_from_engine W s k m = (e, s', es)"
  shows "SendSink j x \<in> set es \<longleftrightarrow>
    j \<in> set (srv_sinks s) \<and> sink_ok W j \<and> code (res_status (engine_result_of m)) = SUCCESS \<and>
    x = (engine_result_of m)\<lparr>res_frame_id := md_frame_id md\<rparr>"
proof (cases "producer_infos (srv_engine_side s) (md_producer_id md)")
  case None
  then have "es = process_result (sink_ok W) (srv_sinks s)
      ((engine_result_of m)\<lparr>res_frame_id := md_frame_id md\<rparr>)"
    using assms(2-5) by (auto simp: handle_from_engine_def Let_def)
  then show ?thesis by (auto simp: process_result_delivers)
next
  case (Some p)
  obtain es1 where f: "finish_input W s k w md p ((engine_result_of m)\<lparr>res_frame_id := md_frame_id md\<rparr>) =
      (e, s', es1)" and es: "es = process_result (sink_ok W) (srv_sinks s)
      ((engine_result_of m)\<lparr>res_frame_id := md_frame_id md\<rparr>) @ es1"
    using handle_from_engine_working [OF assms(2,4,3) Some refl assms(5)] by blast
  show ?thesis
    unfolding es using finish_input_no_sink [OF assms(1) f] by (auto simp: process_result_delivers)
qed

theorem sinks_get_successful_results_witness:
  "SendSink 7 ((engine_result_of answer)\<lparr>res_frame_id := 1\<rparr>) \<in>
     set (snd (snd (handle_from_engine calm ((demo first_frame)\<lparr>srv_sinks := [7]\<rparr>) 1 answer)))"
proof -
  obtain e s' es where h: "handle_from_engine calm ((demo first_frame)\<lparr>srv_sinks := [7]\<rparr>) 1 answer = (e, s', es)"
    by (metis prod_cases3)
  have w: "dict_get (engine_workers (srv_engine_side ((demo first_frame)\<lparr>srv_sinks := [7]\<rparr>))) 1 =
      Some (demo_worker first_frame 1)" "current_input_metadata (demo_worker first_frame 1) = Some (demo_md 1)"
    using demo_awaited by (simp_all add: awaited_def)
  have nr: "\<not> is_register answer" by code_simp
  from sinks_get_successful_results [OF calm_transport w nr h] h show ?thesis
    by (simp add: calm_def answer_def)
qed

section \<open>Engines come and go\<close>

text \<open>
  C9. A disconnecting engine gives the token back.  When the stream of an engine ends while its
  producer waits for the input it is working on, the engine and its id are removed, the client is
  credited one token, and the client is sent an \<open>ENGINE_ERROR\<close> result for that frame with the
  instruction to take the token back.
\<close>

theorem disconnect_returns_token:
  assumes "0 \<le> N" and "reachable any_event N n s" and "transport (send_via_transport W)"
    and "\<And>cs m. fst (send_via_transport W cs (md_client_address md) m)"
    and "awaited s k w md" and "dict_get (srv_clients s) (md_client_address md) = Some c"
    and "engine_session_end W s k = (e, s', es)"
  shows "(\<exists>c'. dict_get (srv_clients s') (md_client_address md) = Some c' \<and>
      tokens_of N c' (md_producer_id md) = tokens_of N c (md_producer_id md) + 1) \<and>
    (\<exists>r. SendClient (md_client_address md) (ResultWrapper \<lparr>rw_producer_id = md_producer_id md,
        rw_return_token = True, rw_result = r\<rparr>) \<in> set es \<and>
      code (res_status r) = ENGINE_ERROR \<and> res_frame_id r = md_frame_id md \<and>
      res_target_engine_id r = ew_engine_id w) \<and>
    dict_get (engine_workers (srv_engine_side s')) k = None \<and>
    ew_engine_id w \<notin> set (engine_ids (srv_engine_side s')) \<and> e = None"
  using assms(5)
proof (rule awaitedE)
  fix p mp
  assume w: "dict_get (engine_workers (srv_engine_side s)) k = Some w" "current_input_metadata w = Some md"
    and p: "producer_infos (srv_engine_side s) (md_producer_id md) = Some p" "pending p"
      "latest_input_sent_to_engine p = Some mp" "mp_metadata mp = md"
  note inv = reachable_inv [OF assms(2,1)]
  have r: "remove_engine_worker W s k = (e, s', es)"
    using assms(7) dict_get_in_keys [OF w(1)] by (simp add: engine_session_end_def)
  note R = remove_engine_worker_inv [OF inv w(1) r]
  note H = remove_engine_worker_holding [OF inv assms(3,4) w p assms(6) r]
  have "code (res_status (disconnect_result (ew_engine_id w) md)) = ENGINE_ERROR"
    "res_frame_id (disconnect_result (ew_engine_id w) md) = md_frame_id md"
    "res_target_engine_id (disconnect_result (ew_engine_id w) md) = ew_engine_id w"
    by (simp_all add: disconnect_result_def)
  then show ?thesis
    using H R credit_in_flight(2) [OF inv assms(6) p] by (auto simp: dict_get_del)
qed

theorem disconnect_returns_token_witness:
  "\<exists>c'. dict_get (srv_clients (fst (snd (engine_session_end calm (demo first_frame) 1)))) ''c'' = Some c' \<and>
     tokens_of 2 c' ''cam'' = 2"
proof -
  obtain e s' es where h: "engine_session_end calm (demo first_frame) 1 = (e, s', es)"
    by (metis prod_cases3)
  have t: "tokens_of 2 (demo_client first_frame) ''cam'' = 1" by code_simp
  have ok: "\<And>cs m. fst (send_via_transport calm cs (md_client_address (demo_md 1)) m)"
    by (simp add: calm_def)
  have c: "dict_get (srv_clients (demo first_frame)) (md_client_address (demo_md 1)) =
      Some (demo_client first_frame)" using demo_first_client by simp
  show ?thesis
    using disconnect_returns_token [OF _ demo_reachable [OF first_frame_ok] calm_transport ok
        demo_awaited c h] h t by simp
qed

text \<open>
  C20. Registration.  When an engine registers, its stream gets a fresh idle worker under its id; a
  worker that was connected under the same id is removed and every other worker keeps its place.
  Afterwards the engine ids that the server reports are exactly those of the connected workers, each
  of them once.
\<close>

theorem registration_replaces_engine:
  assumes "0 \<le> N" and "reachable any_event N n s"
    and "enabled s (EngineStart k (Some (Register eid arr)))"
    and "engine_session_start W s k (Some (Register eid arr)) = (e, s', es)"
  shows "(\<forall>k'. dict_get (engine_workers (srv_engine_side s')) k' =
      (if k' = k then Some (new_engine_worker k eid arr n)
       else other_engine eid (engine_workers (srv_engine_side s)) k')) \<and>
    distinct (engine_ids (srv_engine_side s')) \<and> distinct (worker_ids (engine_workers (srv_engine_side s'))) \<and>
    set (engine_ids (srv_engine_side s')) = set (worker_ids (engine_workers (srv_engine_side s')))"
proof -
  note inv = reachable_inv [OF assms(2,1)]
  have add: "add_engine_worker W s k eid arr = (e, s', es)"
    using assms(4) by (simp add: engine_session_start_def)
  have k: "k \<notin> fst ` set (engine_workers (srv_engine_side s))" using assms(3) by (simp add: enabled_def)
  have "server_inv no_accounts N n s'" using add_engine_worker_inv [OF inv k add] by simp
  note D = wf_engine_sideD [OF server_invD(1) [OF this]]
  show ?thesis using add_engine_worker_registry [OF inv add] D(4-6) by blast
qed

theorem registration_replaces_engine_witness:
  "dict_get (engine_workers (srv_engine_side (fst (snd (engine_session_start calm (demo first_frame) 2
     (Some (Register ''e1'' True))))))) 2 = Some (new_engine_worker 2 ''e1'' True 3) \<and>
   dict_get (engine_workers (srv_engine_side (fst (snd (engine_session_start calm (demo first_frame) 2
     (Some (Register ''e1'' True))))))) 1 = None"
proof -
  obtain e s' es where h: "engine_session_start calm (demo first_frame) 2 (Some (Register ''e1'' True)) =
      (e, s', es)" by (metis prod_cases3)
  have en: "plain_event (demo first_frame) (EngineStart 2 (Some (Register ''e1'' True)))" by code_simp
  have o: "other_engine ''e1'' (engine_workers (srv_engine_side (demo first_frame))) 1 = None" by code_simp
  show ?thesis
    using registration_replaces_engine [OF _ demo_reachable [OF first_frame_ok] plain_event_enabled [OF en] h] h o
    by simp
qed

text \<open>
  Announcements.  Whenever an event changes the set of connected engine ids, every connected
  client that can be reached is sent the new ids during that event.
\<close>

theorem engine_ids_announced:
  assumes "0 \<le> N" and "reachable any_event N n s" and "transport (send_via_transport W)"
    and "enabled s ev" and "server_event W s ev = (e, s', es)"
    and "engine_ids (srv_engine_side s') \<noteq> engine_ids (srv_engine_side s)"
    and "dict_get (srv_clients s') a = Some c" and "\<And>cs m. fst (send_via_transport W cs a m)"
  shows "SendClient a (EngineIdsUpdate (engine_ids (srv_engine_side s'))) \<in> set es"
proof -
  note inv = reachable_inv [OF assms(2,1)]
  have "announced W s' es"
  proof (cases ev)
    case (EngineStart k m)
    then obtain eid arr where "add_engine_worker W s k eid arr = (e, s', es)"
      using assms(5,6)
      by (auto simp: server_event_def engine_session_start_def split: option.splits from_engine.splits)
    then show ?thesis by (rule add_engine_worker_announces [OF assms(3) inv])
  next
    case (EngineMessage k m)
    obtain e1 s1 es1 where h: "handle_from_engine W s k m = (e1, s1, es1)" by (metis prod_cases3)
    obtain e2 s2 es2 where d: "engine_session_end W s1 k = (e2, s2, es2)" by (metis prod_cases3)
    have i1: "server_inv no_accounts N n s1" using handle_from_engine_inv [OF inv h] by simp
    note ids = handle_from_engine_ids [OF h]
    have "e1 \<noteq> None"
      using EngineMessage h assms(5,6) ids by (cases e1) (simp_all add: server_event_def engine_session_message_def)
    then have s': "s' = s2" and es: "set es2 \<subseteq> set es"
      using EngineMessage h d assms(5) by (auto simp: server_event_def engine_session_message_def)
    have "announced W s2 es2"
      using engine_session_end_announces [OF assms(3) i1 d] assms(6) s' ids by simp
    then show ?thesis using s' es unfolding announced_def by blast
  next
    case (EngineEnd k)
    then have "engine_session_end W s k = (e, s', es)" using assms(5) by (simp add: server_event_def)
    from engine_session_end_announces [OF assms(3) inv this] assms(6) show ?thesis by simp
  next
    case (ClientMessage b fc)
    then show ?thesis using client_message_ids [of W s b fc e s' es] assms(5,6) by (simp add: server_event_def)
  qed (use assms(5,6) in \<open>auto simp: server_event_def client_connect_def client_disconnect_def
      enqueue_input_def dequeue_input_def split: option.splits\<close>)
  then show ?thesis using assms(7,8) unfolding announced_def by blast
qed

theorem engine_ids_announced_witness:
  "SendClient ''c'' (EngineIdsUpdate []) \<in> set (snd (snd (server_event calm (demo first_frame) (EngineEnd 1))))"
proof -
  obtain e s' es where h: "server_event calm (demo first_frame) (EngineEnd 1) = (e, s', es)"
    by (metis prod_cases3)
  have "engine_ids (srv_engine_side (fst (snd (server_event calm (demo first_frame) (EngineEnd 1))))) = []"
    "engine_ids (srv_engine_side (demo first_frame)) = [''e1'']"
    "dict_get (srv_clients (fst (snd (server_event calm (demo first_frame) (EngineEnd 1))))) ''c'' \<noteq> None"
    by code_simp+
  then have i: "engine_ids (srv_engine_side s') = []" "engine_ids (srv_engine_side s') \<noteq>
      engine_ids (srv_engine_side (demo first_frame))"
    and "dict_get (srv_clients s') ''c'' \<noteq> None" using h by simp_all
  then obtain c where c: "dict_get (srv_clients s') ''c'' = Some c" by blast
  have ok: "\<And>cs m. fst (send_via_transport calm cs ''c'' m)" by (simp add: calm_def)
  have en: "enabled (demo first_frame) (EngineEnd 1)" by (simp add: enabled_def)
  show ?thesis
    using engine_ids_announced [OF _ demo_reachable [OF first_frame_ok] calm_transport en h i(2) c ok] i(1) h
    by simp
qed

section \<open>Where tokens and targets go astray\<close>

definition displaced :: "event list" where
  "displaced = two_engines @
     [ClientMessage ''c'' (frame 1 [''e1'']), ClientMessage ''c'' (frame 2 [''e2'']),
      EngineMessage 1 answer, EngineMessage 2 answer, EngineMessage 1 answer]"


definition retargeted :: "event list" where
  "retargeted = two_engines @
     [ClientMessage ''c'' (frame 1 [''e1'', ''e2'']), ClientMessage ''c'' (frame 2 [''e2''])]"


definition reused :: "event list" where
  "reused =
     [EngineStart 1 (Some (Register ''e1'' False)), ClientConnect ''c'', ClientMessage ''c'' (Registration None),
      ClientMessage ''c'' (frame 1 [''e1'']), ClientDisconnect ''c'', ClientConnect ''c'',
      ClientMessage ''c'' (Registration None), ClientMessage ''c'' (frame 2 [''e1'']),
      EngineMessage 1 answer, EngineMessage 1 answer]"


end
