(* ===== verification/Await_Points.thy ===== *)
theory Await_Points
  imports Server_Properties
begin

text \<open>
  The handling of an input with its await points.  \<open>process_input_from_client\<close> suspends at every write to
  an engine's stream, and the event loop may run other handlers before it goes on.  Here the handler is
  a task that is started and resumed.  Left alone it is the atomic handler of \<open>Server_Runner\<close>;
  \<open>Event_Loop\<close> interleaves such tasks with the other handlers.
\<close>

section \<open>A suspended handler\<close>

text \<open>
  What the coroutine keeps over an await: the message, the input, the target workers it has not looked
  at yet and \<open>all_engines_busy\<close>.  Worker objects are named by their stream.
\<close>

record input_task =
  it_address :: address
  it_message :: from_client
  it_input :: metadata_payload
  it_targets :: "ctx list"
  it_all_engines_busy :: bool

abbreviation it_producer :: "input_task \<Rightarrow> producer_id" where
  "it_producer t \<equiv> in_producer_id (input_of (it_message t))"

datatype progress =
    Suspended input_task
  | Returned "py_exn option"

text \<open>A worker object, wherever it is.\<close>

definition find_worker_object :: "workers \<times> workers \<Rightarrow> ctx \<Rightarrow> engine_worker option" where
  "find_worker_object objs c =
     (case dict_get (fst objs) c of Some w \<Rightarrow> Some w | None \<Rightarrow> dict_get (snd objs) c)"

definition store_worker_object :: "ctx \<Rightarrow> engine_worker \<Rightarrow> workers \<times> workers \<Rightarrow> workers \<times> workers" where
  "store_worker_object c w objs =
     (case dict_get (fst objs) c of
        Some _ \<Rightarrow> (dict_set c w (fst objs), snd objs)
      | None \<Rightarrow> (fst objs, dict_set c w (snd objs)))"

text \<open>The dispatch loop up to the next write, to the end, or to an exception.\<close>

datatype dispatch_stop = AtWrite "ctx list" | LoopDone bool | LoopRaised py_exn

fun dispatch_to_write ::
  "engine_write \<Rightarrow> producer_id \<Rightarrow> metadata_payload \<Rightarrow> ctx list \<Rightarrow> bool \<Rightarrow> workers \<times> workers \<Rightarrow>
     dispatch_stop \<times> (workers \<times> workers) \<times> effect list" where
  "dispatch_to_write wr pid mp [] all_engines_busy objs = (LoopDone all_engines_busy, objs, [])"
| "dispatch_to_write wr pid mp (c # cs) all_engines_busy objs =
     (case find_worker_object objs c of
        None \<Rightarrow> dispatch_to_write wr pid mp cs all_engines_busy objs
      | Some w \<Rightarrow>
          (let w1 = add_producer pid w
           in if current_input_metadata w1 = None
              then (let (e, w2, es) = send_payload wr w1 mp
                    in (case e of Some x \<Rightarrow> LoopRaised x | None \<Rightarrow> AtWrite cs,
                        store_worker_object c w2 objs, es))
              else dispatch_to_write wr pid mp cs all_engines_busy (store_worker_object c w1 objs)))"

text \<open>The end of \<open>process_input_from_client\<close>, on the producer as it is then.\<close>

definition conclude_input :: "bool \<Rightarrow> metadata_payload \<Rightarrow> producer_info \<Rightarrow> reply \<times> producer_info" where
  "conclude_input all_engines_busy mp p =
     (if all_engines_busy
      then (let (success, p') = add_input_to_queue mp p
            in (if success then Inr (SUCCESS, empty_message)
                else Inr (SERVER_DROPPED_FRAME, MsgProducerQueueFull (pi_producer_id p)), p'))
      else (Inr (SUCCESS, empty_message),
            p\<lparr>latest_input_sent_to_engine := Some mp, pending_token_return := Some True\<rparr>))"

text \<open>
  What the transport's handler does with the reply to an input, on the client entry as it is then.  A
  client that has left meanwhile is charged on an object nobody reads.
\<close>

definition settle_input :: "world \<Rightarrow> server \<Rightarrow> address \<Rightarrow> from_client \<Rightarrow> reply \<Rightarrow> handled" where
  "settle_input W s a from_client r =
     (case r of
        Inl e \<Rightarrow> (Some e, s, [])
      | Inr (st, msg) \<Rightarrow>
          (if st = SUCCESS
           then (case dict_get (srv_clients s) a of
                   None \<Rightarrow> (None, s, [])
                 | Some c \<Rightarrow>
                     (case deduct_token c (in_producer_id (input_of from_client)) of
                        Inl e \<Rightarrow> (Some e, s, [])
                      | Inr c' \<Rightarrow> (None, s\<lparr>srv_clients := dict_set a c' (srv_clients s)\<rparr>, [])))
           else (case client_write W a of
                   Written \<Rightarrow> (None, s, [SendClient a (make_error_response from_client st msg)])
                 | Dropped \<Rightarrow> (None, s, [])
                 | Failed \<Rightarrow> (Some RpcWriteError, s, []))))"

definition set_workers :: "workers \<Rightarrow> server \<Rightarrow> server" where
  "set_workers ws s = s\<lparr>srv_engine_side := (srv_engine_side s)\<lparr>engine_workers := ws\<rparr>\<rparr>"

definition set_producer :: "producer_id \<Rightarrow> producer_info \<Rightarrow> server \<Rightarrow> server" where
  "set_producer pid p s =
     s\<lparr>srv_engine_side := (srv_engine_side s)\<lparr>producer_infos := (producer_infos (srv_engine_side s))(pid \<mapsto> p)\<rparr>\<rparr>"

text \<open>One run of a task, from where it is to its next await or its end.  Producers are never removed.\<close>

definition conclude_task :: "world \<Rightarrow> server \<Rightarrow> input_task \<Rightarrow> bool \<Rightarrow> handled" where
  "conclude_task W s t all_engines_busy =
     (case producer_infos (srv_engine_side s) (it_producer t) of
        None \<Rightarrow> (Some KeyError, s, [])
      | Some p \<Rightarrow>
          (let (r, p') = conclude_input all_engines_busy (it_input t) p
           in settle_input W (set_producer (it_producer t) p' s) (it_address t) (it_message t) r))"

definition resume_input ::
  "world \<Rightarrow> server \<Rightarrow> workers \<Rightarrow> input_task \<Rightarrow> progress \<times> server \<times> workers \<times> effect list" where
  "resume_input W s gone t =
     (let (stop, (ws, gone'), es) =
            dispatch_to_write (engine_write W) (it_producer t) (it_input t) (it_targets t)
              (it_all_engines_busy t) (engine_workers (srv_engine_side s), gone);
          s1 = set_workers ws s
      in case stop of
           AtWrite cs \<Rightarrow> (Suspended (t\<lparr>it_targets := cs, it_all_engines_busy := False\<rparr>), s1, gone', es)
         | LoopRaised e \<Rightarrow> (Returned (Some e), s1, gone', es)
         | LoopDone busy \<Rightarrow>
             (let (e, s2, es') = conclude_task W s1 t busy in (Returned e, s2, gone', es @ es')))"

text \<open>
  The start.  A message that is not an input with a token for a connected engine reaches no await before
  its answer and is handled as a whole.
\<close>

definition dispatches :: "server \<Rightarrow> client \<Rightarrow> from_client \<Rightarrow> bool" where
  "dispatches s c from_client \<longleftrightarrow>
     \<not> is_registration from_client \<and> client_info c \<noteq> None \<and>
     1 \<le> tokens_of (srv_num_tokens s) c (in_producer_id (input_of from_client)) \<and>
     targets_of (engine_workers (srv_engine_side s)) (in_target_engine_ids (input_of from_client)) \<noteq> []"

definition new_input_task :: "server \<Rightarrow> client \<Rightarrow> address \<Rightarrow> from_client \<Rightarrow> input_task" where
  "new_input_task s c a from_client =
     \<lparr>it_address = a, it_message = from_client,
      it_input = metadata_payload_of (in_producer_id (input_of from_client)) from_client a (the (client_info c)),
      it_targets = targets_of (engine_workers (srv_engine_side s)) (in_target_engine_ids (input_of from_client)),
      it_all_engines_busy = True\<rparr>"

definition admit_input :: "server \<Rightarrow> client \<Rightarrow> address \<Rightarrow> from_client \<Rightarrow> server" where
  "admit_input s c a from_client =
     (let pid = in_producer_id (input_of from_client);
          targets = targets_of (engine_workers (srv_engine_side s)) (in_target_engine_ids (input_of from_client))
      in set_producer pid (update_targets targets (producer_for (srv_engine_side s) pid))
           (s\<lparr>srv_clients := dict_set a (ensure_tokens (srv_num_tokens s) c pid) (srv_clients s)\<rparr>))"

definition start_input ::
  "world \<Rightarrow> server \<Rightarrow> workers \<Rightarrow> address \<Rightarrow> from_client \<Rightarrow> progress \<times> server \<times> workers \<times> effect list" where
  "start_input W s gone a from_client =
     (case dict_get (srv_clients s) a of
        None \<Rightarrow> (Returned None, s, gone, [])
      | Some c \<Rightarrow>
          (if dispatches s c from_client
           then resume_input W (admit_input s c a from_client) gone (new_input_task s c a from_client)
           else (let (e, s', es) = client_message W s a from_client in (Returned e, s', gone, es))))"

text \<open>Resuming a task makes its list of targets shorter, so a task that is left alone ends.\<close>

lemma dispatch_to_write_shrinks:
  "dispatch_to_write wr pid mp cs b objs = (AtWrite cs', objs', es) \<Longrightarrow> length cs' < length cs"
proof (induction cs arbitrary: b objs)
  case (Cons c cs)
  show ?case
  proof (cases "find_worker_object objs c")
    case None
    then show ?thesis using Cons by fastforce
  next
    case (Some w)
    then show ?thesis using Cons by (fastforce simp: Let_def split: if_splits prod.splits option.splits)
  qed
qed simp

lemma resume_input_shrinks:
  "resume_input W s gone t = (Suspended t', s', gone', es) \<Longrightarrow> length (it_targets t') < length (it_targets t)"
  by (auto simp: resume_input_def Let_def split: prod.splits dispatch_stop.splits
      dest: dispatch_to_write_shrinks)

function finish_alone :: "world \<Rightarrow> progress \<times> server \<times> workers \<times> effect list \<Rightarrow> handled" where
  "finish_alone W (Returned e, s, gone, es) = (e, s, es)"
| "finish_alone W (Suspended t, s, gone, es) =
     (let (pr, s', gone', es') = resume_input W s gone t in finish_alone W (pr, s', gone', es @ es'))"
  by pat_completeness auto

termination
  by (relation "measure (\<lambda>(W, pr, s, gone, es).
      case pr of Suspended t \<Rightarrow> Suc (length (it_targets t)) | Returned _ \<Rightarrow> 0)")
    (auto split: progress.split dest: resume_input_shrinks [OF sym])

section \<open>Left alone, the task is the atomic handler\<close>

lemma dict_set_twice [simp]: "dict_set k v (dict_set k u d) = dict_set k v d"
  by (induction d) auto

lemma dispatch_in_segments:
  assumes "set cs \<subseteq> fst ` set ws" and "dispatch_to_write wr pid mp cs b (ws, gone) = (stop, objs, es)"
  shows "snd objs = gone \<and> fst ` set (fst objs) = fst ` set ws \<and>
    (\<forall>cs'. stop = AtWrite cs' \<longrightarrow> set cs' \<subseteq> set cs) \<and>
    dispatch wr pid mp cs b ws =
      (case stop of
         LoopDone b' \<Rightarrow> (None, b', fst objs, es)
       | LoopRaised x \<Rightarrow> (Some x, False, fst objs, es)
       | AtWrite cs' \<Rightarrow>
           (let (e, b', ws', es') = dispatch wr pid mp cs' False (fst objs) in (e, b', ws', es @ es')))"
  using assms
proof (induction cs arbitrary: b ws)
  case (Cons c cs)
  then obtain w where w: "dict_get ws c = Some w"
    using map_of_eq_None_iff [of ws c] by (cases "dict_get ws c") auto
  have keys: "fst ` set (dict_set c v ws) = fst ` set ws" for v
    using dict_get_in_keys [OF w] update_keys [of c v ws] by (metis list.set_map)
  obtain e2 w2 es2 where sp: "send_payload wr (add_producer pid w) mp = (e2, w2, es2)" by (metis prod_cases3)
  show ?case
  proof (cases "current_input_metadata w = None")
    case True
    then have "stop = (case e2 of Some x \<Rightarrow> LoopRaised x | None \<Rightarrow> AtWrite cs)"
      "objs = (dict_set c w2 ws, gone)" "es = es2"
      using Cons.prems(2) w sp by (simp_all add: find_worker_object_def store_worker_object_def)
    then show ?thesis using w sp True keys by (cases e2) (simp_all add: subset_insertI)
  next
    case False
    let ?ws = "dict_set c (add_producer pid w) ws"
    have "set cs \<subseteq> fst ` set ?ws" using Cons.prems(1) unfolding keys by simp
    moreover have "dispatch_to_write wr pid mp cs b (?ws, gone) = (stop, objs, es)"
      using Cons.prems(2) w False by (simp add: find_worker_object_def store_worker_object_def)
    moreover have "dispatch wr pid mp (c # cs) b ws = dispatch wr pid mp cs b ?ws" using w False by (auto simp: Let_def)
    ultimately show ?thesis using Cons.IH [of ?ws b] unfolding keys by (metis set_subset_Cons order_trans)
  qed
qed auto

lemma set_workers_simps [simp]:
  "engine_workers (srv_engine_side (set_workers ws s)) = ws"
  "producer_infos (srv_engine_side (set_workers ws s)) = producer_infos (srv_engine_side s)"
  "srv_clients (set_workers ws s) = srv_clients s" "srv_num_tokens (set_workers ws s) = srv_num_tokens s"
  "set_workers ws (set_workers ws' s) = set_workers ws s"
  by (simp_all add: set_workers_def)

lemma set_producer_simps [simp]:
  "engine_workers (srv_engine_side (set_producer pid p s)) = engine_workers (srv_engine_side s)"
  "producer_infos (srv_engine_side (set_producer pid p s)) = (producer_infos (srv_engine_side s))(pid \<mapsto> p)"
  "srv_clients (set_producer pid p s) = srv_clients s" "srv_num_tokens (set_producer pid p s) = srv_num_tokens s"
  by (simp_all add: set_producer_def)

lemma conclude_task_cong [simp]:
  "conclude_task W s (t\<lparr>it_targets := cs, it_all_engines_busy := b\<rparr>) = conclude_task W s t"
  by (simp add: conclude_task_def fun_eq_iff split: option.split)

lemma finish_resumed:
  assumes "set (it_targets t) \<subseteq> fst ` set (engine_workers (srv_engine_side s))"
    and "dispatch (engine_write W) (it_producer t) (it_input t) (it_targets t) (it_all_engines_busy t)
      (engine_workers (srv_engine_side s)) = (e, b, ws, es)"
    and "resume_input W s gone t = (pr, s1, gone1, es1)"
  shows "finish_alone W (pr, s1, gone1, es0 @ es1) =
    (case e of
       Some x \<Rightarrow> (Some x, set_workers ws s, es0 @ es)
     | None \<Rightarrow> (let (e', s', es') = conclude_task W (set_workers ws s) t b in (e', s', es0 @ es @ es')))"
  using assms
proof (induction "length (it_targets t)" arbitrary: t s gone e b es pr s1 gone1 es1 es0 rule: less_induct)
  case less
  obtain stop ws2 gone2 es2 where d: "dispatch_to_write (engine_write W) (it_producer t) (it_input t)
      (it_targets t) (it_all_engines_busy t) (engine_workers (srv_engine_side s), gone) = (stop, (ws2, gone2), es2)"
    by (metis prod.exhaust)
  note S = dispatch_in_segments [OF less.prems(1) d]
  show ?case
  proof (cases stop)
    case (AtWrite cs)
    let ?t = "t\<lparr>it_targets := cs, it_all_engines_busy := False\<rparr>"
    have r: "pr = Suspended ?t" "s1 = set_workers ws2 s" "gone1 = gone2" "es1 = es2"
      using less.prems(3) d AtWrite by (simp_all add: resume_input_def)
    obtain pr' s' gone' es' where r': "resume_input W s1 gone1 ?t = (pr', s', gone', es')"
      by (metis prod_cases4)
    obtain e3 b3 ws3 es3 where d3: "dispatch (engine_write W) (it_producer t) (it_input t) cs False ws2 =
        (e3, b3, ws3, es3)" by (metis prod_cases4)
    have eq: "e3 = e" "b3 = b" "ws3 = ws" "es = es2 @ es3" using S less.prems(2) d3 AtWrite by simp_all
    have "finish_alone W (pr', s', gone', (es0 @ es2) @ es') =
      (case e of
         Some x \<Rightarrow> (Some x, set_workers ws s1, (es0 @ es2) @ es3)
       | None \<Rightarrow> (let (e', s', es') = conclude_task W (set_workers ws s1) ?t b in (e', s', (es0 @ es2) @ es3 @ es')))"
    proof (rule less.hyps)
      show "length (it_targets ?t) < length (it_targets t)"
        using dispatch_to_write_shrinks [OF d [unfolded AtWrite]] by simp
      show "set (it_targets ?t) \<subseteq> fst ` set (engine_workers (srv_engine_side s1))"
        using S AtWrite less.prems(1) r(2) by auto
      show "dispatch (engine_write W) (it_producer ?t) (it_input ?t) (it_targets ?t) (it_all_engines_busy ?t)
          (engine_workers (srv_engine_side s1)) = (e, b, ws, es3)"
        using d3 eq r(2) by simp
    qed (rule r')
    then show ?thesis using r r' eq by (cases e) simp_all
  next
    case (LoopDone b')
    then show ?thesis using less.prems(2,3) d S by (auto simp: resume_input_def split: prod.splits)
  next
    case (LoopRaised x)
    then show ?thesis using less.prems(2,3) d S by (auto simp: resume_input_def)
  qed
qed

text \<open>The atomic handler on an input that reaches the dispatch loop, in the words of the task.\<close>

lemma targets_are_workers: "set (targets_of ws ids) \<subseteq> fst ` set ws"
  by (auto simp: targets_of_def)

lemma deduct_ensured:
  obtains c' where "deduct_token (ensure_tokens N c pid) pid = Inr c'"
  using ensure_tokens_present [of N c pid] by (auto simp: deduct_token_def)

lemma send_to_engine_as_task:
  assumes wf: "wf_engine_side (srv_engine_side s)" and dp: "dispatches s c fc"
    and t: "t = new_input_task s c a fc" and pid: "pid = in_producer_id (input_of fc)"
    and p: "p = update_targets (it_targets t) (producer_for (srv_engine_side s) pid)"
    and d: "dispatch wr pid (it_input t) (it_targets t) True (engine_workers (srv_engine_side s)) = (e, b, ws, es)"
  shows "send_to_engine wr (srv_engine_side s) fc a (the (client_info c)) =
    (case e of
       Some x \<Rightarrow> (Inl x, (srv_engine_side s)\<lparr>engine_workers := ws,
         producer_infos := (producer_infos (srv_engine_side s))(pid \<mapsto> p)\<rparr>, es)
     | None \<Rightarrow> (let (r, p') = conclude_input b (it_input t) p
         in (r, (srv_engine_side s)\<lparr>engine_workers := ws,
               producer_infos := (producer_infos (srv_engine_side s))(pid \<mapsto> p')\<rparr>, es)))"
proof -
  let ?eng = "srv_engine_side s"
  note P = wf_producer_for(3) [OF wf, of pid]
  have ts: "it_targets t = targets_of (engine_workers ?eng) (in_target_engine_ids (input_of fc))"
    and mp: "it_input t = metadata_payload_of pid fc a (the (client_info c))"
    by (simp_all add: t new_input_task_def pid)
  have ne: "targets_of (engine_workers ?eng) (in_target_engine_ids (input_of fc)) \<noteq> []"
    using dp by (simp add: dispatches_def)
  note pr = process_input_targeted [where p = "producer_for ?eng pid", unfolded P, OF ne mp p [unfolded ts] d [unfolded ts]]
  have "pi_producer_id p = pid" using P by (simp add: p)
  then show ?thesis
    by (simp add: send_to_engine_def pid [symmetric] producer_for_def [symmetric] pr conclude_input_def Let_def
        split: option.split prod.split)
qed

lemma client_message_as_task:
  assumes wf: "wf_engine_side (srv_engine_side s)" and c: "dict_get (srv_clients s) a = Some c"
    and dp: "dispatches s c fc" and t: "t = new_input_task s c a fc"
    and d: "dispatch (engine_write W) (it_producer t) (it_input t) (it_targets t) True
      (engine_workers (srv_engine_side s)) = (e, b, ws, es)"
  shows "client_message W s a fc =
    (case e of
       Some x \<Rightarrow> (Some x, set_workers ws (admit_input s c a fc), es)
     | None \<Rightarrow> (let (e', s', es') = conclude_task W (set_workers ws (admit_input s c a fc)) t b
                in (e', s', es @ es')))"
proof -
  let ?pid = "in_producer_id (input_of fc)" and ?eng = "srv_engine_side s"
  define p where "p = update_targets (it_targets t) (producer_for ?eng ?pid)"
  have tp: "it_producer t = ?pid" "it_message t = fc" "it_address t = a" by (simp_all add: t new_input_task_def)
  obtain i where i: "client_info c = Some i" using dp by (auto simp: dispatches_def)
  note se = send_to_engine_as_task [OF wf dp t refl p_def d [unfolded tp]]
  have g: "\<not> is_registration fc" "1 \<le> tokens_of (srv_num_tokens s) c ?pid"
    using dp by (simp_all add: dispatches_def)
  obtain c' where c': "deduct_token (ensure_tokens (srv_num_tokens s) c ?pid) ?pid = Inr c'"
    by (rule deduct_ensured)
  have ad: "admit_input s c a fc = set_producer ?pid p
      (s\<lparr>srv_clients := dict_set a (ensure_tokens (srv_num_tokens s) c ?pid) (srv_clients s)\<rparr>)"
    by (simp add: admit_input_def Let_def p_def t new_input_task_def)
  let ?cb = "send_to_engine (engine_write W)" and ?c = "ensure_tokens (srv_num_tokens s) c ?pid"
  have ch: "consumer_helper (srv_num_tokens s) ?cb c a fc ?eng =
      (let (r, eng', es) = ?cb ?eng fc a i in (r, ?c, eng', es))"
    by (rule consumer_helper_accepted [OF g(1) i g(2)])
  show ?thesis
  proof (cases e)
    case (Some x)
    then have "handle_message (srv_num_tokens s) ?cb (engine_ids ?eng) c a fc ?eng =
        (Raise x, ?c, ?eng\<lparr>engine_workers := ws, producer_infos := (producer_infos ?eng)(?pid \<mapsto> p)\<rparr>, es)"
      using se i ch by (simp add: handle_message_def)
    then show ?thesis using c Some by (simp add: client_message_def Let_def ad set_workers_def set_producer_def)
  next
    case None
    obtain r p' where cp: "conclude_input b (it_input t) p = (r, p')" by (cases "conclude_input b (it_input t) p")
    obtain st msg where r: "r = Inr (st, msg)"
      using cp by (auto simp: conclude_input_def Let_def split: if_splits prod.splits)
    have "handle_message (srv_num_tokens s) ?cb (engine_ids ?eng) c a fc ?eng =
        (if st = SUCCESS then Silent else Respond (make_error_response fc st msg),
         if st = SUCCESS then c' else ?c,
         ?eng\<lparr>engine_workers := ws, producer_infos := (producer_infos ?eng)(?pid \<mapsto> p')\<rparr>, es)"
      using se i ch None cp r c' g(1) by (simp add: handle_message_def)
    then show ?thesis
      using c None cp r c' tp
      by (simp add: client_message_def Let_def ad conclude_task_def settle_input_def set_workers_def set_producer_def
          split: response_write.split)
  qed
qed

lemma start_input_alone:
  assumes wf: "wf_engine_side (srv_engine_side s)"
  shows "finish_alone W (start_input W s gone a fc) = client_message W s a fc"
proof (cases "dict_get (srv_clients s) a")
  case None
  then show ?thesis by (simp add: start_input_def client_message_def)
next
  case (Some c)
  show ?thesis
  proof (cases "dispatches s c fc")
    case False
    then show ?thesis by (simp add: start_input_def Some split: prod.split)
  next
    case True
    let ?t = "new_input_task s c a fc" and ?s = "admit_input s c a fc"
    obtain pr s1 gone1 es1 where r: "resume_input W ?s gone ?t = (pr, s1, gone1, es1)" by (metis prod_cases4)
    obtain e b ws es where d: "dispatch (engine_write W) (it_producer ?t) (it_input ?t) (it_targets ?t) True
        (engine_workers (srv_engine_side s)) = (e, b, ws, es)" by (metis prod_cases4)
    have t: "set (it_targets ?t) \<subseteq> fst ` set (engine_workers (srv_engine_side s))" "it_all_engines_busy ?t"
      by (simp_all add: new_input_task_def targets_are_workers)
    have w: "engine_workers (srv_engine_side ?s) = engine_workers (srv_engine_side s)"
      by (simp add: admit_input_def Let_def)
    have "finish_alone W (pr, s1, gone1, [] @ es1) = client_message W s a fc"
      unfolding client_message_as_task [OF wf Some True refl d]
      by (subst finish_resumed [OF _ _ r]) (use t d w in \<open>auto split: option.split\<close>)
    then show ?thesis by (simp add: start_input_def Some True r)
  qed
qed


definition suspended :: "progress \<times> server \<times> workers \<times> effect list \<Rightarrow> bool" where
  "suspended r = (case fst r of Suspended _ \<Rightarrow> True | Returned _ \<Rightarrow> False)"


end
