(* ===== verification/Flow_Server.thy ===== *)
theory Flow_Server
  imports Server_Effects
begin

text \<open>
  The server as a client sees it: how each handler changes the tokens of one connected client against
  the token returns it sends to that client.  This is the server's half of the end-to-end accounting.
\<close>

section \<open>Settling with one client\<close>

definition registered_ok :: "int \<Rightarrow> effect \<Rightarrow> bool" where
  "registered_ok N x = (case x of SendClient _ (Registered n _) \<Rightarrow> n = N | _ \<Rightarrow> True)"

text \<open>
  A step settles with the client at \<open>a\<close> when every token return it sends is backed by a token it
  credits or by an input it refuses (\<open>d\<close> counts the inputs it has received), every allotment it
  announces is \<open>N\<close>, and no producer drops out of the client's token table.
\<close>

definition settles :: "int \<Rightarrow> address \<Rightarrow> (producer_id \<Rightarrow> nat) \<Rightarrow> server \<Rightarrow> server \<Rightarrow> effect list \<Rightarrow> bool" where
  "settles N a d s s' es \<longleftrightarrow>
     list_all (registered_ok N) es \<and>
     (\<forall>c. dict_get (srv_clients s) a = Some c \<longrightarrow>
        (\<exists>c'. dict_get (srv_clients s') a = Some c' \<and>
           dom (tokens_for_producer c) \<subseteq> dom (tokens_for_producer c') \<and>
           (\<forall>p. tokens_of N c p + int (token_returns a p es) \<le> tokens_of N c' p + int (d p))))"

abbreviation no_inputs :: "producer_id \<Rightarrow> nat" where
  "no_inputs \<equiv> \<lambda>_. 0"

lemma settles_trans:
  assumes "settles N a d s s1 es" and "settles N a no_inputs s1 s2 es'"
  shows "settles N a d s s2 (es @ es')"
  unfolding settles_def
proof (intro conjI allI impI)
  show "list_all (registered_ok N) (es @ es')" using assms unfolding settles_def by simp
  fix c assume "dict_get (srv_clients s) a = Some c"
  then obtain c1 where c1: "dict_get (srv_clients s1) a = Some c1"
    "dom (tokens_for_producer c) \<subseteq> dom (tokens_for_producer c1)"
    "\<And>p. tokens_of N c p + int (token_returns a p es) \<le> tokens_of N c1 p + int (d p)"
    using assms(1) unfolding settles_def by blast
  then obtain c2 where c2: "dict_get (srv_clients s2) a = Some c2"
    "dom (tokens_for_producer c1) \<subseteq> dom (tokens_for_producer c2)"
    "\<And>p. tokens_of N c1 p + int (token_returns a p es') \<le> tokens_of N c2 p"
    using assms(2) unfolding settles_def by fastforce
  have "tokens_of N c p + int (token_returns a p (es @ es')) \<le> tokens_of N c2 p + int (d p)" for p
    using c1(3) [of p] c2(3) [of p] by simp
  with c1(2) c2(1,2) show "\<exists>c'. dict_get (srv_clients s2) a = Some c' \<and>
      dom (tokens_for_producer c) \<subseteq> dom (tokens_for_producer c') \<and>
      (\<forall>p. tokens_of N c p + int (token_returns a p (es @ es')) \<le> tokens_of N c' p + int (d p))" by blast
qed

lemma settles_quiet:
  assumes "srv_clients s' = srv_clients s" and "list_all (registered_ok N) es" and "\<And>p. token_returns a p es = 0"
  shows "settles N a no_inputs s s' es"
  using assms unfolding settles_def by simp

lemma send_result_settles:
  assumes tx: "transport tx" and sr: "send_result tx (srv_clients s) b pid eid r rt = (ok, cs, es)"
    and s': "srv_clients s' = cs"
    and dom: "\<And>c. rt \<Longrightarrow> b = a \<Longrightarrow> dict_get (srv_clients s) a = Some c \<Longrightarrow> pid \<in> dom (tokens_for_producer c)"
  shows "settles N a no_inputs s s' es"
proof (cases "dict_get (srv_clients s) b")
  case None
  then show ?thesis using sr s' by (simp add: send_result_def settles_quiet)
next
  case (Some cl)
  note k = transport.send_result_known [OF tx Some sr]
  have rg: "list_all (registered_ok N) es" by (simp add: k(2) registered_ok_def)
  have cr: "\<exists>c'. dict_get (srv_clients s') a = Some c' \<and>
      dom (tokens_for_producer c) \<subseteq> dom (tokens_for_producer c') \<and>
      (\<forall>p. tokens_of N c p + (if rt \<and> b = a \<and> p = pid then 1 else 0) \<le> tokens_of N c' p)"
    if "dict_get (srv_clients s) a = Some c" for c
  proof (cases "b = a")
    case True
    then have "cl = c" using Some that by simp
    then show ?thesis using dom [OF _ True that] True by (simp add: s' k(1) tokens_of_credit)
  next
    case False
    then show ?thesis using that by (simp add: s' k(1))
  qed
  have tr: "int (token_returns a p es) \<le> (if rt \<and> b = a \<and> p = pid then 1 else 0)" for p
    using transport.send_result_token_returns [OF tx sr, of a p] by auto
  have "\<exists>c'. dict_get (srv_clients s') a = Some c' \<and>
      dom (tokens_for_producer c) \<subseteq> dom (tokens_for_producer c') \<and>
      (\<forall>p. tokens_of N c p + int (token_returns a p es) \<le> tokens_of N c' p)"
    if c: "dict_get (srv_clients s) a = Some c" for c
  proof -
    obtain c' where c': "dict_get (srv_clients s') a = Some c'"
      "dom (tokens_for_producer c) \<subseteq> dom (tokens_for_producer c')"
      "\<And>p. tokens_of N c p + (if rt \<and> b = a \<and> p = pid then 1 else 0) \<le> tokens_of N c' p"
      using cr [OF c] by blast
    have "tokens_of N c p + int (token_returns a p es) \<le> tokens_of N c' p" for p
      using tr [of p] c'(3) [of p] by linarith
    with c'(1,2) show ?thesis by blast
  qed
  with rg show ?thesis unfolding settles_def by simp
qed

lemma engines_updated_settles:
  assumes "transport tx" and "srv_clients s' = srv_clients s"
  shows "settles N a no_inputs s s' (engines_updated_cb tx cs ids)"
proof (rule settles_quiet [OF assms(2)])
  have "list_all (registered_ok N) (snd (tx cs b (EngineIdsUpdate ids)))" for b
    using transport.sends [OF assms(1)] by (simp add: registered_ok_def)
  then show "list_all (registered_ok N) (engines_updated_cb tx cs ids)"
    by (auto simp: engines_updated_cb_def list_all_iff)
qed (rule transport.engines_updated_no_returns [OF assms(1)])

section \<open>Effects on the engine streams\<close>

definition engine_only :: "effect list \<Rightarrow> bool" where
  "engine_only es = list_all (\<lambda>x. case x of SendEngine _ _ \<Rightarrow> True | _ \<Rightarrow> False) es"

lemma engine_only_quiet:
  assumes "engine_only es"
  shows "list_all (registered_ok N) es" and "token_returns a p es = 0"
  using assms by (induction es) (auto simp: engine_only_def registered_ok_def split: effect.splits)

lemma engine_only_simps [simp]:
  "engine_only []" "engine_only (xs @ ys) \<longleftrightarrow> engine_only xs \<and> engine_only ys" "engine_only [SendEngine c m]"
  by (simp_all add: engine_only_def)

lemma send_payload_engine_only: "send_payload wr w mp = (e, w', es) \<Longrightarrow> engine_only es"
  by (auto simp: send_payload_def Let_def split: if_splits)

lemma dispatch_engine_only: "dispatch wr pid mp cs b ws = (e, b', ws', es) \<Longrightarrow> engine_only es"
proof (induction cs arbitrary: b ws e b' ws' es)
  case (Cons c cs)
  show ?case
  proof (cases "dict_get ws c")
    case None
    then show ?thesis using Cons by simp
  next
    case (Some w)
    let ?w = "add_producer pid w"
    obtain e1 w2 es1 where sp: "send_payload wr ?w mp = (e1, w2, es1)" by (metis prod_cases3)
    show ?thesis
      using Cons.prems Some sp Cons.IH send_payload_engine_only [OF sp]
      by (auto simp: Let_def split: if_splits option.splits prod.splits)
  qed
qed simp

lemma send_to_engine_engine_only:
  assumes "send_to_engine wr s fc a i = (r, s', es)"
  shows "engine_only es"
proof -
  from assms refl obtain ws' p' where
    "process_input_from_client wr (engine_workers s)
      (producer_for s (in_producer_id (input_of fc))) fc a i = (r, ws', p', es)"
    by (rule send_to_engine_unfold)
  then show ?thesis
    using dispatch_engine_only
    by (auto simp: process_input_from_client_def Let_def split: if_splits option.splits prod.splits)
qed

lemma engine_next_settles:
  assumes "engine_next W s c w = (e, s', es)"
  shows "settles N a no_inputs s s' es"
proof -
  obtain e1 w2 ps2 es1 where
    sn: "send_next_input (engine_write W) w (producer_infos (srv_engine_side s)) = (e1, w2, ps2, es1)"
    by (metis prod_cases4)
  with assms have es: "es = es1" by (auto simp: engine_next_def Let_def)
  have "engine_only es"
    by (rule send_next_input_cases [of w "producer_infos (srv_engine_side s)" "engine_write W"])
      (use sn es send_payload_engine_only in auto)
  then show ?thesis by (intro settles_quiet engine_next_clients [OF assms] engine_only_quiet)
qed

lemma process_result_settles: "settles N a no_inputs s s (process_result ok sinks r)"
proof (rule settles_quiet)
  show "list_all (registered_ok N) (process_result ok sinks r)"
    by (simp add: process_result_def registered_ok_def list_all_iff)
qed simp_all

section \<open>Engine events\<close>

text \<open>The producer of an in-flight input is in the client's token table.\<close>

lemma in_flight_known:
  assumes inv: "server_inv R N n s" and c: "dict_get (srv_clients s) (md_client_address md) = Some cl"
    and p: "producer_infos (srv_engine_side s) (md_producer_id md) = Some p" "pending p"
      "latest_input_sent_to_engine p = Some mp" "mp_metadata mp = md"
  shows "pi_producer_id p \<in> dom (tokens_for_producer cl)"
proof -
  have "books_sound N cl (owed (srv_engine_side s) (md_client_address md))"
    using server_invD(4) [OF inv] c unfolding clients_ok_def by blast
  moreover have "0 < owed (srv_engine_side s) (md_client_address md) (md_producer_id md)"
    by (rule owed_in_flight [OF p(1-3)]) (simp add: p(4))
  ultimately show ?thesis using credit_in_flight(1) [OF inv c p] unfolding books_sound_def by simp
qed

lemma finish_input_settles:
  assumes tx: "transport (send_via_transport W)" and inv: "server_inv R N n s"
    and p: "producer_infos (srv_engine_side s) (md_producer_id md) = Some p"
    and eq: "finish_input W s c w md p r = (e, s', es)"
  shows "settles N a no_inputs s s' es"
  using wf_producersD(1) [OF wf_engine_sideD(3) [OF server_invD(1) [OF inv]] p]
proof (cases rule: is_first_result_cases [where md = md])
  case (first mp)
  let ?s1 = "clear_pending (md_producer_id md) p s"
  obtain b cs es1 where sr: "send_result (send_via_transport W) (srv_clients s)
      (md_client_address md) (pi_producer_id p) (ew_engine_id w) r True = (b, cs, es1)"
    by (metis prod_cases3)
  obtain e2 s2 es2 where en: "engine_next W (?s1\<lparr>srv_clients := cs\<rparr>) c w = (e2, s2, es2)"
    by (metis prod_cases3)
  have r: "s' = s2" "es = es1 @ es2" using eq sr en first by (auto simp: finish_input_def Let_def)
  have "settles N a no_inputs s (?s1\<lparr>srv_clients := cs\<rparr>) es1"
    by (rule send_result_settles [OF tx sr]) (use in_flight_known [OF inv _ p first(2-4)] in auto)
  then show ?thesis unfolding r by (rule settles_trans) (rule engine_next_settles [OF en])
next
  case later
  obtain b cs0 es0 where sr: "send_result (send_via_transport W) (srv_clients s)
      (md_client_address md) (pi_producer_id p) (ew_engine_id w) r False = (b, cs0, es0)"
    by (metis prod_cases3)
  define cs where "cs = (if ew_all_responses_required w then cs0 else srv_clients s)"
  define es1 where "es1 = (if ew_all_responses_required w then es0 else [])"
  obtain e2 s2 es2 where en: "engine_next W (s\<lparr>srv_clients := cs\<rparr>) c w = (e2, s2, es2)"
    by (metis prod_cases3)
  have r: "s' = s2" "es = es1 @ es2"
    using eq sr later en by (auto simp: finish_input_def cs_def es1_def Let_def split: if_splits)
  have "settles N a no_inputs s (s\<lparr>srv_clients := cs\<rparr>) es1"
    using send_result_settles [OF tx sr, where s' = "s\<lparr>srv_clients := cs0\<rparr>"]
    by (auto simp: cs_def es1_def intro: settles_quiet)
  then show ?thesis unfolding r by (rule settles_trans) (rule engine_next_settles [OF en])
qed

lemma handle_from_engine_settles:
  assumes tx: "transport (send_via_transport W)" and inv: "server_inv R N n s"
    and eq: "handle_from_engine W s c m = (e, s', es)"
  shows "settles N a no_inputs s s' es"
proof -
  have quiet: "settles N a no_inputs s s []" by (rule settles_quiet) simp_all
  show ?thesis
    using eq quiet process_result_settles
      settles_trans [OF process_result_settles finish_input_settles [OF tx inv]]
    by (auto simp: handle_from_engine_def Let_def split: option.splits if_splits prod.splits)
qed

lemma remove_engine_worker_settles:
  assumes tx: "transport (send_via_transport W)" and inv: "server_inv R N n s"
    and w: "dict_get (engine_workers (srv_engine_side s)) c = Some w"
    and eq: "remove_engine_worker W s c = (e, s', es)"
  shows "settles N a no_inputs s s' es"
proof -
  obtain e1 s1 es1 where r: "release_current_input W s w = (e1, s1, es1)" by (metis prod_cases3)
  note R = release_current_input_inv [OF inv r]
  have "settles N a no_inputs s s1 es1"
  proof (rule release_current_input_cases [OF server_invD(1) [OF inv], of W w])
    assume "release_current_input W s w = (None, s, [])"
    then show ?thesis using r by (auto intro: settles_quiet)
  next
    fix md p mp b cs es0
    assume A: "producer_infos (srv_engine_side s) (md_producer_id md) = Some p"
      "latest_input_sent_to_engine p = Some mp" "mp_metadata mp = md"
      and sr: "send_result (send_via_transport W) (srv_clients s) (md_client_address md)
        (pi_producer_id p) (ew_engine_id w) (disconnect_result (ew_engine_id w) md) (pending p) = (b, cs, es0)"
      and "release_current_input W s w =
        (None, (clear_pending (md_producer_id md) p s)\<lparr>srv_clients := cs\<rparr>, es0)"
    then have "srv_clients s1 = cs" "es1 = es0" using r by auto
    then show ?thesis
      using send_result_settles [OF tx sr] in_flight_known [OF inv _ A(1) _ A(2,3)] by auto
  qed
  moreover have "es = es1 @ engines_updated_cb (send_via_transport W) (srv_clients s1)
      (engine_ids (srv_engine_side s'))" "srv_clients s' = srv_clients s1"
    using eq w r R worker_id_in_engine_ids [OF server_invD(1) [OF inv] w]
    by (auto simp: remove_engine_worker_def Let_def)
  ultimately show ?thesis using settles_trans engines_updated_settles [OF tx] by metis
qed

lemma add_engine_worker_settles:
  assumes tx: "transport (send_via_transport W)" and inv: "server_inv R N n s"
    and eq: "add_engine_worker W s k eid arr = (e, s', es)"
  shows "settles N a no_inputs s s' es"
  using inv eq
proof (cases rule: add_engine_worker_cases)
  case new
  then show ?thesis
    using insert_engine_worker_workers(3) [OF new(2)] insert_engine_worker_clients [OF new(2)]
      engines_updated_settles [OF tx] by simp
next
  case (replace j w s1 es1 es2)
  have "settles N a no_inputs s1 s' es2"
    using insert_engine_worker_workers(3) [OF replace(4)] insert_engine_worker_clients [OF replace(4)]
      engines_updated_settles [OF tx] by simp
  then show ?thesis
    using settles_trans [OF remove_engine_worker_settles [OF tx inv replace(1,3)]] replace(5) by simp
qed

lemma engine_session_end_settles:
  assumes tx: "transport (send_via_transport W)" and inv: "server_inv R N n s"
    and eq: "engine_session_end W s k = (e, s', es)"
  shows "settles N a no_inputs s s' es"
proof (cases "dict_get (engine_workers (srv_engine_side s)) k")
  case None
  then have "k \<notin> fst ` set (engine_workers (srv_engine_side s))" by (simp add: map_of_eq_None_iff)
  with eq show ?thesis by (auto simp: engine_session_end_def intro: settles_quiet)
next
  case (Some w)
  then have "remove_engine_worker W s k = (e, s', es)"
    using eq dict_get_in_keys [OF Some] by (simp add: engine_session_end_def)
  from remove_engine_worker_settles [OF tx inv Some this] show ?thesis .
qed

lemma engine_session_message_settles:
  assumes tx: "transport (send_via_transport W)" and inv: "server_inv R N n s"
    and eq: "engine_session_message W s c m = (e, s', es)"
  shows "settles N a no_inputs s s' es"
proof -
  obtain e1 s1 es1 where h: "handle_from_engine W s c m = (e1, s1, es1)" by (metis prod_cases3)
  obtain e2 s2 es2 where d: "engine_session_end W s1 c = (e2, s2, es2)" by (metis prod_cases3)
  note H = handle_from_engine_settles [OF tx inv h]
  have "settles N a no_inputs s s2 (es1 @ es2)"
    by (rule settles_trans [OF H engine_session_end_settles [OF tx _ d]])
      (rule conjunct1 [OF handle_from_engine_inv [OF inv h]])
  with H show ?thesis
    using eq h d by (auto simp: engine_session_message_def split: option.splits)
qed

section \<open>Client messages\<close>

definition input_from :: "from_client \<Rightarrow> producer_id \<Rightarrow> nat" where
  "input_from fc p = (if \<not> is_registration fc \<and> in_producer_id (input_of fc) = p then 1 else 0)"

lemma handle_message_responds:
  assumes "handle_message N cb ids c a fc s = (Respond m, c', s', es)"
  shows "registered_ok N (SendClient a m)" and "token_returns b p [SendClient a m] \<le> (if b = a then input_from fc p else 0)"
proof -
  have "is_registration fc \<and> m = make_registered N ids \<or>
      \<not> is_registration fc \<and> (\<exists>st msg. m = make_error_response fc st msg)"
    using assms
    by (auto simp: handle_message_def consumer_helper_def split: prod.splits sum.splits if_splits option.splits)
  then show "registered_ok N (SendClient a m)"
    and "token_returns b p [SendClient a m] \<le> (if b = a then input_from fc p else 0)"
    by (auto simp: registered_ok_def make_registered_def make_error_response_def input_from_def)
qed

text \<open>The tokens of a client after one of its messages, against what the message is answered with.\<close>

lemma handle_message_tokens:
  assumes "handle_message N (send_to_engine wr) ids c a fc s = (out, c', s', es)"
  shows "engine_only es"
    and "tokens_of N c p \<le> tokens_of N c' p + (if out = Silent then int (input_from fc p) else 0)"
    and "dom (tokens_for_producer c) \<subseteq> dom (tokens_for_producer c')"
proof -
  have "engine_only es \<and> dom (tokens_for_producer c) \<subseteq> dom (tokens_for_producer c') \<and> tokens_of N c p \<le> tokens_of N c' p + (if out = Silent then int (input_from fc p) else 0)"
    using engine_flow.charged_or_not [of fc c N wr s a]
  proof cases
    case (charged i r s1 es1)
    note h = engine_flow.handle_message_charged [OF charged(4,1-3) assms]
    show ?thesis
      using h(2) h(3) [of p] h(4,6) charged(1) send_to_engine_engine_only [OF charged(4)]
      by (auto simp: input_from_def)
  next
    case uncharged
    note h = engine_flow.handle_message_uncharged [OF uncharged assms]
    show ?thesis using h(2) h(3) [of p] h(4) by (simp add: input_from_def)
  qed
  then show "engine_only es"
    and "tokens_of N c p \<le> tokens_of N c' p + (if out = Silent then int (input_from fc p) else 0)"
    and "dom (tokens_for_producer c) \<subseteq> dom (tokens_for_producer c')" by blast+
qed

lemma client_message_settles:
  assumes inv: "server_inv R N n s" and eq: "client_message W s b fc = (e, s', es)"
  shows "settles N a (\<lambda>p. if b = a then input_from fc p else 0) s s' es"
proof (cases "dict_get (srv_clients s) b")
  case None
  then show ?thesis using eq by (auto simp: client_message_def settles_def)
next
  case (Some c)
  have N: "srv_num_tokens s = N" by (rule server_invD(2) [OF inv])
  obtain out c' eng' es1 where h: "handle_message N (send_to_engine (engine_write W))
      (engine_ids (srv_engine_side s)) c b fc (srv_engine_side s) = (out, c', eng', es1)"
    by (metis prod_cases4)
  note T = handle_message_tokens [OF h]
  have cl: "srv_clients s' = dict_set b c' (srv_clients s)"
    and es: "es = es1 \<or> (\<exists>m. out = Respond m \<and> es = es1 @ [SendClient b m])"
    using eq Some h N
    by (auto simp: client_message_def Let_def split: outcome.splits response_write.splits)
  have r: "list_all (registered_ok N) es" "token_returns a p es \<le>
      (if out \<noteq> Silent \<and> b = a then input_from fc p else 0)" for p
    using es engine_only_quiet [OF T(1)] h
    by (auto dest: handle_message_responds(1) handle_message_responds(2) [where b = a and p = p])
  have "tokens_of N c p + int (token_returns a p es) \<le> tokens_of N c' p + int (input_from fc p)" if "b = a" for p
    using T(2) [of p] r(2) [of p] that by (auto split: if_splits)
  moreover have "token_returns a p es = 0" if "b \<noteq> a" for p using r(2) [of p] that by simp
  ultimately show ?thesis
    using r(1) Some T(3) unfolding settles_def cl by (auto simp del: domIff)
qed

section \<open>All events\<close>

definition concerns :: "address \<Rightarrow> event \<Rightarrow> bool" where
  "concerns a ev =
     (case ev of
        ClientConnect b \<Rightarrow> b = a
      | ClientDisconnect b \<Rightarrow> b = a
      | ClientMessage b _ \<Rightarrow> b = a
      | _ \<Rightarrow> False)"

lemma settles_same_tokens:
  assumes "\<And>c. dict_get (srv_clients s) a = Some c \<Longrightarrow>
      \<exists>c'. dict_get (srv_clients s') a = Some c' \<and> tokens_for_producer c' = tokens_for_producer c"
  shows "settles N a no_inputs s s' []"
  using assms unfolding settles_def tokens_of_def by fastforce

lemma server_event_settles:
  assumes tx: "transport (send_via_transport W)" and inv: "server_inv R N n s"
    and ev: "\<not> concerns a ev" and eq: "server_event W s ev = (e, s', es)"
  shows "settles N a no_inputs s s' es"
proof (cases ev)
  case (ClientMessage b fc)
  then show ?thesis
    using client_message_settles [OF inv, of W b fc e s' es a] ev eq by (simp add: server_event_def concerns_def)
next
  case (EngineStart c m)
  then show ?thesis
    using eq add_engine_worker_settles [OF tx inv] settles_quiet [of s s N "[]" a]
    by (auto simp: server_event_def engine_session_start_def split: option.splits from_engine.splits)
next
  case (EngineMessage c m)
  then show ?thesis using engine_session_message_settles [OF tx inv] eq by (simp add: server_event_def)
next
  case (EngineEnd c)
  then show ?thesis using engine_session_end_settles [OF tx inv] eq by (simp add: server_event_def)
qed (use ev eq in \<open>auto simp: server_event_def concerns_def client_connect_def client_disconnect_def
      enqueue_input_def dequeue_input_def dict_get_del intro!: settles_same_tokens split: option.splits\<close>)

end
