(* ===== verification/Event_Loop.thy ===== *)
theory Event_Loop
  imports Await_Points Flow_Server
begin

text \<open>
  The event loop of the server: handlers that run to their end and handlers of inputs that are suspended
  at their writes to the engines, in any order.  The books of the clients are kept as long as a handler
  ends while an engine still works on its input; the runs at the end show what happens otherwise.
\<close>

section \<open>The event loop\<close>

text \<open>
  The event loop: the server, the worker objects that have left \<open>_engine_workers\<close> but may still be
  referenced by a suspended handler, and the suspended handlers.  A producer's inputs arrive on one
  stream, so it has one handler at a time.
\<close>

record event_loop =
  lp_server :: server
  lp_detached :: workers
  lp_tasks :: "((address \<times> producer_id) \<times> input_task) list"

text \<open>
  The event loop runs a handler to its end, starts the handling of a message, or resumes a suspended one.
\<close>

datatype loop_event =
    RunHandler event
  | StartInput address from_client
  | ResumeInput address producer_id

definition detach_workers :: "server \<Rightarrow> server \<Rightarrow> workers \<Rightarrow> workers" where
  "detach_workers s s' gone =
     filter (\<lambda>(c, w). c \<notin> fst ` set (engine_workers (srv_engine_side s'))) (engine_workers (srv_engine_side s)) @ gone"

definition run_loop :: "world \<Rightarrow> event_loop \<Rightarrow> loop_event \<Rightarrow> py_exn option \<times> event_loop \<times> effect list" where
  "run_loop W l ev =
     (case ev of
        RunHandler ev \<Rightarrow>
          (let (e, s', es) = server_event W (lp_server l) ev
           in (e, l\<lparr>lp_server := s', lp_detached := detach_workers (lp_server l) s' (lp_detached l)\<rparr>, es))
      | StartInput a fc \<Rightarrow>
          (let (pr, s', gone, es) = start_input W (lp_server l) (lp_detached l) a fc;
               l' = l\<lparr>lp_server := s', lp_detached := gone\<rparr>
           in case pr of
                Suspended t \<Rightarrow> (None, l'\<lparr>lp_tasks := dict_set (a, it_producer t) t (lp_tasks l)\<rparr>, es)
              | Returned e \<Rightarrow> (e, l', es))
      | ResumeInput a pid \<Rightarrow>
          (case dict_get (lp_tasks l) (a, pid) of
             None \<Rightarrow> (None, l, [])
           | Some t \<Rightarrow>
               (let (pr, s', gone, es) = resume_input W (lp_server l) (lp_detached l) t;
                    l' = l\<lparr>lp_server := s', lp_detached := gone\<rparr>
                in case pr of
                     Suspended t' \<Rightarrow> (None, l'\<lparr>lp_tasks := dict_set (a, pid) t' (lp_tasks l)\<rparr>, es)
                   | Returned e \<Rightarrow> (e, l'\<lparr>lp_tasks := dict_del (a, pid) (lp_tasks l)\<rparr>, es))))"

text \<open>
  Client messages come in through \<open>StartInput\<close>, one at a time for each producer.  A new session has an
  address that no suspended handler uses, and a new engine stream is a new object.
\<close>

definition loop_enabled :: "event_loop \<Rightarrow> loop_event \<Rightarrow> bool" where
  "loop_enabled l ev =
     (case ev of
        RunHandler ev \<Rightarrow> enabled (lp_server l) ev \<and>
          (case ev of
             ClientMessage _ _ \<Rightarrow> False
           | ClientConnect a \<Rightarrow> a \<notin> (fst \<circ> fst) ` set (lp_tasks l)
           | EngineStart c _ \<Rightarrow> c \<notin> fst ` set (lp_detached l)
           | _ \<Rightarrow> True)
      | StartInput a fc \<Rightarrow>
          is_registration fc \<or> (a, in_producer_id (input_of fc)) \<notin> fst ` set (lp_tasks l)
      | ResumeInput _ _ \<Rightarrow> True)"

definition init_loop :: "int \<Rightarrow> nat \<Rightarrow> event_loop" where
  "init_loop N n = \<lparr>lp_server = init_server N n, lp_detached = [], lp_tasks = []\<rparr>"

text \<open>
  A handler ends in time when, as it records its input as the one in flight, a connected engine is
  still working on it.
\<close>

definition some_engine_on :: "workers \<Rightarrow> metadata \<Rightarrow> bool" where
  "some_engine_on ws md =
     list_ex (\<lambda>c. case dict_get ws c of None \<Rightarrow> False | Some w \<Rightarrow> current_input_metadata w = Some md) (map fst ws)"

definition ends_in_time :: "event_loop \<Rightarrow> loop_event \<Rightarrow> event_loop \<Rightarrow> bool" where
  "ends_in_time l ev l' =
     (case ev of
        ResumeInput a pid \<Rightarrow>
          (case dict_get (lp_tasks l) (a, pid) of
             None \<Rightarrow> True
           | Some t \<Rightarrow>
               (case producer_infos (srv_engine_side (lp_server l')) pid of
                  None \<Rightarrow> True
                | Some p \<Rightarrow>
                    latest_input_sent_to_engine p \<noteq> Some (it_input t) \<or>
                    some_engine_on (engine_workers (srv_engine_side (lp_server l'))) (mp_metadata (it_input t))))
      | _ \<Rightarrow> True)"

inductive loop_reachable :: "(event_loop \<Rightarrow> loop_event \<Rightarrow> event_loop \<Rightarrow> bool) \<Rightarrow> int \<Rightarrow> nat \<Rightarrow> event_loop \<Rightarrow> bool"
  for ok N n where
  start: "loop_reachable ok N n (init_loop N n)"
| step: "loop_reachable ok N n l \<Longrightarrow> loop_enabled l ev \<Longrightarrow> transport (send_via_transport W) \<Longrightarrow>
    run_loop W l ev = (e, l', es) \<Longrightarrow> ok l ev l' \<Longrightarrow> loop_reachable ok N n l'"

section \<open>The books under interleaving\<close>

text \<open>A segment of the dispatch loop changes the connected workers only by dispatching the input to them.\<close>

lemma store_worker_dispatched:
  assumes "find_worker_object objs c = Some w" and "dispatched pid md w w'"
  shows "workers_dispatched pid md (fst objs) (fst (store_worker_object c w' objs))"
  using assms
  by (auto simp: find_worker_object_def store_worker_object_def workers_dispatched_set split: option.splits)

lemma dispatch_to_write_dispatched:
  "dispatch_to_write wr pid mp cs b objs = (stop, objs', es) \<Longrightarrow>
     workers_dispatched pid (mp_metadata mp) (fst objs) (fst objs') \<and>
     (\<forall>b'. stop = LoopDone b' \<longrightarrow> b' = b) \<and> (\<forall>x. stop = LoopRaised x \<longrightarrow> x = RpcWriteError)"
proof (induction cs arbitrary: b objs)
  case (Cons c cs)
  show ?case
  proof (cases "find_worker_object objs c")
    case None
    then show ?thesis using Cons.IH [of b objs] Cons.prems by simp
  next
    case (Some w)
    obtain e2 w2 es2 where sp: "send_payload wr (add_producer pid w) mp = (e2, w2, es2)" by (metis prod_cases3)
    show ?thesis
    proof (cases "current_input_metadata w = None")
      case True
      note d = store_worker_dispatched [OF Some dispatched_send [OF sp True]]
      show ?thesis
        using Cons.prems Some True sp d send_payload_error [OF sp] by (auto split: option.splits)
    next
      case False
      then have "dispatch_to_write wr pid mp cs b (store_worker_object c (add_producer pid w) objs) =
          (stop, objs', es)" using Cons.prems Some by auto
      then show ?thesis
        using Cons.IH workers_dispatched_trans [OF store_worker_dispatched [OF Some dispatched_add_producer]]
        by blast
    qed
  qed
qed auto

lemma set_workers_inv:
  assumes inv: "server_inv R N n s" and pid: "pid \<in> dom (producer_infos (srv_engine_side s))"
    and md: "md_producer_id md = pid"
    and d: "workers_dispatched pid md (engine_workers (srv_engine_side s)) ws"
  shows "server_inv R N n (set_workers ws s)"
proof -
  note I = server_invD [OF inv] and W = wf_engine_sideD [OF server_invD(1) [OF inv]]
  have "wf_workers (producer_infos (srv_engine_side s)) ws"
    by (rule wf_workers_dispatched [OF W(1) d order_refl]) (use pid md in simp_all)
  moreover have "wf_producers n ws (producer_infos (srv_engine_side s))"
    using W(3) I(3) working_on_dispatched [OF d] unfolding wf_producers_def by blast
  ultimately show ?thesis
    using inv I(3) W worker_ids_dispatched [OF d]
    by (simp add: server_inv_def wf_engine_side_def set_workers_def owed_def [abs_def])
qed

lemma admit_input_inv:
  assumes inv: "server_inv R N n s" and c: "dict_get (srv_clients s) a = Some c"
  shows "server_inv R N n (admit_input s c a fc)"
proof -
  let ?pid = "in_producer_id (input_of fc)" and ?eng = "srv_engine_side s" and ?eng' = "srv_engine_side (admit_input s c a fc)"
  let ?p = "producer_for ?eng ?pid" and ?c = "ensure_tokens N c ?pid"
  let ?ts = "targets_of (engine_workers ?eng) (in_target_engine_ids (input_of fc))"
  note I = server_invD [OF inv] and W = wf_engine_sideD [OF server_invD(1) [OF inv]]
  note P = wf_producer_for [OF I(1), of ?pid]
  have eng: "?eng' = ?eng\<lparr>producer_infos := (producer_infos ?eng)(?pid \<mapsto> update_targets ?ts ?p)\<rparr>"
    by (simp add: admit_input_def Let_def set_producer_def)
  have "wf_workers (producer_infos ?eng') (engine_workers ?eng)"
    by (rule wf_workers_mono [OF W(1)]) (auto simp: eng)
  moreover have "wf_producers n (engine_workers ?eng) ((producer_infos ?eng)(?pid \<mapsto> update_targets ?ts ?p))"
    by (rule wf_producers_update [OF W(3) [unfolded I(3)]]) (use P I(3) in auto)
  ultimately have "wf_engine_side ?eng'" using I(1,3) by (simp add: eng wf_engine_side_def)
  moreover have "owed ?eng' = owed ?eng"
    by (auto simp: fun_eq_iff owed_def eng producer_for_def split: option.split)
  moreover have "clients_ok R N (srv_clients (admit_input s c a fc)) (owed ?eng)"
  proof -
    have "books_sound N ?c ow" if "books_sound N c ow" for ow
      using that by (auto simp: books_sound_def ensure_tokens_dom simp del: domIff)
    moreover have "books_keep x N ?c ow" if "books_keep x N c ow" for x ow
      using that by (simp add: books_keep_def)
    ultimately show ?thesis
      using I(4) c I(2) by (auto simp: clients_ok_def admit_input_def Let_def split: if_splits)
  qed
  moreover have "srv_num_tokens (admit_input s c a fc) = N" "size_for_queues ?eng' = n"
    using I by (simp_all add: eng) (simp add: admit_input_def Let_def)
  ultimately show ?thesis using I(5,6) by (simp add: server_inv_def)
qed

text \<open>Recording the input as in flight and charging its token keeps the books.\<close>

lemma charged_books:
  assumes b: "books_sound N c ow" "books_keep R N c ow"
    and T: "\<And>p. tokens_of N c' p = tokens_of N c p - (if p = pid then 1 else 0)"
    and D: "dom (tokens_for_producer c') = dom (tokens_for_producer c)"
    and tok: "pid \<in> dom (tokens_for_producer c) \<and> 1 \<le> tokens_of N c pid"
    and R: "charge_closed R" "forfeit_closed R"
    and le: "\<And>p. ow' p \<le> ow p + (if p = pid then 1 else 0)"
  shows "books_sound N c' ow' \<and> books_keep R N c' ow'"
proof
  show "books_sound N c' ow'"
    unfolding books_sound_def
  proof (intro allI conjI impI)
    fix p
    have bp: "0 \<le> tokens_of N c p" "tokens_of N c p + int (ow p) \<le> N"
      "0 < ow p \<longrightarrow> p \<in> dom (tokens_for_producer c)" using b(1) unfolding books_sound_def by blast+
    show "0 \<le> tokens_of N c' p" using T [of p] bp(1) tok by simp
    show "tokens_of N c' p + int (ow' p) \<le> N" using T [of p] bp(2) le [of p] by (auto split: if_splits)
    show "p \<in> dom (tokens_for_producer c')" if "0 < ow' p"
      unfolding D using bp(3) le [of p] tok that by (cases "p = pid") auto
  qed
  show "books_keep R N c' ow'"
    unfolding books_keep_def
  proof
    fix p
    have "R p (tokens_of N c p) (ow p)" using b(2) by (simp add: books_keep_def)
    then have "R p (tokens_of N c' p) (ow p + (if p = pid then 1 else 0))"
      using T [of p] tok R(1) by (auto simp: charge_closed_def)
    then show "R p (tokens_of N c' p) (ow' p)" using forfeit_closed_le [OF R(2) le [of p]] by blast
  qed
qed

lemma conclude_task_inv:
  assumes inv: "server_inv R N n s" and R: "\<forall>a. forfeit_closed (R a)"
    and t: "it_address t = a" "it_producer t = pid" "md_client_address (mp_metadata (it_input t)) = a"
      "md_producer_id (mp_metadata (it_input t)) = pid"
    and p: "producer_infos (srv_engine_side s) pid = Some p"
    and won: "working_on (engine_workers (srv_engine_side s)) (mp_metadata (it_input t))"
    and tok: "\<And>c. dict_get (srv_clients s) a = Some c \<Longrightarrow>
      pid \<in> dom (tokens_for_producer c) \<and> 1 \<le> tokens_of N c pid"
    and eq: "conclude_task W s t False = (e, s', es)"
  shows "server_inv R N n s' \<and> e = None \<and> es = [] \<and>
    producer_infos (srv_engine_side s') = (producer_infos (srv_engine_side s))(pid \<mapsto>
      p\<lparr>latest_input_sent_to_engine := Some (it_input t), pending_token_return := Some True\<rparr>)"
proof -
  let ?mp = "it_input t" and ?eng = "srv_engine_side s"
  let ?p = "p\<lparr>latest_input_sent_to_engine := Some ?mp, pending_token_return := Some True\<rparr>"
  let ?eng' = "?eng\<lparr>producer_infos := (producer_infos ?eng)(pid \<mapsto> ?p)\<rparr>"
  note I = server_invD [OF inv] and Wf = wf_engine_sideD [OF server_invD(1) [OF inv]]
  note P = wf_producersD [OF Wf(3) p]
  have "wf_workers (producer_infos ?eng') (engine_workers ?eng)"
    by (rule wf_workers_mono [OF Wf(1)]) auto
  moreover have "wf_producers n (engine_workers ?eng) ((producer_infos ?eng)(pid \<mapsto> ?p))"
    by (rule wf_producers_update [OF Wf(3) [unfolded I(3)]])
      (use P I(3) won t(4) in \<open>auto simp: wf_producer_info_def\<close>)
  ultimately have wf: "wf_engine_side ?eng'" using I(1,3) by (simp add: wf_engine_side_def)
  have ow: "owed ?eng' b q \<le> owed ?eng b q + (if b = a \<and> q = pid then 1 else 0)" for b q
    using debt_displaced [where p = p and mp = ?mp and b = b] t(3) by (auto simp: owed_def p from_address_def split: if_splits)
  have others: "books_sound N d (owed ?eng' b) \<and> books_keep (R b) N d (owed ?eng' b)"
    if "dict_get (srv_clients s) b = Some d" "b \<noteq> a" for b d
  proof -
    have d: "books_sound N d (owed ?eng b)" "books_keep (R b) N d (owed ?eng b)"
      using I(4) that(1) by (simp_all add: clients_ok_def)
    have le: "owed ?eng' b q \<le> owed ?eng b q" for q using ow [of b q] that(2) by simp
    show ?thesis using books_sound_mono [OF d(1) le] books_keep_mono [OF _ d(2) le] R by simp
  qed
  have st: "conclude_task W s t False =
      (case dict_get (srv_clients s) a of
         None \<Rightarrow> (None, s\<lparr>srv_engine_side := ?eng'\<rparr>, [])
       | Some c \<Rightarrow> (case deduct_token c pid of
           Inl e \<Rightarrow> (Some e, s\<lparr>srv_engine_side := ?eng'\<rparr>, [])
         | Inr c' \<Rightarrow> (None, s\<lparr>srv_engine_side := ?eng', srv_clients := dict_set a c' (srv_clients s)\<rparr>, [])))"
    using t by (simp add: conclude_task_def p conclude_input_def settle_input_def set_producer_def
        split: option.split sum.split)
  show ?thesis
  proof (cases "dict_get (srv_clients s) a")
    case None
    have "clients_ok R N (srv_clients s) (owed ?eng')"
      unfolding clients_ok_def
    proof (intro conjI allI impI)
      show "dict_wf (srv_clients s)" using I(4) by (simp add: clients_ok_def)
    qed (use others None in \<open>metis option.distinct(1)\<close>)+
    moreover have "e = None" "es = []" "s' = s\<lparr>srv_engine_side := ?eng'\<rparr>" using eq st None by simp_all
    ultimately show ?thesis using wf I(2,3,5,6) by (simp add: server_inv_def)
  next
    case (Some c)
    obtain c' where c': "deduct_token c pid = Inr c'" using tok [OF Some] by (auto simp: deduct_token_def domIff)
    have b: "books_sound N c (owed ?eng a)" "books_keep (R a) N c (owed ?eng a)"
      using I(4) Some by (simp_all add: clients_ok_def)
    note T = tokens_of_deduct [OF c', of N] and D = deduct_token_dom [OF c']
    have "books_sound N c' (owed ?eng' a) \<and> books_keep (R a) N c' (owed ?eng' a)"
      by (rule charged_books [OF b T D tok [OF Some] I(5)]) (use ow [of a] R in auto)
    then have "clients_ok R N (dict_set a c' (srv_clients s)) (owed ?eng')"
      unfolding clients_ok_def
    proof (intro conjI allI impI)
      show "dict_wf (dict_set a c' (srv_clients s))" using I(4) by (simp add: clients_ok_def)
    qed (use others in \<open>auto split: if_splits\<close>)
    moreover have "e = None" "es = []"
      "s' = s\<lparr>srv_engine_side := ?eng', srv_clients := dict_set a c' (srv_clients s)\<rparr>"
      using eq st Some c' by simp_all
    ultimately show ?thesis using wf I(2,3,5,6) by (simp add: server_inv_def)
  qed
qed

text \<open>No handler removes a producer.\<close>

definition keeps_producers :: "server \<Rightarrow> server \<Rightarrow> bool" where
  "keeps_producers s s' \<longleftrightarrow> dom (producer_infos (srv_engine_side s)) \<subseteq> dom (producer_infos (srv_engine_side s'))"

lemma keeps_producers_refl [simp]: "keeps_producers s s"
  by (simp add: keeps_producers_def)

lemma keeps_producers_trans: "keeps_producers s t \<Longrightarrow> keeps_producers t u \<Longrightarrow> keeps_producers s u"
  unfolding keeps_producers_def by (rule order_trans)

lemma keeps_producers_clients [simp]:
  "keeps_producers s (t\<lparr>srv_clients := cs\<rparr>) \<longleftrightarrow> keeps_producers s t"
  "keeps_producers s (clear_pending pid p s)"
  by (auto simp: keeps_producers_def clear_pending_def)

lemma engine_next_keeps:
  assumes "engine_next W t c w = (e, s', es)" and "keeps_producers s t"
  shows "keeps_producers s s'"
proof -
  obtain e1 w2 ps2 es1 where
    sn: "send_next_input (engine_write W) w (producer_infos (srv_engine_side t)) = (e1, w2, ps2, es1)"
    by (metis prod_cases4)
  have "dom (producer_infos (srv_engine_side t)) \<subseteq> dom ps2"
    by (rule send_next_input_cases [of w "producer_infos (srv_engine_side t)" "engine_write W"]) (use sn in auto)
  moreover have "producer_infos (srv_engine_side s') = ps2" using assms(1) sn by (auto simp: engine_next_def Let_def)
  ultimately show ?thesis using assms(2) unfolding keeps_producers_def by simp
qed

lemma finish_input_keeps:
  assumes "finish_input W s c w md p r = (e, s', es)"
  shows "keeps_producers s s'"
proof -
  have en: "keeps_producers s (fst (snd (engine_next W t c w)))" if "keeps_producers s t" for t
    using engine_next_keeps [OF _ that] by (metis prod.collapse)
  have "s' = fst (snd (finish_input W s c w md p r))" using assms by simp
  then show ?thesis by (simp add: finish_input_def Let_def split_def en split: sum.split bool.split)
qed

lemma handle_from_engine_keeps:
  assumes "handle_from_engine W s c m = (e, s', es)"
  shows "keeps_producers s s'"
proof -
  have fi: "keeps_producers s (fst (snd (finish_input W s c w md p r)))" for w md p r
    using finish_input_keeps by (metis prod.collapse)
  have "s' = fst (snd (handle_from_engine W s c m))" using assms by simp
  then show ?thesis by (simp add: handle_from_engine_def Let_def split_def fi split: option.split)
qed

lemma release_current_input_keeps: "release_current_input W s w = (e, s', es) \<Longrightarrow> keeps_producers s s'"
  by (auto simp: release_current_input_def Let_def split: option.splits if_splits prod.splits)

lemma remove_engine_worker_keeps:
  assumes "remove_engine_worker W s c = (e, s', es)"
  shows "keeps_producers s s'"
proof (cases "dict_get (engine_workers (srv_engine_side s)) c")
  case None
  with assms show ?thesis by (simp add: remove_engine_worker_def)
next
  case (Some w)
  obtain e1 s1 es1 where r: "release_current_input W s w = (e1, s1, es1)" by (metis prod_cases3)
  have "producer_infos (srv_engine_side s') = producer_infos (srv_engine_side s1)"
    using assms Some r by (auto simp: remove_engine_worker_def Let_def split: option.splits if_splits)
  then show ?thesis using release_current_input_keeps [OF r] by (simp add: keeps_producers_def)
qed

lemma insert_engine_worker_keeps: "insert_engine_worker W s c eid arr = (e, s', es) \<Longrightarrow> keeps_producers s s'"
  by (auto simp: insert_engine_worker_def Let_def keeps_producers_def)

lemma add_engine_worker_keeps:
  assumes inv: "server_inv R N n s" and eq: "add_engine_worker W s c eid arr = (e, s', es)"
  shows "keeps_producers s s'"
  using inv eq
proof (cases rule: add_engine_worker_cases)
  case new
  then show ?thesis by (intro insert_engine_worker_keeps)
next
  case (replace j w s1 es1 es2)
  show ?thesis
    by (rule keeps_producers_trans [OF remove_engine_worker_keeps insert_engine_worker_keeps]) (rule replace(3,4))+
qed

lemma engine_session_end_keeps: "engine_session_end W s c = (e, s', es) \<Longrightarrow> keeps_producers s s'"
  using remove_engine_worker_keeps by (auto simp: engine_session_end_def split: if_splits)

lemma engine_session_message_keeps:
  assumes "engine_session_message W s c m = (e, s', es)"
  shows "keeps_producers s s'"
proof -
  obtain e1 s1 es1 where h: "handle_from_engine W s c m = (e1, s1, es1)" by (metis prod_cases3)
  obtain e2 s2 es2 where d: "engine_session_end W s1 c = (e2, s2, es2)" by (metis prod_cases3)
  have "s' = s1 \<or> s' = s2" using assms h d by (auto simp: engine_session_message_def split: option.splits)
  then show ?thesis
    using handle_from_engine_keeps [OF h] engine_session_end_keeps [OF d] keeps_producers_trans by blast
qed

lemma server_event_keeps:
  assumes inv: "server_inv R N n s" and ev: "\<forall>a fc. ev \<noteq> ClientMessage a fc"
    and eq: "server_event W s ev = (e, s', es)"
  shows "keeps_producers s s'"
proof (cases ev)
  case (EngineStart c m)
  then show ?thesis
    using eq add_engine_worker_keeps [OF inv]
    by (auto simp: server_event_def engine_session_start_def split: option.splits from_engine.splits)
next
  case (EngineMessage c m)
  then show ?thesis using engine_session_message_keeps eq by (simp add: server_event_def)
next
  case (EngineEnd c)
  then show ?thesis using engine_session_end_keeps eq by (simp add: server_event_def)
qed (use ev eq in \<open>auto simp: server_event_def keeps_producers_def client_connect_def client_disconnect_def
      enqueue_input_def dequeue_input_def split: option.splits\<close>)

lemma client_message_keeps:
  assumes "client_message W s a fc = (e, s', es)"
  shows "keeps_producers s s'"
proof (cases "dict_get (srv_clients s) a")
  case None
  with assms show ?thesis by (simp add: client_message_def)
next
  case (Some c)
  obtain out c' eng' es1 where h: "handle_message (srv_num_tokens s) (send_to_engine (engine_write W))
      (engine_ids (srv_engine_side s)) c a fc (srv_engine_side s) = (out, c', eng', es1)" by (metis prod_cases4)
  have "srv_engine_side s' = eng'"
    using assms Some h by (auto simp: client_message_def Let_def split: outcome.splits response_write.splits)
  moreover have "dom (producer_infos (srv_engine_side s)) \<subseteq> dom (producer_infos eng')"
    using engine_flow.charged_or_not [of fc c "srv_num_tokens s" "engine_write W" "srv_engine_side s" a]
  proof cases
    case (charged i r s1 es2)
    have "dom (producer_infos (srv_engine_side s)) \<subseteq> dom (producer_infos s1)"
      by (rule send_to_engine_unfold [OF charged(4) refl]) auto
    then show ?thesis using engine_flow.handle_message_charged(1) [OF charged(4,1-3) h] by simp
  next
    case uncharged
    then show ?thesis using engine_flow.handle_message_uncharged(1) [OF uncharged h] by simp
  qed
  ultimately show ?thesis by (simp add: keeps_producers_def)
qed

text \<open>A client entry that is still there has not lost tokens of a producer.\<close>

definition not_poorer :: "int \<Rightarrow> server \<Rightarrow> server \<Rightarrow> address \<Rightarrow> producer_id \<Rightarrow> bool" where
  "not_poorer N s s' a pid \<longleftrightarrow>
     (\<forall>c'. dict_get (srv_clients s') a = Some c' \<longrightarrow>
        (\<exists>c. dict_get (srv_clients s) a = Some c \<and>
           dom (tokens_for_producer c) \<subseteq> dom (tokens_for_producer c') \<and> tokens_of N c pid \<le> tokens_of N c' pid))"

lemma not_poorer_same: "srv_clients s' = srv_clients s \<Longrightarrow> not_poorer N s s' a pid"
  by (simp add: not_poorer_def)

lemma not_poorer_trans:
  assumes "not_poorer N s t a pid" and "not_poorer N t u a pid"
  shows "not_poorer N s u a pid"
  unfolding not_poorer_def
proof (intro allI impI)
  fix c' assume "dict_get (srv_clients u) a = Some c'"
  then obtain c1 where c1: "dict_get (srv_clients t) a = Some c1"
    "dom (tokens_for_producer c1) \<subseteq> dom (tokens_for_producer c')" "tokens_of N c1 pid \<le> tokens_of N c' pid"
    using assms(2) unfolding not_poorer_def by blast
  then obtain c where "dict_get (srv_clients s) a = Some c"
    "dom (tokens_for_producer c) \<subseteq> dom (tokens_for_producer c1)" "tokens_of N c pid \<le> tokens_of N c1 pid"
    using assms(1) unfolding not_poorer_def by blast
  with c1 show "\<exists>c. dict_get (srv_clients s) a = Some c \<and>
      dom (tokens_for_producer c) \<subseteq> dom (tokens_for_producer c') \<and> tokens_of N c pid \<le> tokens_of N c' pid"
    by fastforce
qed

lemma settles_not_poorer:
  assumes st: "settles N a d s s' es" and d: "d pid = 0" and sc: "same_clients s s'"
  shows "not_poorer N s s' a pid"
  unfolding not_poorer_def
proof (intro allI impI)
  fix c' assume c': "dict_get (srv_clients s') a = Some c'"
  then obtain c where c: "dict_get (srv_clients s) a = Some c"
    using sc unfolding same_clients_def by (metis not_None_eq)
  have "dom (tokens_for_producer c) \<subseteq> dom (tokens_for_producer c')"
    and "tokens_of N c pid + int (token_returns a pid es) \<le> tokens_of N c' pid + int (d pid)"
    using st c c' unfolding settles_def by (metis option.inject)+
  with c d show "\<exists>c. dict_get (srv_clients s) a = Some c \<and>
      dom (tokens_for_producer c) \<subseteq> dom (tokens_for_producer c') \<and> tokens_of N c pid \<le> tokens_of N c' pid" by auto
qed

lemma server_event_not_poorer:
  assumes tx: "transport (send_via_transport W)" and inv: "server_inv R N n s"
    and ev: "\<forall>b fc. ev \<noteq> ClientMessage b fc" "ev \<noteq> ClientConnect a"
    and eq: "server_event W s ev = (e, s', es)"
  shows "not_poorer N s s' a pid"
proof (cases "changes_clients ev")
  case True
  then show ?thesis
    using ev eq by (auto simp: changes_clients_def server_event_def client_connect_def client_disconnect_def
        not_poorer_def dict_get_del split: event.splits if_splits)
next
  case False
  then have "\<not> concerns a ev" using ev by (auto simp: concerns_def changes_clients_def split: event.splits)
  from settles_not_poorer [OF server_event_settles [OF tx inv this eq] refl server_event_same [OF inv False eq]]
  show ?thesis .
qed

lemma client_message_not_poorer:
  assumes inv: "server_inv R N n s" and eq: "client_message W s b fc = (e, s', es)"
    and ne: "is_registration fc \<or> (a, pid) \<noteq> (b, in_producer_id (input_of fc))"
  shows "not_poorer N s s' a pid"
  by (rule settles_not_poorer [OF client_message_settles [OF inv eq] _ client_message_same [OF eq]])
    (use ne in \<open>auto simp: input_from_def\<close>)

text \<open>What holds of a suspended handler: its client, if it is still there, can be charged.\<close>

definition task_ok :: "int \<Rightarrow> server \<Rightarrow> address \<Rightarrow> producer_id \<Rightarrow> input_task \<Rightarrow> bool" where
  "task_ok N s a pid t \<longleftrightarrow>
     it_address t = a \<and> it_producer t = pid \<and> \<not> it_all_engines_busy t \<and>
     md_client_address (mp_metadata (it_input t)) = a \<and> md_producer_id (mp_metadata (it_input t)) = pid \<and>
     pid \<in> dom (producer_infos (srv_engine_side s)) \<and>
     (\<forall>c. dict_get (srv_clients s) a = Some c \<longrightarrow>
        pid \<in> dom (tokens_for_producer c) \<and> 1 \<le> tokens_of N c pid)"

lemma task_ok_mono:
  assumes ok: "task_ok N s a pid t" and k: "keeps_producers s s'" and np: "not_poorer N s s' a pid"
  shows "task_ok N s' a pid t"
proof -
  have "pid \<in> dom (tokens_for_producer c') \<and> 1 \<le> tokens_of N c' pid"
    if c': "dict_get (srv_clients s') a = Some c'" for c'
  proof -
    obtain c where "dict_get (srv_clients s) a = Some c"
      "dom (tokens_for_producer c) \<subseteq> dom (tokens_for_producer c')" "tokens_of N c pid \<le> tokens_of N c' pid"
      using np c' unfolding not_poorer_def by blast
    then show ?thesis using ok unfolding task_ok_def by fastforce
  qed
  then show ?thesis using ok k unfolding task_ok_def keeps_producers_def by blast
qed

text \<open>A segment that ends at a write.\<close>

lemma resume_suspends:
  assumes inv: "server_inv R N n s" and pid: "it_producer t \<in> dom (producer_infos (srv_engine_side s))"
    and md: "md_producer_id (mp_metadata (it_input t)) = it_producer t"
    and eq: "resume_input W s gone t = (Suspended t', s', gone', es)"
  shows "server_inv R N n s'" and "keeps_producers s s'" and "srv_clients s' = srv_clients s"
    and "\<exists>cs. t' = t\<lparr>it_targets := cs, it_all_engines_busy := False\<rparr>"
proof -
  obtain stop ws gone1 es1 where d: "dispatch_to_write (engine_write W) (it_producer t) (it_input t) (it_targets t)
      (it_all_engines_busy t) (engine_workers (srv_engine_side s), gone) = (stop, (ws, gone1), es1)"
    by (metis prod.exhaust)
  have s': "s' = set_workers ws s" and t': "\<exists>cs. t' = t\<lparr>it_targets := cs, it_all_engines_busy := False\<rparr>"
    using eq d by (auto simp: resume_input_def Let_def split: dispatch_stop.splits prod.splits)
  show "server_inv R N n s'"
    unfolding s' by (rule set_workers_inv [OF inv pid md]) (use dispatch_to_write_dispatched [OF d] in simp)
  show "keeps_producers s s'" "srv_clients s' = srv_clients s" by (simp_all add: s' keeps_producers_def)
  show "\<exists>cs. t' = t\<lparr>it_targets := cs, it_all_engines_busy := False\<rparr>" by (rule t')
qed

text \<open>What the end of a handler changes, whatever the books say.\<close>

lemma conclude_task_frame:
  assumes p: "producer_infos (srv_engine_side s) (it_producer t) = Some p"
    and eq: "conclude_task W s t False = (e, s', es)"
  shows "engine_workers (srv_engine_side s') = engine_workers (srv_engine_side s)"
    and "producer_infos (srv_engine_side s') = (producer_infos (srv_engine_side s))(it_producer t \<mapsto>
      p\<lparr>latest_input_sent_to_engine := Some (it_input t), pending_token_return := Some True\<rparr>)"
    and "(b, q) \<noteq> (it_address t, it_producer t) \<Longrightarrow> not_poorer N s s' b q"
proof -
  let ?a = "it_address t" and ?pid = "it_producer t"
  define s1 where "s1 = set_producer ?pid
    (p\<lparr>latest_input_sent_to_engine := Some (it_input t), pending_token_return := Some True\<rparr>) s"
  have s': "s' = s1 \<or> (\<exists>c c'. dict_get (srv_clients s) ?a = Some c \<and> deduct_token c ?pid = Inr c' \<and>
      s' = s1\<lparr>srv_clients := dict_set ?a c' (srv_clients s)\<rparr>)"
    using eq by (auto simp: conclude_task_def p conclude_input_def settle_input_def s1_def split: option.splits sum.splits)
  then show "engine_workers (srv_engine_side s') = engine_workers (srv_engine_side s)"
    and "producer_infos (srv_engine_side s') = (producer_infos (srv_engine_side s))(?pid \<mapsto>
      p\<lparr>latest_input_sent_to_engine := Some (it_input t), pending_token_return := Some True\<rparr>)"
    by (auto simp: s1_def)
  show "not_poorer N s s' b q" if "(b, q) \<noteq> (?a, ?pid)"
    using s' that by (auto simp: s1_def not_poorer_def tokens_of_deduct deduct_token_dom split: if_splits)
qed

text \<open>A segment that ends the handler, in time.\<close>

lemma resume_returns:
  assumes inv: "server_inv R N n s" and R: "\<forall>a. forfeit_closed (R a)" and ok: "task_ok N s a pid t"
    and eq: "resume_input W s gone t = (Returned e, s', gone', es)"
    and time: "\<And>p. producer_infos (srv_engine_side s') pid = Some p \<Longrightarrow>
      latest_input_sent_to_engine p = Some (it_input t) \<Longrightarrow>
      working_on (engine_workers (srv_engine_side s')) (mp_metadata (it_input t))"
  shows "server_inv R N n s' \<and> keeps_producers s s' \<and> only_write_error e \<and>
    (\<forall>b q. (b, q) \<noteq> (a, pid) \<longrightarrow> not_poorer N s s' b q)"
proof -
  have t: "it_address t = a" "it_producer t = pid" "\<not> it_all_engines_busy t"
    "md_client_address (mp_metadata (it_input t)) = a" "md_producer_id (mp_metadata (it_input t)) = pid"
    "pid \<in> dom (producer_infos (srv_engine_side s))"
    and tok: "\<And>c. dict_get (srv_clients s) a = Some c \<Longrightarrow> pid \<in> dom (tokens_for_producer c) \<and> 1 \<le> tokens_of N c pid"
    using ok unfolding task_ok_def by blast+
  obtain stop ws gone1 es1 where d: "dispatch_to_write (engine_write W) (it_producer t) (it_input t) (it_targets t)
      (it_all_engines_busy t) (engine_workers (srv_engine_side s), gone) = (stop, (ws, gone1), es1)"
    by (metis prod.exhaust)
  note D = dispatch_to_write_dispatched [OF d]
  have i1: "server_inv R N n (set_workers ws s)"
    by (rule set_workers_inv [OF inv t(6,5)]) (use D t(2) in simp)
  show ?thesis
  proof (cases stop)
    case (AtWrite cs)
    then show ?thesis using eq d by (simp add: resume_input_def)
  next
    case (LoopRaised x)
    then have "s' = set_workers ws s" "e = Some RpcWriteError" using eq d D by (auto simp: resume_input_def)
    then show ?thesis using i1 by (simp add: keeps_producers_def not_poorer_same)
  next
    case (LoopDone b)
    then have "b = False" using D t(3) by simp
    then obtain es2 where c: "conclude_task W (set_workers ws s) t False = (e, s', es2)"
      using eq d LoopDone by (auto simp: resume_input_def split: prod.splits)
    obtain p where p: "producer_infos (srv_engine_side s) pid = Some p" using t(6) by (auto simp: domIff)
    have p': "producer_infos (srv_engine_side (set_workers ws s)) (it_producer t) = Some p" by (simp add: p t(2))
    note F = conclude_task_frame [OF p' c]
    have "working_on (engine_workers (srv_engine_side (set_workers ws s))) (mp_metadata (it_input t))"
      using time F(1,2) t(2) by simp
    with conclude_task_inv [OF i1 R t(1,2,4,5) p' [unfolded t(2)] _ _ c] tok
    have "server_inv R N n s' \<and> e = None" by simp
    moreover have "keeps_producers s s'" unfolding keeps_producers_def F(2) by auto
    moreover have "not_poorer N s s' b q" if "(b, q) \<noteq> (a, pid)" for b q
      using not_poorer_trans [OF not_poorer_same F(3)] that t(1,2) by simp
    ultimately show ?thesis by simp
  qed
qed

text \<open>The start of a handler: it ends like the atomic handler, or it is suspended with a token to charge.\<close>

lemma start_returns:
  assumes "wf_engine_side (srv_engine_side s)" and "start_input W s gone a fc = (Returned e, s', gone', es)"
  shows "client_message W s a fc = (e, s', es)"
  using start_input_alone [OF assms(1), of W gone a fc] assms(2) by simp

lemma admit_input_frame:
  assumes c: "dict_get (srv_clients s) a = Some c"
  shows "keeps_producers s (admit_input s c a fc)"
    and "in_producer_id (input_of fc) \<in> dom (producer_infos (srv_engine_side (admit_input s c a fc)))"
    and "srv_clients (admit_input s c a fc) =
      dict_set a (ensure_tokens (srv_num_tokens s) c (in_producer_id (input_of fc))) (srv_clients s)"
    and "srv_num_tokens s = N \<Longrightarrow> not_poorer N s (admit_input s c a fc) b q"
proof -
  show k: "keeps_producers s (admit_input s c a fc)"
    and "in_producer_id (input_of fc) \<in> dom (producer_infos (srv_engine_side (admit_input s c a fc)))"
    and cl: "srv_clients (admit_input s c a fc) =
      dict_set a (ensure_tokens (srv_num_tokens s) c (in_producer_id (input_of fc))) (srv_clients s)"
    by (auto simp: admit_input_def Let_def keeps_producers_def)
  show "not_poorer N s (admit_input s c a fc) b q" if "srv_num_tokens s = N"
    using c that unfolding not_poorer_def cl by (auto simp: ensure_tokens_dom split: if_splits simp del: domIff)
qed

lemma start_suspends:
  assumes inv: "server_inv R N n s" and eq: "start_input W s gone a fc = (Suspended t, s', gone', es)"
  shows "server_inv R N n s' \<and> keeps_producers s s' \<and> not_poorer N s s' b q \<and>
    it_producer t = in_producer_id (input_of fc) \<and> task_ok N s' a (it_producer t) t"
proof -
  obtain c where c: "dict_get (srv_clients s) a = Some c" and dp: "dispatches s c fc"
    and r: "resume_input W (admit_input s c a fc) gone (new_input_task s c a fc) = (Suspended t, s', gone', es)"
    using eq by (auto simp: start_input_def split: option.splits if_splits prod.splits)
  let ?s = "admit_input s c a fc" and ?t = "new_input_task s c a fc" and ?pid = "in_producer_id (input_of fc)"
  note N = server_invD(2) [OF inv] and F = admit_input_frame [OF c, where fc = fc]
  have nt: "it_producer ?t = ?pid" "it_address ?t = a" "md_producer_id (mp_metadata (it_input ?t)) = ?pid"
    "md_client_address (mp_metadata (it_input ?t)) = a"
    by (simp_all add: new_input_task_def metadata_payload_of_def)
  have dm: "it_producer ?t \<in> dom (producer_infos (srv_engine_side ?s))" using F(2) nt(1) by simp
  note S = resume_suspends [OF admit_input_inv [OF inv c] dm _ r, unfolded nt, OF refl]
  from S(4) obtain cs where t: "t = ?t\<lparr>it_targets := cs, it_all_engines_busy := False\<rparr>" by blast
  have cl: "srv_clients s' = dict_set a (ensure_tokens N c ?pid) (srv_clients s)" using S(3) F(3) N by simp
  have "?pid \<in> dom (producer_infos (srv_engine_side s'))" using S(2) F(2) unfolding keeps_producers_def by blast
  moreover have "?pid \<in> dom (tokens_for_producer d) \<and> 1 \<le> tokens_of N d ?pid"
    if "dict_get (srv_clients s') a = Some d" for d
  proof -
    have "d = ensure_tokens N c ?pid" using that unfolding cl by simp
    then show ?thesis using dp N ensure_tokens_dom [of N c ?pid] by (simp add: dispatches_def)
  qed
  ultimately have "task_ok N s' a ?pid t" using nt unfolding task_ok_def t by simp
  moreover have "not_poorer N s s' b q" by (rule not_poorer_trans [OF F(4) [OF N] not_poorer_same [OF S(3)]])
  ultimately show ?thesis using S(1) keeps_producers_trans [OF F(1) S(2)] nt(1) t by simp
qed

section \<open>The invariant of the event loop\<close>

definition loop_inv :: "int \<Rightarrow> nat \<Rightarrow> event_loop \<Rightarrow> bool" where
  "loop_inv N n l \<longleftrightarrow>
     server_inv no_accounts N n (lp_server l) \<and>
     (\<forall>a pid t. dict_get (lp_tasks l) (a, pid) = Some t \<longrightarrow> task_ok N (lp_server l) a pid t)"

lemma run_handler_inv:
  assumes inv: "loop_inv N n l" and N: "0 \<le> N" and en: "loop_enabled l (RunHandler ev)"
    and tx: "transport (send_via_transport W)" and eq: "run_loop W l (RunHandler ev) = (e, l', es)"
  shows "loop_inv N n l' \<and> only_write_error e"
proof -
  let ?s = "lp_server l"
  obtain s' where se: "server_event W ?s ev = (e, s', es)"
    and l': "lp_server l' = s'" "lp_tasks l' = lp_tasks l"
    using eq by (auto simp: run_loop_def split: prod.splits)
  have si: "server_inv no_accounts N n ?s" using inv by (simp add: loop_inv_def)
  have ev: "\<forall>b fc. ev \<noteq> ClientMessage b fc" "enabled ?s ev"
    using en by (auto simp: loop_enabled_def)
  have nc: "ev \<noteq> ClientConnect a" if "dict_get (lp_tasks l) (a, pid) = Some t" for a pid t
    using en map_of_SomeD [OF that] by (force simp: loop_enabled_def)
  have "server_inv no_accounts N n s' \<and> only_write_error e"
    by (rule server_event_inv [OF si N ev(2) _ _ se]) (simp_all add: no_accounts_def)
  moreover have "task_ok N s' a pid t" if t: "dict_get (lp_tasks l) (a, pid) = Some t" for a pid t
    by (rule task_ok_mono [OF _ server_event_keeps [OF si ev(1) se]
          server_event_not_poorer [OF tx si ev(1) nc [OF t] se]])
      (use inv t in \<open>simp add: loop_inv_def\<close>)
  ultimately show ?thesis by (simp add: loop_inv_def l')
qed

lemma start_input_inv:
  assumes inv: "loop_inv N n l" and en: "loop_enabled l (StartInput a fc)"
    and eq: "run_loop W l (StartInput a fc) = (e, l', es)"
  shows "loop_inv N n l' \<and> only_write_error e"
proof -
  let ?s = "lp_server l" and ?pid = "in_producer_id (input_of fc)"
  have si: "server_inv no_accounts N n ?s" using inv by (simp add: loop_inv_def)
  have ok: "task_ok N ?s b q t" if "dict_get (lp_tasks l) (b, q) = Some t" for b q t
    using inv that by (simp add: loop_inv_def)
  obtain pr s' gone es1 where st: "start_input W ?s (lp_detached l) a fc = (pr, s', gone, es1)" by (metis prod_cases4)
  show ?thesis
  proof (cases pr)
    case (Suspended t)
    note S = start_suspends [OF si st [unfolded Suspended]]
    have l': "lp_server l' = s'" "lp_tasks l' = dict_set (a, ?pid) t (lp_tasks l)" "e = None"
      using eq st Suspended S by (auto simp: run_loop_def)
    have "task_ok N s' b q u" if "dict_get (lp_tasks l') (b, q) = Some u" for b q u
    proof (cases "(b, q) = (a, ?pid)")
      case True
      then show ?thesis using that S [of a ?pid] l' by auto
    next
      case False
      then have "dict_get (lp_tasks l) (b, q) = Some u" using that l' by (auto split: if_splits)
      from task_ok_mono [OF ok [OF this]] S show ?thesis by blast
    qed
    with S l' show ?thesis by (simp add: loop_inv_def)
  next
    case (Returned x)
    note m = start_returns [OF server_invD(1) [OF si] st [unfolded Returned]]
    have l': "lp_server l' = s'" "lp_tasks l' = lp_tasks l" "e = x"
      using eq st Returned by (auto simp: run_loop_def)
    have "server_inv no_accounts N n s' \<and> only_write_error x" by (rule client_message_inv [OF si _ m]) simp
    moreover have "task_ok N s' b q t" if t: "dict_get (lp_tasks l) (b, q) = Some t" for b q t
    proof (rule task_ok_mono [OF ok [OF t] client_message_keeps [OF m]])
      have "(b, q) \<in> fst ` set (lp_tasks l)" by (rule dict_get_in_keys [OF t])
      then show "not_poorer N ?s s' b q"
        using client_message_not_poorer [OF si m, of b q] en by (auto simp: loop_enabled_def)
    qed
    ultimately show ?thesis by (simp add: loop_inv_def l')
  qed
qed

lemma some_engine_on_working: "some_engine_on ws md \<Longrightarrow> working_on ws md"
  by (auto simp: some_engine_on_def list_ex_iff working_on_def split: option.splits)

lemma resume_input_inv:
  assumes inv: "loop_inv N n l" and eq: "run_loop W l (ResumeInput a pid) = (e, l', es)"
    and time: "ends_in_time l (ResumeInput a pid) l'"
  shows "loop_inv N n l' \<and> only_write_error e"
proof (cases "dict_get (lp_tasks l) (a, pid)")
  case None
  then show ?thesis using inv eq by (simp add: run_loop_def)
next
  case (Some t)
  let ?s = "lp_server l"
  have si: "server_inv no_accounts N n ?s" using inv by (simp add: loop_inv_def)
  have ok: "task_ok N ?s b q u" if "dict_get (lp_tasks l) (b, q) = Some u" for b q u
    using inv that by (simp add: loop_inv_def)
  note T = ok [OF Some]
  obtain pr s' gone es1 where r: "resume_input W ?s (lp_detached l) t = (pr, s', gone, es1)" by (metis prod_cases4)
  show ?thesis
  proof (cases pr)
    case (Suspended t')
    have l': "lp_server l' = s'" "lp_tasks l' = dict_set (a, pid) t' (lp_tasks l)" "e = None"
      using eq Some r Suspended by (auto simp: run_loop_def)
    note S = resume_suspends [OF si _ _ r [unfolded Suspended]]
    have S': "server_inv no_accounts N n s'" "keeps_producers ?s s'" "srv_clients s' = srv_clients ?s"
      "\<exists>cs. t' = t\<lparr>it_targets := cs, it_all_engines_busy := False\<rparr>"
      by (rule S; use T in \<open>simp add: task_ok_def\<close>)+
    have m: "task_ok N s' b q u" if "dict_get (lp_tasks l) (b, q) = Some u" for b q u
      by (rule task_ok_mono [OF ok [OF that] S'(2) not_poorer_same [OF S'(3)]])
    have "task_ok N s' a pid t'" using m [OF Some] S'(4) unfolding task_ok_def by auto
    with m S'(1) l' show ?thesis by (auto simp: loop_inv_def split: if_splits)
  next
    case (Returned x)
    have l': "lp_server l' = s'" "lp_tasks l' = dict_del (a, pid) (lp_tasks l)" "e = x"
      using eq Some r Returned by (auto simp: run_loop_def)
    have "working_on (engine_workers (srv_engine_side s')) (mp_metadata (it_input t))"
      if "producer_infos (srv_engine_side s') pid = Some p" "latest_input_sent_to_engine p = Some (it_input t)" for p
      using time Some l'(1) that some_engine_on_working by (simp add: ends_in_time_def)
    note S = resume_returns [OF si _ T r [unfolded Returned], OF _ this]
    have "task_ok N s' b q u" if u: "dict_get (lp_tasks l') (b, q) = Some u" for b q u
    proof -
      have "(b, q) \<noteq> (a, pid)" "dict_get (lp_tasks l) (b, q) = Some u"
        using u unfolding l' dict_get_del by (auto split: if_splits)
      then show ?thesis using task_ok_mono [OF ok] S by simp
    qed
    with S l' show ?thesis by (simp add: loop_inv_def)
  qed
qed

lemma loop_reachable_inv:
  assumes "loop_reachable ends_in_time N n l" and N: "0 \<le> N"
  shows "loop_inv N n l"
  using assms(1)
proof induction
  case start
  have "server_inv no_accounts N n (init_server N n)" by (rule init_server_inv) simp_all
  then show ?case by (simp add: loop_inv_def init_loop_def)
next
  case (step l ev W e l' es)
  then show ?case
    using run_handler_inv [OF step.IH N] start_input_inv [OF step.IH] resume_input_inv [OF step.IH]
    by (cases ev) blast+
qed

section \<open>Concrete runs\<close>

fun loop_run :: "world \<Rightarrow> event_loop \<Rightarrow> loop_event list \<Rightarrow> event_loop \<times> effect list" where
  "loop_run W l [] = (l, [])"
| "loop_run W l (ev # evs) =
     (let (e, l', es) = run_loop W l ev; (l'', es') = loop_run W l' evs in (l'', es @ es'))"

definition plain_loop_event :: "event_loop \<Rightarrow> loop_event \<Rightarrow> bool" where
  "plain_loop_event l ev =
     (case ev of
        RunHandler ev \<Rightarrow> plain_event (lp_server l) ev \<and>
          (case ev of
             ClientMessage _ _ \<Rightarrow> False
           | EngineStart c _ \<Rightarrow> c \<notin> fst ` set (lp_detached l)
           | _ \<Rightarrow> True)
      | StartInput a fc \<Rightarrow>
          is_registration fc \<or> (a, in_producer_id (input_of fc)) \<notin> fst ` set (lp_tasks l)
      | ResumeInput _ _ \<Rightarrow> True)"

fun loop_run_ok :: "(event_loop \<Rightarrow> loop_event \<Rightarrow> event_loop \<Rightarrow> bool) \<Rightarrow> world \<Rightarrow> event_loop \<Rightarrow> loop_event list \<Rightarrow> bool" where
  "loop_run_ok ok W l [] = True"
| "loop_run_ok ok W l (ev # evs) =
     (let l' = fst (snd (run_loop W l ev)) in plain_loop_event l ev \<and> ok l ev l' \<and> loop_run_ok ok W l' evs)"

lemma plain_loop_event_enabled: "plain_loop_event l ev \<Longrightarrow> loop_enabled l ev"
  by (auto simp: plain_loop_event_def loop_enabled_def plain_event_enabled split: loop_event.splits event.splits)
    (auto simp: plain_event_def)

lemma loop_reachable_run:
  assumes "transport (send_via_transport W)"
  shows "loop_reachable ok N n l \<Longrightarrow> loop_run_ok ok W l evs \<Longrightarrow> loop_reachable ok N n (fst (loop_run W l evs))"
proof (induction evs arbitrary: l)
  case (Cons ev evs)
  obtain e l' es where r: "run_loop W l ev = (e, l', es)" by (metis prod_cases3)
  have "loop_reachable ok N n l'"
    by (rule loop_reachable.step [OF Cons.prems(1) _ assms r])
      (use Cons.prems(2) r plain_loop_event_enabled in \<open>auto simp: Let_def\<close>)
  with Cons r show ?case by (simp add: Let_def split: prod.split) (metis fst_conv)
qed simp

definition connected_loop :: event_loop where
  "connected_loop = \<lparr>lp_server = client_connect (init_server 2 3) ''c'', lp_detached = [], lp_tasks = []\<rparr>"

lemma connected_loop_reachable: "loop_reachable ends_in_time 2 3 connected_loop"
proof -
  have en: "loop_enabled (init_loop 2 3) (RunHandler (ClientConnect ''c''))"
    by (simp add: loop_enabled_def enabled_def owed_def init_server_def init_loop_def)
  have r: "run_loop calm (init_loop 2 3) (RunHandler (ClientConnect ''c'')) = (None, connected_loop, [])"
    by (simp add: run_loop_def server_event_def init_loop_def connected_loop_def detach_workers_def init_server_def)
  show ?thesis
    by (rule loop_reachable.step [OF loop_reachable.start en calm_transport r]) (simp add: ends_in_time_def)
qed

definition engines_up :: "loop_event list" where
  "engines_up = [RunHandler (EngineStart 1 (Some (Register ''e1'' False))),
     RunHandler (EngineStart 2 (Some (Register ''e2'' False))), StartInput ''c'' (Registration None)]"

definition demo_loop :: "loop_event list \<Rightarrow> event_loop" where
  "demo_loop evs = fst (loop_run calm connected_loop (engines_up @ evs))"

definition loop_tokens :: "event_loop \<Rightarrow> int" where
  "loop_tokens l = (case dict_get (srv_clients (lp_server l)) ''c'' of None \<Rightarrow> 0 | Some c \<Rightarrow> tokens_of 2 c ''cam'')"

definition loop_owed :: "event_loop \<Rightarrow> nat" where
  "loop_owed l = owed (srv_engine_side (lp_server l)) ''c'' ''cam''"

text \<open>The writes of a frame to both engines, and the answer of the first engine before the handler goes on.\<close>

definition to_both :: "loop_event list" where
  "to_both = [StartInput ''c'' (frame 1 [''e1'', ''e2'']), ResumeInput ''c'' ''cam'']"

definition engine_answers :: "ctx \<Rightarrow> loop_event" where
  "engine_answers c = RunHandler (EngineMessage c answer)"

definition resume :: loop_event where
  "resume = ResumeInput ''c'' ''cam''"

lemma early_answer_ok:
  "loop_run_ok ends_in_time calm connected_loop (engines_up @ to_both @ [engine_answers 1, resume])"
  by code_simp

section \<open>Properties of the event loop\<close>

text \<open>
  C11. Token safety under interleaving.  Handlers of inputs may be suspended at every write to an engine
  while results, registrations, disconnections and inputs of other producers are handled.  As long as a
  handler ends while some connected engine still works on its input, every connected client has between
  zero and \<open>N\<close> tokens for each producer, tokens and owed inputs never exceed \<open>N\<close>, and a step ends in no
  exception but a failed write.
\<close>

theorem interleaved_tokens_within_allotment:
  assumes "0 \<le> N" and "loop_reachable ends_in_time N n l" and "loop_enabled l ev"
    and "transport (send_via_transport W)" and "run_loop W l ev = (e, l', es)" and "ends_in_time l ev l'"
    and "dict_get (srv_clients (lp_server l')) a = Some c"
  shows "0 \<le> tokens_of N c pid \<and> tokens_of N c pid + int (owed (srv_engine_side (lp_server l')) a pid) \<le> N \<and>
    (e = None \<or> e = Some RpcWriteError)"
proof -
  note inv = loop_reachable_inv [OF assms(2,1)]
  have "loop_inv N n l' \<and> only_write_error e"
    using run_handler_inv [OF inv assms(1)] start_input_inv [OF inv] resume_input_inv [OF inv] assms(3-6)
    by (cases ev) blast+
  then have "server_inv no_accounts N n (lp_server l')" and e: "e = None \<or> e = Some RpcWriteError"
    by (simp_all add: loop_inv_def only_write_error_def)
  from server_invD(4) [OF this(1)] have "books_sound N c (owed (srv_engine_side (lp_server l')) a)"
    using assms(7) unfolding clients_ok_def by blast
  then show ?thesis using e unfolding books_sound_def by blast
qed

theorem interleaved_tokens_within_allotment_witness:
  "loop_tokens (demo_loop (to_both @ [engine_answers 1, resume])) = 1 \<and>
   loop_owed (demo_loop (to_both @ [engine_answers 1, resume])) = 1 \<and> (0::int) \<le> 1 \<and> (1::int) + int 1 \<le> 2"
proof -
  let ?l = "demo_loop (to_both @ [engine_answers 1])"
  have "loop_run_ok ends_in_time calm connected_loop (engines_up @ to_both @ [engine_answers 1])" by code_simp
  from loop_reachable_run [OF calm_transport connected_loop_reachable this]
  have l: "loop_reachable ends_in_time 2 3 ?l" by (simp add: demo_loop_def)
  obtain e l' es where r: "run_loop calm ?l resume = (e, l', es)" by (metis prod_cases3)
  have "ends_in_time ?l resume (fst (snd (run_loop calm ?l resume)))" by code_simp
  then have t: "ends_in_time ?l resume l'" unfolding r by simp
  have "dict_get (srv_clients (lp_server (fst (snd (run_loop calm ?l resume))))) ''c'' \<noteq> None"
    "loop_tokens (fst (snd (run_loop calm ?l resume))) = 1" "loop_owed (fst (snd (run_loop calm ?l resume))) = 1"
    by code_simp+
  then obtain c where c: "dict_get (srv_clients (lp_server l')) ''c'' = Some c" and "tokens_of 2 c ''cam'' = 1"
    "owed (srv_engine_side (lp_server l')) ''c'' ''cam'' = 1"
    unfolding r by (auto simp: loop_tokens_def loop_owed_def)
  moreover have "loop_tokens (demo_loop (to_both @ [engine_answers 1, resume])) = 1"
    "loop_owed (demo_loop (to_both @ [engine_answers 1, resume])) = 1" by code_simp+
  moreover have en: "loop_enabled ?l resume" by (simp add: loop_enabled_def resume_def)
  ultimately show ?thesis
    using interleaved_tokens_within_allotment [OF _ l en calm_transport r t c, of "''cam''"] by simp
qed

text \<open>Messages to clients among the effects.\<close>

definition to_clients :: "effect list \<Rightarrow> effect list" where
  "to_clients es = filter (\<lambda>x. case x of SendClient _ _ \<Rightarrow> True | _ \<Rightarrow> False) es"

definition answered_by :: "event_loop \<Rightarrow> ctx \<Rightarrow> effect list" where
  "answered_by l c = to_clients (snd (snd (run_loop calm l (engine_answers c))))"



end
