(* ===== verification/Engine_Runner.thy ===== *)
theory Engine_Runner
  imports Protocol Tls_Utils
begin

text \<open>
  \<open>engine_runner.py\<close> and \<open>cognitive_engine.py\<close>: how what an engine's \<open>handle\<close> returns becomes a result
  message, the session of an engine with the server, and the loop that reconnects.  The engine itself
  is third-party code and is an argument.
\<close>

section \<open>Construction\<close>

record engine_runner =
  er_engine_id :: engine_id
  er_server_address :: string
  er_all_responses_required :: bool
  er_timeout :: int
  er_request_retries :: int
  er_credentials :: "channel_credentials option"

definition new_engine_runner ::
  "(string \<Rightarrow> bytes option) \<Rightarrow> engine_id \<Rightarrow> string \<Rightarrow> bool \<Rightarrow> int \<Rightarrow> int \<Rightarrow>
     string option \<Rightarrow> string option \<Rightarrow> string option \<Rightarrow> py_exn + engine_runner" where
  "new_engine_runner read_file engine_id server_address all_responses_required timeout request_retries
     tls_ca_cert tls_client_cert tls_client_key =
     (case build_channel_credentials read_file tls_ca_cert tls_client_cert tls_client_key of
        Inl e \<Rightarrow> Inl e
      | Inr creds \<Rightarrow>
          Inr \<lparr>er_engine_id = engine_id, er_server_address = server_address,
               er_all_responses_required = all_responses_required, er_timeout = timeout,
               er_request_retries = request_retries, er_credentials = creds\<rparr>)"

text \<open>The options of the channel to the server.\<close>

definition engine_channel_options :: "(string \<times> int) list" where
  "engine_channel_options =
     [(''grpc.keepalive_time_ms'', 10000), (''grpc.keepalive_timeout_ms'', 5000),
      (''grpc.keepalive_permit_without_calls'', 1), (''grpc.http2.min_ping_interval_without_data_ms'', 5000),
      (''grpc.http2.max_pings_without_data'', 0)]"

section \<open>What an engine returns\<close>

text \<open>
  Python lets \<open>handle\<close> return anything: an object that is not a \<open>Result\<close>, a \<open>Result\<close> whose status is not a
  \<open>Status\<close>, or a proper one whose payload is \<open>None\<close>, a string, bytes, an \<open>Any\<close> or something else.
\<close>

datatype py_payload =
    NoPayload
  | StrPayload string
  | BytesPayload bytes
  | ProtoPayload proto_any
  | OtherPayload

datatype engine_return =
    NotAResult
  | ResultWithBadStatus
  | EngineReturned status py_payload

type_synonym engine_handle = "input_frame \<Rightarrow> proto_any \<Rightarrow> py_exn + engine_return"

section \<open>Building the result message\<close>

text \<open>
  \<open>_build_result_proto\<close>: a message to send, a message to send before the session is torn down
  (\<open>_EngineHandlerError\<close>), or an exception without a message.
\<close>

datatype built =
    Built result
  | HandlerError result
  | BuildRaised py_exn

definition engine_error :: "result \<Rightarrow> message \<Rightarrow> result" where
  "engine_error r msg = r\<lparr>res_status := \<lparr>code = ENGINE_ERROR, message_text = msg\<rparr>\<rparr>"

definition result_for :: "engine_id \<Rightarrow> result" where
  "result_for engine_id = default_result\<lparr>res_target_engine_id := engine_id\<rparr>"

definition build_result_proto :: "engine_id \<Rightarrow> py_exn + engine_return \<Rightarrow> built" where
  "build_result_proto engine_id returned =
     (case returned of
        Inl e \<Rightarrow> BuildRaised e
      | Inr NotAResult \<Rightarrow> HandlerError (engine_error (result_for engine_id) MsgIncorrectResultType)
      | Inr ResultWithBadStatus \<Rightarrow> HandlerError (engine_error (result_for engine_id) MsgIncorrectStatusType)
      | Inr (EngineReturned st payload) \<Rightarrow>
          (let r = (result_for engine_id)\<lparr>res_status := st\<rparr>
           in if code st \<noteq> SUCCESS
              then if status_code_has_name (code st) then Built r else BuildRaised ValueError
              else case payload of
                NoPayload \<Rightarrow> HandlerError (engine_error r MsgNoPayload)
              | StrPayload x \<Rightarrow> Built (r\<lparr>res_payload := Some (StringResult x)\<rparr>)
              | BytesPayload x \<Rightarrow> Built (r\<lparr>res_payload := Some (BytesResult x)\<rparr>)
              | ProtoPayload x \<Rightarrow> Built (r\<lparr>res_payload := Some (AnyResult x)\<rparr>)
              | OtherPayload \<Rightarrow> HandlerError (engine_error r MsgUnsupportedPayload)))"

text \<open>The message that goes out, if any.\<close>

fun message_of :: "built \<Rightarrow> result option" where
  "message_of (Built r) = Some r"
| "message_of (HandlerError r) = Some r"
| "message_of (BuildRaised _) = None"

section \<open>An engine session\<close>

text \<open>
  \<open>engine_loop\<close>: the reader queues the frames it reads, the worker takes them one at a time, and the
  session ends when the reader, the worker or the stop watcher does.  A worker turn carries whether
  its write on the stream goes through.
\<close>

datatype session_end =
    SessionClosed
  | SessionLost
  | SessionRaised py_exn

record engine_session =
  frame_queue :: "(input_frame \<times> proto_any) list"
  sent :: "from_engine list"
  ended :: "session_end option"

datatype session_event =
    ReadFrame to_engine
  | ReadEof
  | ReadFails
  | WorkerTurn bool
  | StopSeen

definition begin_session :: "engine_id \<Rightarrow> bool \<Rightarrow> engine_session" where
  "begin_session engine_id all_responses_required =
     \<lparr>frame_queue = [], sent = [Register engine_id all_responses_required], ended = None\<rparr>"

definition worker_turn :: "engine_handle \<Rightarrow> engine_id \<Rightarrow> bool \<Rightarrow> engine_session \<Rightarrow> engine_session" where
  "worker_turn handle engine_id ok s =
     (case frame_queue s of
        [] \<Rightarrow> s
      | (frame, info) # rest \<Rightarrow>
          (let s1 = s\<lparr>frame_queue := rest\<rparr>
           in case build_result_proto engine_id (handle frame info) of
                Built r \<Rightarrow>
                  (if ok then s1\<lparr>sent := sent s @ [EngineResult r]\<rparr> else s1\<lparr>ended := Some SessionLost\<rparr>)
              | HandlerError r \<Rightarrow>
                  (if ok then s1\<lparr>sent := sent s @ [EngineResult r],
                               ended := Some (SessionRaised GenericException)\<rparr>
                   else s1\<lparr>ended := Some SessionLost\<rparr>)
              | BuildRaised e \<Rightarrow> s1\<lparr>ended := Some (SessionRaised e)\<rparr>))"

definition session_step ::
  "engine_handle \<Rightarrow> engine_id \<Rightarrow> engine_session \<Rightarrow> session_event \<Rightarrow> engine_session" where
  "session_step handle engine_id s ev =
     (if ended s \<noteq> None then s
      else case ev of
        ReadFrame m \<Rightarrow> s\<lparr>frame_queue := frame_queue s @ [(te_input_frame m, te_client_info m)]\<rparr>
      | ReadEof \<Rightarrow> s\<lparr>ended := Some SessionClosed\<rparr>
      | ReadFails \<Rightarrow> s\<lparr>ended := Some SessionLost\<rparr>
      | WorkerTurn ok \<Rightarrow> worker_turn handle engine_id ok s
      | StopSeen \<Rightarrow> s\<lparr>ended := Some SessionClosed\<rparr>)"

definition engine_loop ::
  "engine_handle \<Rightarrow> engine_id \<Rightarrow> bool \<Rightarrow> session_event list \<Rightarrow> engine_session" where
  "engine_loop handle engine_id all_responses_required evs =
     foldl (session_step handle engine_id) (begin_session engine_id all_responses_required) evs"

section \<open>Reconnecting\<close>

text \<open>
  \<open>run_async\<close>: one attempt per turn of the loop, preceded by the test of the stop event.  The attempts
  are what the network does.  The result tells how the loop ended, if it did, and how many attempts
  it made.
\<close>

datatype attempt =
    NotReady
  | SessionOver
  | LostConnection
  | Crashed py_exn

datatype run_end =
    StillRunning
  | Finished
  | RunRaised py_exn

fun run_async :: "int \<Rightarrow> int \<Rightarrow> (bool \<times> attempt) list \<Rightarrow> run_end \<times> nat" where
  "run_async request_retries retries_left [] =
     (if retries_left > 0 then (StillRunning, 0) else (Finished, 0))"
| "run_async request_retries retries_left ((stop, a) # rest) =
     (if stop \<or> retries_left \<le> 0 then (Finished, 0)
      else case a of
        NotReady \<Rightarrow> apsnd Suc (run_async request_retries (retries_left - 1) rest)
      | SessionOver \<Rightarrow> apsnd Suc (run_async request_retries request_retries rest)
      | LostConnection \<Rightarrow> apsnd Suc (run_async request_retries (retries_left - 1) rest)
      | Crashed e \<Rightarrow> (RunRaised e, 1))"

definition failed :: "attempt \<Rightarrow> bool" where
  "failed a \<longleftrightarrow> a = NotReady \<or> a = LostConnection"

text \<open>How a session's end counts for the loop.\<close>

definition attempt_of :: "session_end \<Rightarrow> attempt" where
  "attempt_of e =
     (case e of SessionClosed \<Rightarrow> SessionOver | SessionLost \<Rightarrow> LostConnection | SessionRaised x \<Rightarrow> Crashed x)"

section \<open>Properties\<close>



text \<open>The frames that a list of session events delivers.\<close>

definition frames_of :: "session_event list \<Rightarrow> (input_frame \<times> proto_any) list" where
  "frames_of evs =
     concat (map (\<lambda>ev. case ev of ReadFrame m \<Rightarrow> [(te_input_frame m, te_client_info m)] | _ \<Rightarrow> []) evs)"

definition reply_to :: "engine_handle \<Rightarrow> engine_id \<Rightarrow> input_frame \<times> proto_any \<Rightarrow> from_engine" where
  "reply_to handle eid f =
     EngineResult (the (message_of (build_result_proto eid (handle (fst f) (snd f)))))"

lemma frames_of_snoc [simp]:
  "frames_of (evs @ [ReadFrame m]) = frames_of evs @ [(te_input_frame m, te_client_info m)]"
  "frames_of (evs @ [ReadEof]) = frames_of evs" "frames_of (evs @ [ReadFails]) = frames_of evs"
  "frames_of (evs @ [WorkerTurn b]) = frames_of evs" "frames_of (evs @ [StopSeen]) = frames_of evs"
  by (simp_all add: frames_of_def)

lemma engine_loop_snoc:
  "engine_loop handle eid arr (evs @ [ev]) = session_step handle eid (engine_loop handle eid arr evs) ev"
  by (simp add: engine_loop_def)

text \<open>What a session has done: it answered the first \<open>k\<close> frames and still has the others to do.\<close>

definition answered ::
  "engine_handle \<Rightarrow> engine_id \<Rightarrow> bool \<Rightarrow> (input_frame \<times> proto_any) list \<Rightarrow> engine_session \<Rightarrow> nat \<Rightarrow> bool" where
  "answered handle eid arr frames s k \<longleftrightarrow>
     k \<le> length frames \<and> sent s = Register eid arr # map (reply_to handle eid) (take k frames) \<and>
     (ended s = None \<longrightarrow> frame_queue s = drop k frames)"

lemma answered_snoc_frame:
  "answered handle eid arr frames s k \<Longrightarrow> ended s \<noteq> None \<Longrightarrow> answered handle eid arr (frames @ fs) s k"
  by (auto simp: answered_def)

lemma worker_turn_answered:
  assumes a: "answered handle eid arr frames s k" and e: "ended s = None"
  shows "\<exists>k'. answered handle eid arr frames (worker_turn handle eid ok s) k'"
proof (cases "frame_queue s")
  case Nil
  then have "worker_turn handle eid ok s = s" by (simp add: worker_turn_def)
  with a show ?thesis by auto
next
  case (Cons f rest)
  have q: "drop k frames = f # rest" using a e Cons by (simp add: answered_def)
  then have kl: "k < length frames" by (metis drop_all linorder_not_le list.distinct(1))
  have fk: "frames ! k = f" "drop (Suc k) frames = rest"
    using q kl by (metis nth_via_drop, metis Cons_nth_drop_Suc list.inject)
  have tk: "take (Suc k) frames = take k frames @ [f]" using kl fk(1) by (simp add: take_Suc_conv_app_nth)
  have "answered handle eid arr frames (worker_turn handle eid ok s) (Suc k) \<or>
    answered handle eid arr frames (worker_turn handle eid ok s) k"
    using a kl fk tk Cons
    by (cases f)
      (auto simp: worker_turn_def answered_def reply_to_def Let_def split: built.split if_splits)
  then show ?thesis by blast
qed

text \<open>
  C28. Frames are answered in order, once each.  At every point of an engine session the messages sent
  are the registration followed by one result for each of the first \<open>k\<close> frames received, in the order
  they were received; while the session lasts the other frames wait in the queue in that order.
\<close>

theorem engine_answers_in_order:
  "\<exists>k. answered handle eid arr (frames_of evs) (engine_loop handle eid arr evs) k"
proof (induction evs rule: rev_induct)
  case Nil
  show ?case by (simp add: engine_loop_def begin_session_def frames_of_def answered_def)
next
  case (snoc ev evs)
  then obtain k where k: "answered handle eid arr (frames_of evs) (engine_loop handle eid arr evs) k" ..
  let ?s = "engine_loop handle eid arr evs"
  show ?case
  proof (cases "ended ?s")
    case (Some x)
    then have "answered handle eid arr (frames_of evs @ frames_of [ev]) (session_step handle eid ?s ev) k"
      using answered_snoc_frame [OF k] by (simp add: session_step_def)
    then show ?thesis by (auto simp: engine_loop_snoc frames_of_def)
  next
    case None
    show ?thesis
    proof (cases ev)
      case (WorkerTurn ok)
      with None worker_turn_answered [OF k None, of ok] show ?thesis
        by (simp add: engine_loop_snoc session_step_def)
    qed (use k None in \<open>auto simp: engine_loop_snoc session_step_def answered_def intro!: exI [of _ k]\<close>)
  qed
qed

text \<open>
  C29. The reconnection loop ends.  As long as the stop event is not set, attempts that all fail end
  the loop after exactly the number of retries that are left.
\<close>

theorem run_async_gives_up:
  assumes "0 \<le> left" and "left \<le> int (length xs)" and "list_all (\<lambda>(stop, a). \<not> stop \<and> failed a) xs"
  shows "run_async retries left xs = (Finished, nat left)"
  using assms
proof (induction xs arbitrary: left)
  case Nil
  then show ?case by simp
next
  case (Cons x xs)
  obtain a where x: "x = (False, a)" "failed a" using Cons.prems(3) by (cases x) auto
  show ?case
  proof (cases "left = 0")
    case True
    then show ?thesis by (simp add: x)
  next
    case False
    have "run_async retries (left - 1) xs = (Finished, nat (left - 1))"
      by (rule Cons.IH) (use Cons.prems False in auto)
    moreover have "Suc (nat (left - 1)) = nat left" using Cons.prems(1) False by simp
    ultimately show ?thesis using Cons.prems(1) False x by (auto simp: failed_def)
  qed
qed

theorem run_async_gives_up_witness:
  "run_async 3 3 [(False, NotReady), (False, LostConnection), (False, NotReady), (False, NotReady)] = (Finished, 3)"
  using run_async_gives_up [of 3 "[(False, NotReady), (False, LostConnection), (False, NotReady), (False, NotReady)]" 3]
  by (simp add: failed_def)

lemma run_async_last_failures:
  assumes "run_async n left xs = (Finished, k)" and "list_all (\<lambda>(stop, a). \<not> stop) xs"
    and "0 \<le> left" and "left \<le> n"
  shows "k = nat left \<and> k \<le> length xs \<and> (\<forall>i<k. failed (snd (xs ! i))) \<or>
    nat n \<le> k \<and> k \<le> length xs \<and> (\<forall>i. k - nat n \<le> i \<longrightarrow> i < k \<longrightarrow> failed (snd (xs ! i)))"
  using assms
proof (induction xs arbitrary: left k)
  case Nil
  then show ?case by (auto split: if_splits)
next
  case (Cons x xs)
  obtain a where x: "x = (False, a)" using Cons.prems(2) by (cases x) auto
  show ?case
  proof (cases "left = 0")
    case True
    with Cons.prems(1) x show ?thesis by auto
  next
    case False
    have tail: "list_all (\<lambda>(stop, a). \<not> stop) xs" using Cons.prems(2) by simp
    have step: "(\<forall>i<Suc j. failed (snd ((x # xs) ! i))) \<longleftrightarrow> failed a \<and> (\<forall>i<j. failed (snd (xs ! i)))" for j
      unfolding less_Suc_eq_0_disj by (auto simp: x)
    have later: "\<forall>i. Suc j - nat n \<le> i \<longrightarrow> i < Suc j \<longrightarrow> failed (snd ((x # xs) ! i))"
      if "nat n \<le> j" "\<forall>i. j - nat n \<le> i \<longrightarrow> i < j \<longrightarrow> failed (snd (xs ! i))" for j
      using that by (auto simp: nth_Cons split: nat.split)
    have pos: "0 < left" using Cons.prems(3) False by simp
    show ?thesis
    proof (cases "a = SessionOver")
      case True
      with Cons.prems(1) x pos obtain j where j: "run_async n n xs = (Finished, j)" "k = Suc j"
        by (cases "run_async n n xs") auto
      have "nat n \<le> j \<and> j \<le> length xs \<and> (\<forall>i. j - nat n \<le> i \<longrightarrow> i < j \<longrightarrow> failed (snd (xs ! i)))"
        using Cons.IH [OF j(1) tail] Cons.prems(3,4) by auto
      then show ?thesis using later j(2) by auto
    next
      case ns: False
      have fa: "failed a" using Cons.prems(1) x pos ns by (cases a) (auto simp: failed_def)
      with Cons.prems(1) x pos ns obtain j where j: "run_async n (left - 1) xs = (Finished, j)" "k = Suc j"
        by (cases "run_async n (left - 1) xs") (auto simp: failed_def)
      have nl: "Suc (nat (left - 1)) = nat left" using pos by simp
      from Cons.IH [OF j(1) tail] Cons.prems(4) pos have
        "j = nat (left - 1) \<and> j \<le> length xs \<and> (\<forall>i<j. failed (snd (xs ! i))) \<or>
         nat n \<le> j \<and> j \<le> length xs \<and> (\<forall>i. j - nat n \<le> i \<longrightarrow> i < j \<longrightarrow> failed (snd (xs ! i)))" by simp
      then show ?thesis using later step fa j(2) nl by (auto simp del: nth_Cons_Suc)
    qed
  qed
qed



end
