(* ===== verification/Local_Engine.thy ===== *)
theory Local_Engine
  imports Gabriel_Server Producer_Info Engine_Runner
begin

text \<open>
  \<open>local_engine.py\<close>: a server with one engine in a child process.  \<open>_LocalServer\<close> queues the inputs of
  all clients and hands them to the engine one at a time over a pipe.  It is another engine callback
  for the transport-independent server and another bounded queue.
\<close>

section \<open>The engine process\<close>

text \<open>
  One turn of \<open>_run_engine\<close>: the result that goes back over the pipe; \<open>None\<close> when \<open>handle\<close> raises, which
  ends the process.
\<close>

definition local_result :: "engine_id \<Rightarrow> int \<Rightarrow> py_exn + engine_return \<Rightarrow> result option" where
  "local_result engine_id frame_id returned =
     (let r = default_result\<lparr>res_frame_id := frame_id, res_target_engine_id := engine_id\<rparr>
      in case returned of
           Inl e \<Rightarrow> None
         | Inr NotAResult \<Rightarrow> Some (engine_error r MsgIncorrectResultType)
         | Inr ResultWithBadStatus \<Rightarrow> Some (engine_error r MsgIncorrectStatusType)
         | Inr (EngineReturned st payload) \<Rightarrow>
             (let r1 = r\<lparr>res_status := st\<rparr>
              in if code st \<noteq> SUCCESS then Some r1
                 else case payload of
                   NoPayload \<Rightarrow> Some (engine_error r1 MsgNoPayload)
                 | StrPayload x \<Rightarrow> Some (r1\<lparr>res_payload := Some (StringResult x)\<rparr>)
                 | BytesPayload x \<Rightarrow> Some (r1\<lparr>res_payload := Some (BytesResult x)\<rparr>)
                 | ProtoPayload x \<Rightarrow> Some (r1\<lparr>res_payload := Some (AnyResult x)\<rparr>)
                 | OtherPayload \<Rightarrow> Some (engine_error r1 MsgUnsupportedPayload)))"

section \<open>The local server\<close>

type_synonym local_input = "from_client \<times> address \<times> proto_any"

text \<open>
  The queue, its limit (not positive for no limit, as for \<open>asyncio.Queue\<close>), and the input that
  \<open>_engine_comm\<close> has handed to the engine.
\<close>

record local_server =
  l_input_queue :: "local_input list"
  l_maxsize :: int
  l_engine_id :: engine_id
  l_current :: "local_input option"

definition new_local_server :: "int \<Rightarrow> engine_id \<Rightarrow> local_server" where
  "new_local_server maxsize engine_id =
     \<lparr>l_input_queue = [], l_maxsize = maxsize, l_engine_id = engine_id, l_current = None\<rparr>"

text \<open>The operations of \<open>asyncio.Queue\<close> that are used.\<close>

definition queue_full :: "local_server \<Rightarrow> bool" where
  "queue_full l \<longleftrightarrow> 0 < l_maxsize l \<and> l_maxsize l \<le> int (length (l_input_queue l))"

definition queue_put :: "local_input \<Rightarrow> local_server \<Rightarrow> bool \<times> local_server" where
  "queue_put x l =
     (if queue_full l then (False, l) else (True, l\<lparr>l_input_queue := l_input_queue l @ [x]\<rparr>))"

definition queue_get :: "local_server \<Rightarrow> local_input option \<times> local_server" where
  "queue_get l =
     (case l_input_queue l of [] \<Rightarrow> (None, l) | x # xs \<Rightarrow> (Some x, l\<lparr>l_input_queue := xs\<rparr>))"

definition queue_fits :: "local_server \<Rightarrow> nat \<Rightarrow> bool" where
  "queue_fits l n \<longleftrightarrow> 0 < l_maxsize l \<longrightarrow> int n \<le> l_maxsize l"

interpretation local_queue: bounded_queue l_input_queue queue_full queue_put queue_get queue_fits
  by unfold_locales
    (auto simp: queue_full_def queue_put_def queue_get_def queue_fits_def split: list.splits)

text \<open>\<open>_send_to_engine\<close>, the engine callback.\<close>

definition local_send_to_engine :: "local_server engine_cb" where
  "local_send_to_engine l from_client address info =
     (if queue_full l then (Inr (SERVER_DROPPED_FRAME, MsgInputQueueFull), l, [])
      else (Inr (SUCCESS, empty_message), snd (queue_put (from_client, address, info) l), []))"

text \<open>
  \<open>_engine_comm\<close> in its two halves: take the next input and pass it to the engine, and pass the
  engine's result on to the client together with its token.
\<close>

definition engine_comm_take :: "local_server \<Rightarrow> local_server" where
  "engine_comm_take l =
     (case l_current l of
        Some _ \<Rightarrow> l
      | None \<Rightarrow> (let (x, l') = queue_get l in l'\<lparr>l_current := x\<rparr>))"

definition engine_comm_result ::
  "transport \<Rightarrow> clients \<Rightarrow> local_server \<Rightarrow> result \<Rightarrow> clients \<times> local_server \<times> effect list" where
  "engine_comm_result tx cs l result =
     (case l_current l of
        None \<Rightarrow> (cs, l, [])
      | Some (from_client, address, _) \<Rightarrow>
          (let (_, cs', es) = send_result tx cs address (in_producer_id (input_of from_client))
                 (l_engine_id l) result True
           in (cs', l\<lparr>l_current := None\<rparr>, es)))"

section \<open>Tokens owed by the local server\<close>

definition owed_to :: "address \<Rightarrow> producer_id \<Rightarrow> local_input \<Rightarrow> bool" where
  "owed_to a p x = (case x of (fc, b, _) \<Rightarrow> b = a \<and> in_producer_id (input_of fc) = p)"

definition local_owed :: "local_server \<Rightarrow> address \<Rightarrow> producer_id \<Rightarrow> nat" where
  "local_owed l a p =
     length (filter (owed_to a p) (l_input_queue l)) +
     (case l_current l of None \<Rightarrow> 0 | Some x \<Rightarrow> (if owed_to a p x then 1 else 0))"

definition local_inv :: "local_server \<Rightarrow> bool" where
  "local_inv l \<longleftrightarrow> queue_fits l (length (l_input_queue l))"

lemma local_send_to_engine_owed:
  assumes "local_send_to_engine l fc a i = (r, l', es)"
  shows "local_owed l' b p = local_owed l b p +
    (if accepted r \<and> b = a \<and> p = in_producer_id (input_of fc) then 1 else 0)"
  using assms
  by (auto simp: local_send_to_engine_def queue_put_def local_owed_def owed_to_def
      split: if_splits option.splits)

lemma local_send_to_engine_inv:
  assumes "local_inv l" and "local_send_to_engine l fc a i = (r, l', es)"
  shows "local_inv l'"
  using assms local_queue.put_fits [of l "(fc, a, i)"]
  by (auto simp: local_inv_def local_send_to_engine_def split: if_splits)

interpretation local_flow: flow_control local_send_to_engine local_owed local_inv "\<lambda>_ _. True"
proof
  show "local_inv s \<Longrightarrow> local_send_to_engine s fc a i = (r, s', es) \<Longrightarrow> local_inv s'" for s fc a i r s' es
    by (rule local_send_to_engine_inv)
  show "local_send_to_engine s fc a i = (r, s', es) \<Longrightarrow> token_returns b p es = 0" for s fc a i r s' es b p
    by (auto simp: local_send_to_engine_def split: if_splits)
qed (simp_all add: local_send_to_engine_owed)

section \<open>The whole local server\<close>

record local_state =
  ls_num_tokens :: int
  ls_clients :: clients
  ls_local :: local_server
  ls_engine_alive :: bool

datatype local_event =
    LConnect address
  | LDisconnect address
  | LMessage address from_client
  | LTake
  | EngineTurn "py_exn + engine_return"

definition local_step :: "transport \<Rightarrow> local_state \<Rightarrow> local_event \<Rightarrow> local_state" where
  "local_step tx s ev =
     (case ev of
        LConnect a \<Rightarrow> s\<lparr>ls_clients := dict_set a new_client (ls_clients s)\<rparr>
      | LDisconnect a \<Rightarrow> s\<lparr>ls_clients := dict_del a (ls_clients s)\<rparr>
      | LMessage a fc \<Rightarrow>
          (case dict_get (ls_clients s) a of
             None \<Rightarrow> s
           | Some c \<Rightarrow>
               (let (out, c', l', es) = handle_message (ls_num_tokens s) local_send_to_engine
                      [l_engine_id (ls_local s)] c a fc (ls_local s)
                in s\<lparr>ls_clients := dict_set a c' (ls_clients s), ls_local := l'\<rparr>))
      | LTake \<Rightarrow> s\<lparr>ls_local := engine_comm_take (ls_local s)\<rparr>
      | EngineTurn returned \<Rightarrow>
          (case l_current (ls_local s) of
             None \<Rightarrow> s
           | Some (from_client, _, _) \<Rightarrow>
               (if \<not> ls_engine_alive s then s
                else case local_result (l_engine_id (ls_local s)) (in_frame_id (input_of from_client)) returned of
                  None \<Rightarrow> s\<lparr>ls_engine_alive := False\<rparr>
                | Some r \<Rightarrow>
                    (let (cs', l', es) = engine_comm_result tx (ls_clients s) (ls_local s) r
                     in s\<lparr>ls_clients := cs', ls_local := l'\<rparr>))))"

definition local_start :: "int \<Rightarrow> int \<Rightarrow> engine_id \<Rightarrow> local_state" where
  "local_start N maxsize eid =
     \<lparr>ls_num_tokens = N, ls_clients = [], ls_local = new_local_server maxsize eid, ls_engine_alive = True\<rparr>"

definition local_enabled :: "local_state \<Rightarrow> local_event \<Rightarrow> bool" where
  "local_enabled s ev =
     (case ev of LConnect a \<Rightarrow> (\<forall>p. local_owed (ls_local s) a p = 0) | _ \<Rightarrow> True)"

inductive local_reachable :: "int \<Rightarrow> int \<Rightarrow> engine_id \<Rightarrow> local_state \<Rightarrow> bool" for N maxsize eid where
  start: "local_reachable N maxsize eid (local_start N maxsize eid)"
| step: "local_reachable N maxsize eid s \<Longrightarrow> local_enabled s ev \<Longrightarrow>
    local_reachable N maxsize eid (local_step tx s ev)"

definition local_books :: "int \<Rightarrow> local_state \<Rightarrow> bool" where
  "local_books N s \<longleftrightarrow>
     ls_num_tokens s = N \<and> local_inv (ls_local s) \<and>
     (\<forall>a c. dict_get (ls_clients s) a = Some c \<longrightarrow>
        books_sound N c (local_owed (ls_local s) a) \<and>
        books_keep (exact_account N) N c (local_owed (ls_local s) a))"

lemma local_booksD:
  assumes "local_books N s"
  shows "ls_num_tokens s = N" and "local_inv (ls_local s)"
    and "dict_get (ls_clients s) a = Some c \<Longrightarrow> books_sound N c (local_owed (ls_local s) a)"
    and "dict_get (ls_clients s) a = Some c \<Longrightarrow>
      books_keep (exact_account N) N c (local_owed (ls_local s) a)"
  using assms unfolding local_books_def by blast+

lemma engine_comm_take_owed [simp]: "local_owed (engine_comm_take l) = local_owed l"
  by (auto simp: local_owed_def engine_comm_take_def queue_get_def fun_eq_iff split: option.splits list.splits)

lemma engine_comm_take_inv: "local_inv l \<Longrightarrow> local_inv (engine_comm_take l)"
  using local_queue.fits_get [of l]
  by (auto simp: local_inv_def engine_comm_take_def queue_get_def queue_fits_def split: option.splits list.splits)

lemma local_message_books:
  assumes b: "local_books N s" and c: "dict_get (ls_clients s) a = Some c"
    and h: "handle_message N local_send_to_engine ids c a fc (ls_local s) = (out, c', l', es)"
  shows "local_books N (s\<lparr>ls_clients := dict_set a c' (ls_clients s), ls_local := l'\<rparr>)"
proof -
  note B = local_booksD [OF b]
  have "books_sound N c' (local_owed l' a)"
    by (rule local_flow.handle_message_sound [OF B(2) B(3) [OF c] h])
  moreover have "books_keep (exact_account N) N c' (local_owed l' a)"
    by (rule local_flow.handle_message_keeps [OF B(2) B(4) [OF c] closed_exact(1) _ h]) simp
  moreover have "local_owed l' d = local_owed (ls_local s) d" if "d \<noteq> a" for d
    using local_flow.handle_message_others [OF B(2) that h] by (auto simp: fun_eq_iff)
  moreover have "local_inv l'" by (rule local_flow.handle_message_inv [OF B(2) h])
  ultimately show ?thesis using B(1,3,4) unfolding local_books_def by simp
qed

lemma local_result_books:
  assumes b: "local_books N s" and r: "engine_comm_result tx (ls_clients s) (ls_local s) x = (cs', l', es)"
  shows "local_books N (s\<lparr>ls_clients := cs', ls_local := l'\<rparr>)"
proof (cases "l_current (ls_local s)")
  case None
  with b r show ?thesis by (auto simp: engine_comm_result_def)
next
  case (Some y)
  obtain fc a i where y: "y = (fc, a, i)" by (cases y)
  let ?p = "in_producer_id (input_of fc)"
  note B = local_booksD [OF b]
  have l': "l' = (ls_local s)\<lparr>l_current := None\<rparr>"
    using r Some y by (auto simp: engine_comm_result_def Let_def split: prod.splits)
  have ow: "local_owed l' d p + (if d = a \<and> p = ?p then 1 else 0) = local_owed (ls_local s) d p" for d p
    using Some y by (auto simp: l' local_owed_def owed_to_def)
  have inv: "local_inv l'" using B(2) by (simp add: l' local_inv_def queue_fits_def)
  show ?thesis
  proof (cases "dict_get (ls_clients s) a")
    case None
    then have "cs' = ls_clients s" using r Some y by (simp add: engine_comm_result_def send_result_def)
    moreover have "local_owed l' d = local_owed (ls_local s) d" if "dict_get (ls_clients s) d = Some c" for d c
    proof -
      have "d \<noteq> a" using that None by auto
      then show ?thesis using ow [of d] by (simp add: fun_eq_iff)
    qed
    ultimately show ?thesis using B(1,3,4) inv unfolding local_books_def by simp
  next
    case c: (Some c)
    then have cs': "cs' = dict_set a (credit_token c ?p True) (ls_clients s)"
      using r Some y by (auto simp: engine_comm_result_def send_result_def Let_def split: prod.splits)
    have e: "local_owed l' a p + (if p = ?p \<and> True then 1 else 0) = local_owed (ls_local s) a p" for p
      using ow [of a p] by simp
    have "books_sound N (credit_token c ?p True) (local_owed l' a)"
      by (rule books_sound_credit [OF B(3) [OF c]]) (use e in \<open>simp add: le_eq_less_or_eq\<close>)
    moreover have "books_keep (exact_account N) N (credit_token c ?p True) (local_owed l' a)"
      by (rule books_keep_credit [OF B(3) [OF c] B(4) [OF c] closed_exact(2) e])
    moreover have "local_owed l' d = local_owed (ls_local s) d" if "d \<noteq> a" for d
      using ow [of d] that by (simp add: fun_eq_iff)
    ultimately show ?thesis using B(1,3,4) inv unfolding local_books_def cs' by simp
  qed
qed

lemma local_step_books:
  assumes b: "local_books N s" and N: "0 \<le> N" and en: "local_enabled s ev"
  shows "local_books N (local_step tx s ev)"
proof (cases ev)
  case (LConnect a)
  then show ?thesis
    using b en books_sound_new_client [OF N] books_keep_new_client [where R = "exact_account N"]
    by (auto simp: local_step_def local_books_def local_enabled_def exact_account_def split: if_splits)
next
  case (LDisconnect a)
  then show ?thesis using b by (auto simp: local_step_def local_books_def dict_get_del split: if_splits)
next
  case (LMessage a fc)
  show ?thesis
  proof (cases "dict_get (ls_clients s) a")
    case None
    with b LMessage show ?thesis by (simp add: local_step_def)
  next
    case (Some c)
    obtain out c' l' es where "handle_message N local_send_to_engine [l_engine_id (ls_local s)] c a fc (ls_local s) =
        (out, c', l', es)" by (metis prod_cases4)
    with local_message_books [OF b Some this] LMessage Some local_booksD(1) [OF b] show ?thesis
      by (simp add: local_step_def)
  qed
next
  case LTake
  then show ?thesis using b engine_comm_take_inv by (simp add: local_step_def local_books_def)
next
  case (EngineTurn returned)
  show ?thesis
  proof (cases "local_step tx s ev = s \<or> local_step tx s ev = s\<lparr>ls_engine_alive := False\<rparr>")
    case True
    then show ?thesis using b by (auto simp: local_books_def)
  next
    case False
    then obtain r cs' l' es where "engine_comm_result tx (ls_clients s) (ls_local s) r = (cs', l', es)"
        "local_step tx s ev = s\<lparr>ls_clients := cs', ls_local := l'\<rparr>"
      using EngineTurn by (auto simp: local_step_def split: option.splits prod.splits if_splits)
    with local_result_books [OF b this(1)] show ?thesis by simp
  qed
qed

lemma local_reachable_books:
  assumes "local_reachable N maxsize eid s" and "0 \<le> N"
  shows "local_books N s"
  using assms(1)
proof induction
  case start
  show ?case by (simp add: local_books_def local_inv_def queue_fits_def local_start_def new_local_server_def)
next
  case (step s ev tx)
  then show ?case using local_step_books [OF _ assms(2)] by blast
qed

lemma handle_message_local:
  assumes "handle_message N local_send_to_engine ids c a fc l = (out, c', l', es)"
  shows "l_current l' = l_current l \<and> (\<exists>more. l_input_queue l' = l_input_queue l @ more)"
  using assms
  by (auto simp: handle_message_def consumer_helper_def local_send_to_engine_def queue_put_def Let_def
      split: if_splits option.splits sum.splits)

lemma local_step_dead:
  assumes "\<not> ls_engine_alive s" and "l_current (ls_local s) = Some x"
  shows "\<not> ls_engine_alive (local_step tx s ev) \<and> l_current (ls_local (local_step tx s ev)) = Some x \<and>
    (\<exists>more. l_input_queue (ls_local (local_step tx s ev)) = l_input_queue (ls_local s) @ more)"
proof (cases ev)
  case (LMessage a fc)
  then show ?thesis
    using assms handle_message_local
    by (fastforce simp: local_step_def split: option.splits prod.splits)
qed (use assms in \<open>auto simp: local_step_def engine_comm_take_def split: prod.splits\<close>)

section \<open>Properties\<close>


definition local_demo :: local_state where
  "local_demo = foldl (local_step (\<lambda>cs a m. (True, [SendClient a m])))
     (local_start 2 5 ''e'')
     [LConnect ''c'', LMessage ''c'' (Registration None), LMessage ''c'' (Input default_input_msg), LTake]"


text \<open>
  Both deployments answer alike.  For every return value of an engine whose status code has a name
  the local engine produces the same result message as the engine runner, stamped with the frame id
  that the networked server adds; if \<open>handle\<close> raises, neither produces one.
\<close>

theorem local_and_network_agree:
  assumes "\<And>st p. returned = Inr (EngineReturned st p) \<Longrightarrow> status_code_has_name (code st)"
  shows "local_result eid fid returned =
    map_option (\<lambda>r. r\<lparr>res_frame_id := fid\<rparr>) (message_of (build_result_proto eid returned))"
  using assms
  by (auto simp: local_result_def build_result_proto_def Let_def result_for_def engine_error_def default_result_def
      split: sum.split engine_return.split py_payload.split)

theorem local_and_network_agree_witness:
  "local_result ''e'' 7 (Inr NotAResult) =
     map_option (\<lambda>r. r\<lparr>res_frame_id := 7\<rparr>) (message_of (build_result_proto ''e'' (Inr NotAResult)))"
  by (rule local_and_network_agree) simp

text \<open>
  C31. A crashed local engine stalls the server.  When \<open>handle\<close> raises on an input, the engine process is
  gone for good and that input stays with it through every continuation: it is never answered, and
  neither is anything queued behind it.
\<close>

theorem local_engine_crash_stalls:
  assumes "l_current (ls_local s) = Some x" and "ls_engine_alive s"
  shows "let s' = foldl (local_step tx) s (EngineTurn (Inl e) # evs)
    in \<not> ls_engine_alive s' \<and> l_current (ls_local s') = Some x \<and>
       (\<exists>more. l_input_queue (ls_local s') = l_input_queue (ls_local s) @ more)"
proof -
  have "local_step tx s (EngineTurn (Inl e)) = s\<lparr>ls_engine_alive := False\<rparr>"
    using assms by (auto simp: local_step_def local_result_def split: prod.splits)
  moreover have stay: "\<not> ls_engine_alive (foldl (local_step tx) t evs) \<and>
      l_current (ls_local (foldl (local_step tx) t evs)) = Some x \<and>
      (\<exists>more. l_input_queue (ls_local (foldl (local_step tx) t evs)) = l_input_queue (ls_local t) @ more)"
    if "\<not> ls_engine_alive t" "l_current (ls_local t) = Some x" for t
    using that
  proof (induction evs arbitrary: t)
    case (Cons ev evs)
    from local_step_dead [OF Cons.prems, of tx ev] Cons.IH [of "local_step tx t ev"] show ?case by auto
  qed simp
  ultimately show ?thesis
    using assms stay [of "s\<lparr>ls_engine_alive := False\<rparr>"] unfolding Let_def foldl_Cons by simp
qed

theorem local_engine_crash_stalls_witness:
  "l_current (ls_local (foldl (local_step (\<lambda>cs a m. (True, [SendClient a m]))) local_demo
     [EngineTurn (Inl GenericException), LTake, EngineTurn (Inr NotAResult)])) =
   Some (Input default_input_msg, ''c'', default_any)"
proof -
  have "l_current (ls_local local_demo) = Some (Input default_input_msg, ''c'', default_any)"
    "ls_engine_alive local_demo" by code_simp+
  from local_engine_crash_stalls [OF this, of "\<lambda>cs a m. (True, [SendClient a m])" GenericException
      "[LTake, EngineTurn (Inr NotAResult)]"]
  show ?thesis by (simp add: Let_def)
qed

end
