(* ===== verification/Gabriel_Client.thy ===== *)
theory Gabriel_Client
  imports Protocol
begin

text \<open>
  \<open>gabriel_client.py\<close>: input producers, the token pool of a producer, and what all client transports
  share: registration, the bookkeeping of sent inputs, and the steps from which each transport's
  producer handler is put together.  The locale \<open>flow_client\<close> is the contract between a client and
  the token accounting of the server.
\<close>

section \<open>Input producers\<close>

text \<open>
  \<open>InputProducer\<close>.  The set of target engines is a list without duplicates; its order stands for the
  iteration order of the Python set.  The coroutine that produces the frames is third-party code: what
  it gives is an argument where it is awaited.
\<close>

record input_producer =
  ip_running :: bool
  ip_target_engine_ids :: "engine_id list"
  ip_producer_name :: "string option"
  ip_producer_id :: producer_id

definition new_input_producer :: "string \<Rightarrow> engine_id list \<Rightarrow> string option \<Rightarrow> input_producer" where
  "new_input_producer uuid target_engine_ids producer_name =
     \<lparr>ip_running = True, ip_target_engine_ids = remdups target_engine_ids, ip_producer_name = producer_name,
      ip_producer_id =
        (case producer_name of
           None \<Rightarrow> uuid
         | Some name \<Rightarrow> (if name = [] then uuid else name @ ''-'' @ uuid))\<rparr>"

definition produce :: "input_producer \<Rightarrow> py_exn + input_frame option \<Rightarrow> py_exn + input_frame option" where
  "produce ip produced = (if \<not> ip_running ip then Inl GenericException else produced)"

definition resume_producer :: "input_producer \<Rightarrow> py_exn + input_producer" where
  "resume_producer ip = (if ip_running ip then Inl GenericException else Inr (ip\<lparr>ip_running := True\<rparr>))"

definition stop_producer :: "input_producer \<Rightarrow> input_producer" where
  "stop_producer ip = ip\<lparr>ip_running := False\<rparr>"

definition change_target_engines :: "engine_id list \<Rightarrow> input_producer \<Rightarrow> input_producer" where
  "change_target_engines ids ip = ip\<lparr>ip_target_engine_ids := remdups ids\<rparr>"

definition add_target_engine :: "engine_id \<Rightarrow> input_producer \<Rightarrow> input_producer" where
  "add_target_engine eid ip = ip\<lparr>ip_target_engine_ids := List.insert eid (ip_target_engine_ids ip)\<rparr>"

definition remove_target_engine :: "engine_id \<Rightarrow> input_producer \<Rightarrow> bool \<times> input_producer" where
  "remove_target_engine eid ip =
     (if eid \<notin> set (ip_target_engine_ids ip) then (False, ip)
      else (True, ip\<lparr>ip_target_engine_ids := remove1 eid (ip_target_engine_ids ip)\<rparr>))"

definition get_target_engines :: "input_producer \<Rightarrow> engine_id list" where
  "get_target_engines ip = ip_target_engine_ids ip"

text \<open>What the application may do to a producer at any time.\<close>

datatype producer_op =
    Resume
  | Stop
  | ChangeTargets "engine_id list"
  | AddTarget engine_id
  | RemoveTarget engine_id

definition producer_op_step :: "input_producer \<Rightarrow> producer_op \<Rightarrow> input_producer" where
  "producer_op_step ip op =
     (case op of
        Resume \<Rightarrow> (case resume_producer ip of Inl _ \<Rightarrow> ip | Inr ip' \<Rightarrow> ip')
      | Stop \<Rightarrow> stop_producer ip
      | ChangeTargets ids \<Rightarrow> change_target_engines ids ip
      | AddTarget eid \<Rightarrow> add_target_engine eid ip
      | RemoveTarget eid \<Rightarrow> snd (remove_target_engine eid ip))"

section \<open>Token pools\<close>

text \<open>
  \<open>_TokenPool\<close>: the counter of an \<open>asyncio.BoundedSemaphore\<close>, whose release above the initial value
  raises \<open>ValueError\<close>.  \<open>reset_tokens\<close> replaces it by a \<open>Semaphore\<close>, which has no bound.
  \<open>get_token\<close> gives \<open>None\<close> while it has to wait.
\<close>

record token_pool =
  tp_max_tokens :: int
  tp_value :: int
  tp_bounded :: bool

definition new_token_pool :: "int \<Rightarrow> py_exn + token_pool" where
  "new_token_pool num_tokens =
     (if num_tokens < 0 then Inl ValueError
      else Inr \<lparr>tp_max_tokens = num_tokens, tp_value = num_tokens, tp_bounded = True\<rparr>)"

definition return_token :: "token_pool \<Rightarrow> py_exn + token_pool" where
  "return_token t =
     (if tp_bounded t \<and> tp_max_tokens t \<le> tp_value t then Inl ValueError
      else Inr (t\<lparr>tp_value := tp_value t + 1\<rparr>))"

definition get_token :: "token_pool \<Rightarrow> token_pool option" where
  "get_token t = (if 0 < tp_value t then Some (t\<lparr>tp_value := tp_value t - 1\<rparr>) else None)"

definition is_locked :: "token_pool \<Rightarrow> bool" where
  "is_locked t \<longleftrightarrow> tp_value t = 0"

definition reset_tokens :: "token_pool \<Rightarrow> token_pool" where
  "reset_tokens t = t\<lparr>tp_value := tp_max_tokens t, tp_bounded := False\<rparr>"

definition get_remaining_tokens :: "token_pool \<Rightarrow> int" where
  "get_remaining_tokens t = tp_value t"

section \<open>Client state\<close>

text \<open>
  Where the task of a producer is suspended.  \<open>ph_task\<close> is the frame production that is under way on
  transports that keep it across turns: whether the producer was running when it was started.
\<close>

datatype handler_phase =
    AwaitRegistered
  | LoopTop
  | AwaitToken
  | AwaitConnected
  | AwaitProduce
  | HandlerDone

record producer_handler =
  ph_phase :: handler_phase
  ph_frame_id :: int
  ph_task :: "bool option"

datatype registration_phase =
    RegistrationSend
  | AwaitAck
  | AwaitReregistration
  | RegistrationDone

text \<open>
  The attributes of \<open>GabrielClient\<close>, the producer objects, the running tasks (\<open>gc_consuming\<close>: the
  consumer task waits for a message), and how the client has ended if it has.  Times are monotonic
  clock readings.
\<close>

record gabriel_client =
  gc_running :: bool
  registered_event :: bool
  reregistration_needed :: bool
  input_producers :: "producer_id list"
  producer_objects :: "producer_id \<rightharpoonup> input_producer"
  num_tokens_per_producer :: "int option"
  gc_tokens :: "producer_id \<rightharpoonup> token_pool"
  pending_results :: "producer_id \<times> int \<rightharpoonup> int"
  gc_client_info :: "proto_any option"
  gc_engine_ids :: "engine_id list option"
  gc_registration :: registration_phase
  gc_handlers :: "producer_id \<rightharpoonup> producer_handler"
  gc_consuming :: bool
  gc_ended :: "py_exn option option"

definition idle_handler :: producer_handler where
  "idle_handler = \<lparr>ph_phase = AwaitRegistered, ph_frame_id = 1, ph_task = None\<rparr>"

text \<open>\<open>__init__\<close>, and the tasks as \<open>launch_async\<close> starts them: one per producer.\<close>

definition new_gabriel_client :: "proto_any option \<Rightarrow> input_producer list \<Rightarrow> gabriel_client" where
  "new_gabriel_client info ips =
     \<lparr>gc_running = True, registered_event = False, reregistration_needed = False,
      input_producers = map ip_producer_id ips,
      producer_objects = map_of (map (\<lambda>ip. (ip_producer_id ip, ip)) ips),
      num_tokens_per_producer = None, gc_tokens = Map.empty, pending_results = Map.empty,
      gc_client_info = info, gc_engine_ids = None, gc_registration = RegistrationSend,
      gc_handlers = map_of (map (\<lambda>ip. (ip_producer_id ip, idle_handler)) ips), gc_consuming = True, gc_ended = None\<rparr>"

section \<open>Registration\<close>

text \<open>
  \<open>_wait_while_running\<close> on an event: \<open>None\<close> while it waits (the wait is renewed after each interval),
  otherwise whether the client is still running.
\<close>

definition wait_while_running :: "bool \<Rightarrow> bool \<Rightarrow> bool option" where
  "wait_while_running running event =
     (if \<not> running then Some False else if event then Some True else None)"

lemma wait_while_running_simps [simp]:
  "wait_while_running False event = Some False" "wait_while_running True True = Some True"
  "wait_while_running True False = None"
  by (simp_all add: wait_while_running_def)

definition build_registration_message :: "'a gabriel_client_scheme \<Rightarrow> from_client" where
  "build_registration_message c = Registration (gc_client_info c)"

text \<open>
  \<open>_registration_handler\<close>, from one suspension to the next.  \<open>send\<close> is what the transport's write
  raises, if anything.  In \<open>AwaitAck\<close> without an acknowledgement the retry interval has passed.
\<close>

definition registration_turn ::
  "py_exn option \<Rightarrow> 'a gabriel_client_scheme \<Rightarrow> py_exn option \<times> 'a gabriel_client_scheme \<times> from_client list" where
  "registration_turn send c =
     (let msg = build_registration_message c;
          done = c\<lparr>gc_registration := RegistrationDone\<rparr>;
          await = c\<lparr>gc_registration := AwaitAck\<rparr>
      in case gc_registration c of
           RegistrationSend \<Rightarrow>
             (if \<not> gc_running c then (None, done, [])
              else case send of None \<Rightarrow> (None, await, [msg]) | Some e \<Rightarrow> (Some e, done, []))
         | AwaitAck \<Rightarrow>
             (if \<not> gc_running c then (None, done, [])
              else if registered_event c then (None, c\<lparr>gc_registration := AwaitReregistration\<rparr>, [])
              else case send of None \<Rightarrow> (None, await, [msg]) | Some e \<Rightarrow> (Some e, done, []))
         | AwaitReregistration \<Rightarrow>
             (case wait_while_running (gc_running c) (reregistration_needed c) of
                None \<Rightarrow> (None, c, [])
              | Some False \<Rightarrow> (None, done, [])
              | Some True \<Rightarrow>
                  (None, c\<lparr>reregistration_needed := False, registered_event := False,
                           gc_registration := RegistrationSend\<rparr>, []))
         | RegistrationDone \<Rightarrow> (None, c, []))"

section \<open>Sent inputs\<close>

definition record_send_metrics :: "int \<Rightarrow> from_client \<Rightarrow> 'a gabriel_client_scheme \<Rightarrow> 'a gabriel_client_scheme" where
  "record_send_metrics now from_client c =
     c\<lparr>pending_results := (pending_results c)
         ((in_producer_id (input_of from_client), in_frame_id (input_of from_client)) \<mapsto> now)\<rparr>"

text \<open>The latency is observed only for an input that is pending, and the input stops being pending.\<close>

definition record_response_latency ::
  "int \<Rightarrow> result_wrapper \<Rightarrow> 'a gabriel_client_scheme \<Rightarrow> int option \<times> 'a gabriel_client_scheme" where
  "record_response_latency now w c =
     (let key = (rw_producer_id w, res_frame_id (rw_result w))
      in case pending_results c key of
           None \<Rightarrow> (None, c)
         | Some sent_at \<Rightarrow>
             (Some (now - sent_at), c\<lparr>pending_results := (pending_results c)(key := None)\<rparr>))"

section \<open>Steps of the producer handlers\<close>

text \<open>
  The pieces that the three \<open>_producer_handler\<close> methods have in common.  A turn gives what the task
  raises, the client, and the messages written to the server.
\<close>

definition set_phase ::
  "producer_id \<Rightarrow> handler_phase \<Rightarrow> 'a gabriel_client_scheme \<Rightarrow> 'a gabriel_client_scheme" where
  "set_phase pid ph c =
     (case gc_handlers c pid of
        None \<Rightarrow> c
      | Some h \<Rightarrow> c\<lparr>gc_handlers := (gc_handlers c)(pid \<mapsto> h\<lparr>ph_phase := ph\<rparr>)\<rparr>)"

definition give_back_token ::
  "producer_id \<Rightarrow> 'a gabriel_client_scheme \<Rightarrow> py_exn + 'a gabriel_client_scheme" where
  "give_back_token pid c =
     (case gc_tokens c pid of
        None \<Rightarrow> Inl KeyError
      | Some t \<Rightarrow>
          (case return_token t of
             Inl e \<Rightarrow> Inl e
           | Inr t' \<Rightarrow> Inr (c\<lparr>gc_tokens := (gc_tokens c)(pid \<mapsto> t')\<rparr>)))"

text \<open>Wait for the registration, then create the token pool.\<close>

definition start_handler ::
  "producer_id \<Rightarrow> 'a gabriel_client_scheme \<Rightarrow> py_exn option \<times> 'a gabriel_client_scheme \<times> from_client list" where
  "start_handler pid c =
     (case wait_while_running (gc_running c) (registered_event c) of
        None \<Rightarrow> (None, c, [])
      | Some False \<Rightarrow> (None, set_phase pid HandlerDone c, [])
      | Some True \<Rightarrow>
          (case num_tokens_per_producer c of
             None \<Rightarrow> (Some TypeError, set_phase pid HandlerDone c, [])
           | Some n \<Rightarrow>
               (case new_token_pool n of
                  Inl e \<Rightarrow> (Some e, set_phase pid HandlerDone c, [])
                | Inr t \<Rightarrow> (None, set_phase pid LoopTop (c\<lparr>gc_tokens := (gc_tokens c)(pid \<mapsto> t)\<rparr>), []))))"

text \<open>Return the token and start over.\<close>

definition retry_handler ::
  "producer_id \<Rightarrow> 'a gabriel_client_scheme \<Rightarrow> py_exn option \<times> 'a gabriel_client_scheme \<times> from_client list" where
  "retry_handler pid c =
     (case give_back_token pid c of
        Inl e \<Rightarrow> (Some e, set_phase pid HandlerDone c, [])
      | Inr c' \<Rightarrow> (None, set_phase pid LoopTop c', []))"

text \<open>
  Number the frame, check its targets against the engines the server has announced, and write it.
  What a failed write does to the task differs between the transports: it is the argument \<open>on_error\<close>.
\<close>

definition emit_input ::
  "(py_exn \<Rightarrow> py_exn option) \<Rightarrow> py_exn option \<Rightarrow> int \<Rightarrow> producer_id \<Rightarrow> input_frame \<Rightarrow>
     'a gabriel_client_scheme \<Rightarrow> py_exn option \<times> 'a gabriel_client_scheme \<times> from_client list" where
  "emit_input on_error send now pid frame c =
     (case (gc_handlers c pid, producer_objects c pid) of
        (Some h, Some ip) \<Rightarrow>
          (let targets = get_target_engines ip;
               c1 = c\<lparr>gc_handlers := (gc_handlers c)(pid \<mapsto> h\<lparr>ph_frame_id := ph_frame_id h + 1\<rparr>)\<rparr>;
               msg = Input \<lparr>in_frame_id = ph_frame_id h, in_producer_id = pid,
                            in_target_engine_ids = targets, in_input_frame = frame\<rparr>
           in case gc_engine_ids c of
                None \<Rightarrow> (Some AttributeError, set_phase pid HandlerDone c1, [])
              | Some available \<Rightarrow>
                  (if \<not> set targets \<subseteq> set available
                   then (Some ValueError, set_phase pid HandlerDone c1, [])
                   else (let c2 = record_send_metrics now msg c1
                         in case send of
                              None \<Rightarrow> (None, set_phase pid LoopTop c2, [msg])
                            | Some e \<Rightarrow> (on_error e, set_phase pid HandlerDone c2, []))))
      | _ \<Rightarrow> (None, c, []))"

text \<open>\<open>SerializeToString\<close> gives no bytes exactly for the frame with nothing set.\<close>

definition empty_frame :: "input_frame \<Rightarrow> bool" where
  "empty_frame f \<longleftrightarrow> f = default_input_frame"

section \<open>Client events\<close>

text \<open>
  A message from the server (with the time it arrives), bytes from it that are empty or do not
  parse, the loss of the connection, a turn of a producer task (with what its frame production has
  given by then, what the write raises, and the time), a turn of the registration task, a change of a
  producer by the application, the removal of a producer, a turn of a heartbeat task, and \<open>stop\<close>.
\<close>

datatype client_event =
    FromServer int to_client
  | EmptyBytes
  | UndecodableBytes
  | ConnectionLost int
  | ProducerTurn producer_id "(py_exn + input_frame option) option" "py_exn option" int
  | RegistrationTurn "py_exn option"
  | ProducerChange producer_id producer_op
  | RemoveProducer producer_id
  | HeartbeatTurn int
  | StopClient

text \<open>The events that are the same on every transport.\<close>

definition application_event :: "'a gabriel_client_scheme \<Rightarrow> client_event \<Rightarrow> 'a gabriel_client_scheme" where
  "application_event c ev =
     (case ev of
        ProducerChange pid op \<Rightarrow>
          (case producer_objects c pid of
             None \<Rightarrow> c
           | Some ip \<Rightarrow>
               c\<lparr>producer_objects := (producer_objects c)(pid \<mapsto> producer_op_step ip op)\<rparr>)
      | RemoveProducer pid \<Rightarrow> c\<lparr>input_producers := filter (\<lambda>q. q \<noteq> pid) (input_producers c)\<rparr>
      | StopClient \<Rightarrow> c\<lparr>gc_running := False\<rparr>
      | _ \<Rightarrow> c)"

text \<open>
  The end of every \<open>_process_response\<close>: unless an exception has been raised, return the token.
\<close>

definition return_from_server ::
  "result_wrapper \<Rightarrow> py_exn option \<times> 'a gabriel_client_scheme \<Rightarrow> py_exn option \<times> 'a gabriel_client_scheme" where
  "return_from_server w r =
     (case fst r of
        Some e \<Rightarrow> r
      | None \<Rightarrow>
          (if rw_return_token w
           then case give_back_token (rw_producer_id w) (snd r) of
             Inl e \<Rightarrow> (Some e, snd r)
           | Inr c \<Rightarrow> (None, c)
           else r))"

text \<open>After a message the consumer task tests \<open>_running\<close> and waits for the next one.\<close>

definition consumer_next :: "'a gabriel_client_scheme \<Rightarrow> 'a gabriel_client_scheme" where
  "consumer_next c = c\<lparr>gc_consuming := gc_running c\<rparr>"

text \<open>A task that raises ends a client whose \<open>launch_async\<close> gathers its tasks.\<close>

definition gather ::
  "py_exn option \<times> 'a gabriel_client_scheme \<times> from_client list \<Rightarrow> 'a gabriel_client_scheme \<times> from_client list" where
  "gather r =
     (case r of
        (None, c, ms) \<Rightarrow> (c, ms)
      | (Some e, c, ms) \<Rightarrow> (c\<lparr>gc_consuming := False, gc_ended := Some (Some e)\<rparr>, ms))"

section \<open>Tokens a client holds\<close>

text \<open>
  The tokens a client may still spend for a producer: those in its pool and the one its task has taken
  without having written a frame yet.  Before the pool exists it is the allotment.
\<close>

definition holds_token :: "'a gabriel_client_scheme \<Rightarrow> producer_id \<Rightarrow> bool" where
  "holds_token c pid =
     (case gc_handlers c pid of
        None \<Rightarrow> False
      | Some h \<Rightarrow> ph_phase h = AwaitConnected \<or> ph_phase h = AwaitProduce)"

definition spendable :: "int \<Rightarrow> 'a gabriel_client_scheme \<Rightarrow> producer_id \<Rightarrow> int" where
  "spendable N c pid =
     (case gc_tokens c pid of None \<Rightarrow> N | Some t \<Rightarrow> tp_value t) + (if holds_token c pid then 1 else 0)"

text \<open>
  An input of a producer, as the server counts it: a message with nothing set reads as an input with
  default values.
\<close>

fun is_input_of :: "producer_id \<Rightarrow> from_client \<Rightarrow> bool" where
  "is_input_of pid (Input i) = (in_producer_id i = pid)"
| "is_input_of pid (Registration _) = False"
| "is_input_of pid FromClientUnset = (in_producer_id default_input_msg = pid)"

definition inputs_of :: "producer_id \<Rightarrow> from_client list \<Rightarrow> nat" where
  "inputs_of pid ms = length (filter (is_input_of pid) ms)"

fun gives_token :: "producer_id \<Rightarrow> to_client \<Rightarrow> bool" where
  "gives_token pid (ResultWrapper w) = (rw_producer_id w = pid \<and> rw_return_token w)"
| "gives_token pid _ = False"

text \<open>
  The bookkeeping invariant: the pools have the size the server has announced, are bounded and are
  not overdrawn, and only a task with a pool can be past its start.
\<close>

definition pool_ok :: "int \<Rightarrow> token_pool \<Rightarrow> bool" where
  "pool_ok N t \<longleftrightarrow> tp_max_tokens t = N \<and> tp_bounded t \<and> 0 \<le> tp_value t \<and> tp_value t \<le> N"

definition client_inv :: "int \<Rightarrow> 'a gabriel_client_scheme \<Rightarrow> bool" where
  "client_inv N c \<longleftrightarrow>
     (num_tokens_per_producer c = None \<or> num_tokens_per_producer c = Some N) \<and>
     (\<forall>pid t. gc_tokens c pid = Some t \<longrightarrow> pool_ok N t) \<and>
     (\<forall>pid h. gc_handlers c pid = Some h \<longrightarrow>
        (ph_phase h = AwaitRegistered \<longrightarrow> gc_tokens c pid = None) \<and>
        (ph_phase h \<noteq> AwaitRegistered \<and> ph_phase h \<noteq> HandlerDone \<longrightarrow> gc_tokens c pid \<noteq> None))"

section \<open>The handler steps keep the books\<close>

text \<open>A turn keeps the books when it keeps the invariant and pays for every input it sends.\<close>

definition turn_keeps ::
  "int \<Rightarrow> 'a gabriel_client_scheme \<Rightarrow> py_exn option \<times> 'a gabriel_client_scheme \<times> from_client list \<Rightarrow> bool" where
  "turn_keeps N c r \<longleftrightarrow>
     client_inv N (fst (snd r)) \<and>
     (\<forall>p. spendable N (fst (snd r)) p + int (inputs_of p (snd (snd r))) \<le> spendable N c p)"

lemma turn_keeps_refl [simp]: "client_inv N c \<Longrightarrow> turn_keeps N c (e, c, [])"
  by (simp add: turn_keeps_def inputs_of_def)

lemma client_invD:
  assumes "client_inv N c"
  shows "gc_tokens c pid = Some t \<Longrightarrow> pool_ok N t"
    and "gc_handlers c pid = Some h \<Longrightarrow> ph_phase h = AwaitRegistered \<Longrightarrow> gc_tokens c pid = None"
    and "gc_handlers c pid = Some h \<Longrightarrow> ph_phase h \<noteq> AwaitRegistered \<Longrightarrow> ph_phase h \<noteq> HandlerDone \<Longrightarrow>
      \<exists>t. gc_tokens c pid = Some t"
  using assms unfolding client_inv_def by blast+

lemma turn_keeps_cong:
  assumes "turn_keeps N c1 r" and "\<And>p. spendable N c1 p = spendable N c p"
  shows "turn_keeps N c r"
  using assms unfolding turn_keeps_def by simp

text \<open>
  A turn of one task: it may change its own pool and phase, and pays for what it sends.
\<close>

definition purse :: "int \<Rightarrow> token_pool option \<Rightarrow> producer_handler \<Rightarrow> int" where
  "purse N pool h =
     (case pool of None \<Rightarrow> N | Some t \<Rightarrow> tp_value t) +
     (if ph_phase h = AwaitConnected \<or> ph_phase h = AwaitProduce then 1 else 0)"

lemma spendable_purse: "gc_handlers c pid = Some h \<Longrightarrow> spendable N c pid = purse N (gc_tokens c pid) h"
  by (simp add: spendable_def holds_token_def purse_def)

lemma turn_keepsI:
  assumes inv: "client_inv N c" and h: "gc_handlers c pid = Some h"
    and c': "gc_handlers c' = (gc_handlers c)(pid \<mapsto> h')" "gc_tokens c' = (gc_tokens c)(pid := pool)"
      "num_tokens_per_producer c' = num_tokens_per_producer c"
    and ph: "ph_phase h' \<noteq> AwaitRegistered" "ph_phase h' = HandlerDone \<or> pool \<noteq> None"
    and ok: "\<And>t. pool = Some t \<Longrightarrow> pool_ok N t"
    and pay: "purse N pool h' + int (inputs_of pid ms) \<le> purse N (gc_tokens c pid) h"
    and own: "\<And>p. p \<noteq> pid \<Longrightarrow> inputs_of p ms = 0"
  shows "turn_keeps N c (e, c', ms)"
proof -
  have "client_inv N c'" using inv c' ph ok unfolding client_inv_def by auto
  moreover have "spendable N c' p + int (inputs_of p ms) \<le> spendable N c p" for p
  proof (cases "p = pid")
    case True
    then show ?thesis using pay spendable_purse [OF h] spendable_purse [of c' pid h' N] c' by simp
  next
    case False
    then show ?thesis using own [OF False] c' by (simp add: spendable_def holds_token_def)
  qed
  ultimately show ?thesis by (simp add: turn_keeps_def)
qed

lemma inputs_of_simps [simp]:
  "inputs_of p [] = 0" "inputs_of p (m # ms) = (if is_input_of p m then 1 else 0) + inputs_of p ms"
  "inputs_of p (ms @ ms') = inputs_of p ms + inputs_of p ms'"
  by (simp_all add: inputs_of_def)

lemma holds_tokenE:
  assumes "client_inv N c" and "holds_token c pid"
  obtains h t where "gc_handlers c pid = Some h" "ph_phase h = AwaitConnected \<or> ph_phase h = AwaitProduce"
    "gc_tokens c pid = Some t" "pool_ok N t" "purse N (gc_tokens c pid) h = tp_value t + 1"
proof -
  obtain h where h: "gc_handlers c pid = Some h" "ph_phase h = AwaitConnected \<or> ph_phase h = AwaitProduce"
    using assms(2) by (auto simp: holds_token_def split: option.splits)
  obtain t where "gc_tokens c pid = Some t" using client_invD(3) [OF assms(1) h(1)] h(2) by auto
  with h client_invD(1) [OF assms(1)] show thesis using that by (auto simp: purse_def)
qed

text \<open>Moving a task to a phase without a token, or among the phases with one.\<close>

lemma finish_keeps:
  assumes inv: "client_inv N c"
  shows "turn_keeps N c (e, set_phase pid HandlerDone c, [])"
proof (cases "gc_handlers c pid")
  case None
  then show ?thesis using inv by (simp add: set_phase_def)
next
  case (Some h)
  show ?thesis
    by (rule turn_keepsI [OF inv Some, where h' = "h\<lparr>ph_phase := HandlerDone\<rparr>" and pool = "gc_tokens c pid"])
      (use Some client_invD(1) [OF inv] in \<open>auto simp: set_phase_def purse_def\<close>)
qed

lemma set_phase_keeps:
  assumes inv: "client_inv N c" and h: "gc_handlers c pid = Some h"
    and "ph_phase h \<noteq> AwaitRegistered" "ph_phase h \<noteq> HandlerDone" "ph \<noteq> AwaitRegistered"
    and "ph = AwaitConnected \<or> ph = AwaitProduce \<Longrightarrow> holds_token c pid"
  shows "turn_keeps N c (e, set_phase pid ph c, [])"
proof -
  have "\<exists>t. gc_tokens c pid = Some t" using client_invD(3) [OF inv h] assms(3,4) .
  then show ?thesis
    by (intro turn_keepsI [OF inv h, where h' = "h\<lparr>ph_phase := ph\<rparr>" and pool = "gc_tokens c pid"])
      (use assms(3-6) h client_invD(1) [OF inv] in \<open>auto simp: set_phase_def purse_def holds_token_def\<close>)
qed

lemma start_handler_keeps:
  assumes inv: "client_inv N c" and h: "gc_handlers c pid = Some h" "ph_phase h = AwaitRegistered"
  shows "turn_keeps N c (start_handler pid c)"
proof (cases "gc_running c \<and> registered_event c \<and> num_tokens_per_producer c = Some N \<and> 0 \<le> N")
  case False
  have "num_tokens_per_producer c = None \<or> num_tokens_per_producer c = Some N"
    using inv unfolding client_inv_def by blast
  then show ?thesis
    using False inv finish_keeps [OF inv]
    by (cases "gc_running c"; cases "registered_event c") (auto simp: start_handler_def new_token_pool_def)
next
  case True
  let ?t = "\<lparr>tp_max_tokens = N, tp_value = N, tp_bounded = True\<rparr>"
  have t: "gc_tokens c pid = None" using client_invD(2) [OF inv h] .
  have s: "start_handler pid c = (None, set_phase pid LoopTop (c\<lparr>gc_tokens := (gc_tokens c)(pid \<mapsto> ?t)\<rparr>), [])"
    using True by (simp add: start_handler_def new_token_pool_def)
  show ?thesis
    unfolding s
    by (rule turn_keepsI [OF inv h(1), where h' = "h\<lparr>ph_phase := LoopTop\<rparr>" and pool = "Some ?t"])
      (use True h t in \<open>auto simp: set_phase_def purse_def pool_ok_def\<close>)
qed

text \<open>Taking a token moves it from the pool to the task.\<close>

lemma take_token_keeps:
  assumes inv: "client_inv N c" and h: "gc_handlers c pid = Some h" "ph_phase h = AwaitToken"
    and t: "gc_tokens c pid = Some t" "get_token t = Some t'"
    and ph: "ph \<noteq> AwaitRegistered"
  shows "turn_keeps N c (e, set_phase pid ph (c\<lparr>gc_tokens := (gc_tokens c)(pid \<mapsto> t')\<rparr>), [])"
  by (rule turn_keepsI [OF inv h(1), where h' = "h\<lparr>ph_phase := ph\<rparr>" and pool = "Some t'"])
    (use h t ph client_invD(1) [OF inv t(1)] in
      \<open>auto simp: set_phase_def purse_def pool_ok_def get_token_def split: if_splits\<close>)

text \<open>Returning it moves it back.\<close>

lemma retry_handler_keeps:
  assumes inv: "client_inv N c" and h: "holds_token c pid"
  shows "turn_keeps N c (retry_handler pid c)"
proof (rule holds_tokenE [OF inv h])
  fix h t
  assume h: "gc_handlers c pid = Some h" and t: "gc_tokens c pid = Some t" "pool_ok N t"
    and pu: "purse N (gc_tokens c pid) h = tp_value t + 1"
  let ?t = "t\<lparr>tp_value := tp_value t + 1\<rparr>"
  show ?thesis
  proof (cases "tp_value t = N")
    case True
    then have "give_back_token pid c = Inl ValueError"
      using t by (simp add: give_back_token_def return_token_def pool_ok_def)
    then show ?thesis using finish_keeps [OF inv] by (simp add: retry_handler_def)
  next
    case False
    then have r: "retry_handler pid c = (None, set_phase pid LoopTop (c\<lparr>gc_tokens := (gc_tokens c)(pid \<mapsto> ?t)\<rparr>), [])"
      using t by (simp add: retry_handler_def give_back_token_def return_token_def pool_ok_def)
    show ?thesis
      unfolding r
      by (rule turn_keepsI [OF inv h, where h' = "h\<lparr>ph_phase := LoopTop\<rparr>" and pool = "Some ?t"])
        (use h t pu False in \<open>auto simp: set_phase_def purse_def pool_ok_def\<close>)
  qed
qed

text \<open>Sending a frame spends it.\<close>

lemma emit_input_keeps:
  assumes inv: "client_inv N c" and h: "holds_token c pid"
  shows "turn_keeps N c (emit_input on_error send now pid frame c)"
proof (rule holds_tokenE [OF inv h])
  fix h t
  assume h: "gc_handlers c pid = Some h" and t: "gc_tokens c pid = Some t" "pool_ok N t"
    and pu: "purse N (gc_tokens c pid) h = tp_value t + 1"
  obtain e c' ms where r: "emit_input on_error send now pid frame c = (e, c', ms)" by (metis prod_cases3)
  show ?thesis
  proof (cases "producer_objects c pid")
    case None
    then show ?thesis using inv h by (simp add: emit_input_def)
  next
    case (Some ip)
    obtain ph where "ph = HandlerDone \<or> ph = LoopTop" "ms = [] \<or> (\<exists>i. ms = [Input i] \<and> in_producer_id i = pid)"
      "gc_handlers c' = (gc_handlers c)(pid \<mapsto> h\<lparr>ph_frame_id := ph_frame_id h + 1, ph_phase := ph\<rparr>)"
      "gc_tokens c' = gc_tokens c" "num_tokens_per_producer c' = num_tokens_per_producer c"
      using r h Some
      by (fastforce simp: emit_input_def record_send_metrics_def set_phase_def Let_def split: option.splits if_splits)
    then show ?thesis
      unfolding r
      by (intro turn_keepsI [OF inv h, where pool = "Some t" and
            h' = "h\<lparr>ph_frame_id := ph_frame_id h + 1, ph_phase := ph\<rparr>"])
        (use t pu in \<open>auto simp: purse_def\<close>)
  qed
qed

lemma same_books_keep:
  assumes "client_inv N c" and "gc_tokens c' = gc_tokens c" and "gc_handlers c' = gc_handlers c"
    and "num_tokens_per_producer c' = num_tokens_per_producer c" and "\<And>p. inputs_of p ms = 0"
  shows "turn_keeps N c (e, c', ms)"
  using assms unfolding turn_keeps_def client_inv_def spendable_def holds_token_def by simp

lemma registration_turn_keeps:
  assumes "client_inv N c"
  shows "turn_keeps N c (registration_turn send c)"
proof -
  obtain e c' ms where r: "registration_turn send c = (e, c', ms)" by (metis prod_cases3)
  then have "gc_tokens c' = gc_tokens c" "gc_handlers c' = gc_handlers c"
    "num_tokens_per_producer c' = num_tokens_per_producer c" "ms = [] \<or> ms = [build_registration_message c]"
    by (auto simp: registration_turn_def Let_def split: if_splits option.splits registration_phase.splits bool.splits)
  then show ?thesis
    unfolding r by (intro same_books_keep [OF assms]) (auto simp: build_registration_message_def)
qed

lemma application_event_keeps:
  assumes "client_inv N c"
  shows "turn_keeps N c (e, application_event c ev, [])"
  by (rule same_books_keep [OF assms])
    (auto simp: application_event_def split: client_event.split option.split)

lemma record_response_latency_keeps:
  "record_response_latency now w c = (l, c') \<Longrightarrow> gc_tokens c' = gc_tokens c \<and>
     gc_handlers c' = gc_handlers c \<and> num_tokens_per_producer c' = num_tokens_per_producer c"
  by (auto simp: record_response_latency_def Let_def split: option.splits)

text \<open>A token that comes back is the only gain.\<close>

lemma give_back_gains:
  assumes inv: "client_inv N c" and g: "give_back_token pid c = Inr c'"
  shows "client_inv N c'" and "spendable N c' p = spendable N c p + (if p = pid then 1 else 0)"
proof -
  obtain t where t: "gc_tokens c pid = Some t" "\<not> (tp_bounded t \<and> tp_max_tokens t \<le> tp_value t)"
    and c': "c' = c\<lparr>gc_tokens := (gc_tokens c)(pid \<mapsto> t\<lparr>tp_value := tp_value t + 1\<rparr>)\<rparr>"
    using g by (auto simp: give_back_token_def return_token_def split: option.splits if_splits)
  have "pool_ok N (t\<lparr>tp_value := tp_value t + 1\<rparr>)"
    using client_invD(1) [OF inv t(1)] t(2) by (auto simp: pool_ok_def)
  then show "client_inv N c'" using inv t(1) unfolding c' client_inv_def by auto
  show "spendable N c' p = spendable N c p + (if p = pid then 1 else 0)"
    using t(1) by (simp add: c' spendable_def holds_token_def)
qed

text \<open>What a message from the server may do to the books.\<close>

definition gains :: "int \<Rightarrow> 'a gabriel_client_scheme \<Rightarrow> (producer_id \<Rightarrow> bool) \<Rightarrow> 'a gabriel_client_scheme \<Rightarrow> bool" where
  "gains N c g c' \<longleftrightarrow>
     client_inv N c' \<and> (\<forall>p. spendable N c' p \<le> spendable N c p + (if g p then 1 else 0))"

lemma same_books_gain:
  assumes "client_inv N c" and "gc_tokens c' = gc_tokens c" and "gc_handlers c' = gc_handlers c"
    and "num_tokens_per_producer c' = num_tokens_per_producer c \<or> num_tokens_per_producer c' = Some N"
  shows "gains N c g c'"
  using assms unfolding gains_def client_inv_def spendable_def holds_token_def by auto

lemma return_from_server_gains:
  assumes inv: "client_inv N c" and eq: "gc_tokens c1 = gc_tokens c" "gc_handlers c1 = gc_handlers c"
      "num_tokens_per_producer c1 = num_tokens_per_producer c"
  shows "gains N c (\<lambda>p. gives_token p (ResultWrapper w)) (snd (return_from_server w (e, c1)))"
proof -
  have s: "gains N c (\<lambda>p. gives_token p (ResultWrapper w)) c1" by (rule same_books_gain [OF inv]) (use eq in auto)
  have i: "client_inv N c1" and sp: "spendable N c1 p = spendable N c p" for p
    using inv eq by (simp_all add: client_inv_def spendable_def holds_token_def)
  show ?thesis
    using s give_back_gains [OF i] sp
    by (auto simp: return_from_server_def gains_def split: option.split sum.split)
qed

lemma return_same_gains:
  "client_inv N c \<Longrightarrow> gains N c (\<lambda>p. gives_token p (ResultWrapper w)) (snd (return_from_server w (e, c)))"
  by (rule return_from_server_gains) simp_all

lemma return_latency_gains:
  assumes "client_inv N c" and "record_response_latency now w c = (l, c1)"
  shows "gains N c (\<lambda>p. gives_token p (ResultWrapper w)) (snd (return_from_server w (e, c1)))"
  using record_response_latency_keeps [OF assms(2)] by (intro return_from_server_gains [OF assms(1)]) simp_all

lemma gainsD:
  assumes "gains N c (\<lambda>p. gives_token p m) c'"
  shows "client_inv N c'" and "spendable N c' p \<le> spendable N c p + (if gives_token p m then 1 else 0)"
  using assms unfolding gains_def by blast+

lemma client_inv_pool:
  "client_inv N c \<Longrightarrow> gc_tokens c p = Some t \<Longrightarrow> pool_ok N t \<and> tp_value t \<le> spendable N c p"
  by (simp add: client_inv_def spendable_def)

lemma gather_books:
  "client_inv N (fst (gather (e, c, ms))) = client_inv N c" "spendable N (fst (gather (e, c, ms))) p = spendable N c p"
  "snd (gather (e, c, ms)) = ms" "gc_tokens (fst (gather (e, c, ms))) = gc_tokens c"
  by (simp_all add: gather_def client_inv_def spendable_def holds_token_def split: option.split)

lemma gather_keeps:
  assumes "turn_keeps N c r"
  shows "client_inv N (fst (gather r)) \<and>
    spendable N (fst (gather r)) p + int (inputs_of p (snd (gather r))) \<le> spendable N c p"
  using assms by (cases r) (auto simp: gather_books turn_keeps_def)

lemma consumer_next_books [simp]:
  "client_inv N (consumer_next c) = client_inv N c" "spendable N (consumer_next c) p = spendable N c p"
  by (simp_all add: consumer_next_def client_inv_def spendable_def holds_token_def)

text \<open>The shared steps leave alone what a transport adds to the client.\<close>

named_theorems more_simps \<open>the transport's part of the client after a shared step\<close>

lemma handler_steps_more [more_simps]:
  "gabriel_client.more (set_phase pid ph c) = gabriel_client.more c"
  "gabriel_client.more (consumer_next c) = gabriel_client.more c"
  "gabriel_client.more (application_event c ev) = gabriel_client.more c"
  "gabriel_client.more (record_send_metrics now m c) = gabriel_client.more c"
  by (simp_all add: set_phase_def consumer_next_def application_event_def record_send_metrics_def
      split: option.split client_event.split)

lemma give_back_more: "give_back_token pid c = Inr c' \<Longrightarrow> gabriel_client.more c' = gabriel_client.more c"
  by (auto simp: give_back_token_def split: option.splits sum.splits)

lemma turns_more [more_simps]:
  "gabriel_client.more (fst (snd (start_handler pid c))) = gabriel_client.more c"
  "gabriel_client.more (fst (snd (retry_handler pid c))) = gabriel_client.more c"
  "gabriel_client.more (fst (snd (emit_input f send now pid frame c))) = gabriel_client.more c"
  "gabriel_client.more (fst (snd (registration_turn send c))) = gabriel_client.more c"
  "gabriel_client.more (fst (gather r)) = gabriel_client.more (fst (snd r))"
  "gabriel_client.more (snd (return_from_server w q)) = gabriel_client.more (snd q)"
  "gabriel_client.more (snd (record_response_latency now w c)) = gabriel_client.more c"
  by (auto simp: start_handler_def retry_handler_def emit_input_def registration_turn_def gather_def
      return_from_server_def record_response_latency_def Let_def more_simps give_back_more
      split: option.split sum.split prod.split registration_phase.split bool.split)

section \<open>The contract of a client\<close>

text \<open>
  What the server's accounting may rely on: a client sends an input only against funds, gains funds
  only from a returned token, and keeps its pools within the allotment.  \<open>allowed\<close> restricts the
  events; it requires in particular that the server announces the allotment \<open>N\<close>.
\<close>

definition announces :: "int \<Rightarrow> client_event \<Rightarrow> bool" where
  "announces N ev = (case ev of FromServer _ (Registered n _) \<Rightarrow> n = N | _ \<Rightarrow> True)"

definition event_gives :: "producer_id \<Rightarrow> client_event \<Rightarrow> bool" where
  "event_gives pid ev = (case ev of FromServer _ m \<Rightarrow> gives_token pid m | _ \<Rightarrow> False)"

locale flow_client =
  fixes step :: "'c \<Rightarrow> client_event \<Rightarrow> 'c \<times> from_client list"
    and funds :: "int \<Rightarrow> 'c \<Rightarrow> producer_id \<Rightarrow> int"
    and inv :: "int \<Rightarrow> 'c \<Rightarrow> bool"
    and pool :: "'c \<Rightarrow> producer_id \<Rightarrow> token_pool option"
    and allowed :: "int \<Rightarrow> client_event \<Rightarrow> bool"
  assumes step_inv: "inv N c \<Longrightarrow> allowed N ev \<Longrightarrow> inv N (fst (step c ev))"
    and step_funds: "inv N c \<Longrightarrow> allowed N ev \<Longrightarrow>
      funds N (fst (step c ev)) p + int (inputs_of p (snd (step c ev))) \<le>
        funds N c p + (if event_gives p ev then 1 else 0)"
    and allowed_server: "announces N (FromServer now m) \<Longrightarrow> allowed N (FromServer now m)"
    and inv_pool: "inv N c \<Longrightarrow> pool c p = Some t \<Longrightarrow> pool_ok N t \<and> tp_value t \<le> funds N c p"
begin

text \<open>Over any run, what a client sends is covered by its funds and the tokens it got back.\<close>

lemma run_funds:
  assumes "inv N c" and "list_all (allowed N) evs"
  shows "\<exists>c' ms. foldl (\<lambda>(c, ms) ev. (fst (step c ev), ms @ snd (step c ev))) (c, ms0) evs = (c', ms0 @ ms) \<and>
    inv N c' \<and> (\<forall>p. funds N c' p + int (inputs_of p ms) \<le>
      funds N c p + int (length (filter (event_gives p) evs)))"
  using assms
proof (induction evs arbitrary: c ms0)
  case Nil
  then show ?case by (auto simp: inputs_of_def)
next
  case (Cons ev evs)
  have i: "inv N (fst (step c ev))" using Cons.prems step_inv by simp
  have f: "funds N (fst (step c ev)) p + int (inputs_of p (snd (step c ev))) \<le>
      funds N c p + (if event_gives p ev then 1 else 0)" for p
    using Cons.prems step_funds by simp
  obtain c' ms where ms: "foldl (\<lambda>(c, ms) ev. (fst (step c ev), ms @ snd (step c ev)))
        (fst (step c ev), ms0 @ snd (step c ev)) evs = (c', (ms0 @ snd (step c ev)) @ ms)"
    "inv N c'" "\<And>p. funds N c' p + int (inputs_of p ms) \<le>
      funds N (fst (step c ev)) p + int (length (filter (event_gives p) evs))"
    using Cons.IH [OF i, of "ms0 @ snd (step c ev)"] Cons.prems(2) by auto
  have "funds N c' p + int (inputs_of p (snd (step c ev) @ ms)) \<le>
      funds N c p + int (length (filter (event_gives p) (ev # evs)))" for p
    using f [of p] ms(3) [of p] by (auto simp: inputs_of_def split: if_splits)
  with ms(1,2) show ?case by (intro exI [of _ c'] exI [of _ "snd (step c ev) @ ms"]) simp
qed

text \<open>With less than the allotment in hand, a returned token always fits the pool.\<close>

lemma return_fits:
  assumes "inv N c" and "pool c p = Some t" and "funds N c p < N"
  shows "\<exists>t'. return_token t = Inr t'"
proof -
  have "pool_ok N t" "tp_value t < N" using inv_pool [OF assms(1,2)] assms(3) by auto
  then show ?thesis by (auto simp: return_token_def pool_ok_def)
qed

end

end
