(* ===== verification/Grpc_Client.thy ===== *)
theory Grpc_Client
  imports Gabriel_Client Tls_Utils
begin

text \<open>
  \<open>grpc_client.py\<close>: the client over gRPC.  A session is a control stream and one stream per producer;
  when the connection is lost the client starts a new session from scratch.
\<close>

section \<open>Channel options\<close>

definition default_channel_options :: "(string \<times> int) list" where
  "default_channel_options =
     [(''grpc.keepalive_time_ms'', 10000), (''grpc.keepalive_timeout_ms'', 5000),
      (''grpc.keepalive_permit_without_calls'', 1)]"

definition dict_update :: "('k \<times> 'v) list \<Rightarrow> ('k \<times> 'v) list \<Rightarrow> ('k \<times> 'v) list" where
  "dict_update d items = foldl (\<lambda>d (k, v). dict_set k v d) d items"

definition merge_channel_options :: "(string \<times> int) list option \<Rightarrow> (string \<times> int) list" where
  "merge_channel_options channel_options =
     (case channel_options of
        None \<Rightarrow> default_channel_options
      | Some opts \<Rightarrow> dict_update default_channel_options (dict_update [] opts))"

section \<open>Sessions\<close>

record grpc_client = gabriel_client +
  rc_connected :: bool
  rc_session_id :: "string option"
  rc_channel_options :: "(string \<times> int) list"

definition new_grpc_client ::
  "proto_any option \<Rightarrow> input_producer list \<Rightarrow> (string \<times> int) list option \<Rightarrow> grpc_client" where
  "new_grpc_client info ips channel_options =
     gabriel_client.extend (new_gabriel_client info ips)
       \<lparr>rc_connected = False, rc_session_id = None,
        rc_channel_options = merge_channel_options channel_options\<rparr>"

text \<open>The whole constructor: the files of the credentials are read, and have to go together.\<close>

definition open_grpc_client ::
  "(string \<Rightarrow> bytes option) \<Rightarrow> proto_any option \<Rightarrow> input_producer list \<Rightarrow> (string \<times> int) list option \<Rightarrow>
     string option \<Rightarrow> string option \<Rightarrow> string option \<Rightarrow> py_exn + channel_credentials option \<times> grpc_client" where
  "open_grpc_client read_file info ips channel_options tls_ca_cert tls_client_cert tls_client_key =
     (case build_channel_credentials read_file tls_ca_cert tls_client_cert tls_client_key of
        Inl e \<Rightarrow> Inl e
      | Inr creds \<Rightarrow> Inr (creds, new_grpc_client info ips channel_options))"

text \<open>The metadata of the control stream and of a producer's stream.\<close>

definition control_metadata :: "string \<Rightarrow> (string \<times> string) list" where
  "control_metadata session_id = [(''session-id'', session_id), (''stream-role'', ''control'')]"

definition producer_metadata :: "string \<Rightarrow> (string \<times> string) list" where
  "producer_metadata session_id = [(''session-id'', session_id), (''stream-role'', ''producer'')]"

text \<open>
  The start of \<open>_run_session\<close>: nothing of an earlier session survives but the pending latencies.  One
  task is started for each producer the client still has.
\<close>

definition run_session :: "string \<Rightarrow> grpc_client \<Rightarrow> grpc_client" where
  "run_session uuid c =
     c\<lparr>registered_event := False, rc_connected := False, gc_tokens := Map.empty, gc_engine_ids := Some [],
       rc_session_id := Some uuid, gc_registration := RegistrationSend,
       gc_handlers := map_of (map (\<lambda>pid. (pid, idle_handler)) (input_producers c)),
       gc_consuming := True, gc_ended := None\<rparr>"

text \<open>
  \<open>launch_async\<close> after a session has ended: a lost connection leads to a new session unless the client
  has been stopped; any other exception goes to the caller.
\<close>

definition grpc_relaunch :: "string \<Rightarrow> grpc_client \<Rightarrow> grpc_client" where
  "grpc_relaunch uuid c =
     (if gc_ended c = Some (Some DisconnectedError)
      then if gc_running c then run_session uuid c else c\<lparr>gc_ended := Some None\<rparr>
      else c)"

section \<open>Messages from the server\<close>

definition grpc_process_registered :: "int \<Rightarrow> engine_id list \<Rightarrow> grpc_client \<Rightarrow> grpc_client" where
  "grpc_process_registered n ids c =
     c\<lparr>num_tokens_per_producer := Some n, gc_engine_ids := Some ids, rc_connected := True,
       registered_event := True\<rparr>"

definition grpc_process_response ::
  "(result \<Rightarrow> py_exn option) \<Rightarrow> int \<Rightarrow> result_wrapper \<Rightarrow> 'a gabriel_client_scheme \<Rightarrow>
     py_exn option \<times> 'a gabriel_client_scheme" where
  "grpc_process_response consumer now w c =
     (let r = rw_result w; st = code (res_status r)
      in return_from_server w
           (if st = SUCCESS then (let (_, c1) = record_response_latency now w c in (consumer r, c1))
            else if st = NO_ENGINE_FOR_INPUT then (Some GenericException, c)
            else if st = SERVER_DROPPED_FRAME then (None, c)
            else if status_code_has_name st then (None, c)
            else (Some ValueError, c)))"

definition grpc_consume ::
  "(result \<Rightarrow> py_exn option) \<Rightarrow> int \<Rightarrow> to_client \<Rightarrow> grpc_client \<Rightarrow> py_exn option \<times> grpc_client" where
  "grpc_consume consumer now m c =
     (case m of
        Registered n ids \<Rightarrow> (None, grpc_process_registered n ids c)
      | ResultWrapper w \<Rightarrow> grpc_process_response consumer now w c
      | EngineIdsUpdate ids \<Rightarrow> (None, c\<lparr>gc_engine_ids := Some ids\<rparr>)
      | ToClientUnset \<Rightarrow> (Some GenericException, c))"

section \<open>The producer task\<close>

definition grpc_producer_turn ::
  "producer_id \<Rightarrow> (py_exn + input_frame option) option \<Rightarrow> py_exn option \<Rightarrow> int \<Rightarrow> grpc_client \<Rightarrow>
     py_exn option \<times> grpc_client \<times> from_client list" where
  "grpc_producer_turn pid produced send now c =
     (case (gc_handlers c pid, producer_objects c pid) of
        (Some h, Some ip) \<Rightarrow>
          (case ph_phase h of
             AwaitRegistered \<Rightarrow> start_handler pid c
           | LoopTop \<Rightarrow>
               (if \<not> gc_running c \<or> pid \<notin> set (input_producers c) then (None, set_phase pid HandlerDone c, [])
                else if \<not> ip_running ip then (None, c, [])
                else (None, set_phase pid AwaitToken c, []))
           | AwaitToken \<Rightarrow>
               (case gc_tokens c pid of
                  None \<Rightarrow> (None, c, [])
                | Some t \<Rightarrow>
                    (case get_token t of
                       None \<Rightarrow> (None, c, [])
                     | Some t' \<Rightarrow>
                         (let c1 = c\<lparr>gc_tokens := (gc_tokens c)(pid \<mapsto> t')\<rparr>
                          in case produce ip (Inr None) of
                               Inl e \<Rightarrow> (Some e, set_phase pid HandlerDone c1, [])
                             | Inr _ \<Rightarrow> (None, set_phase pid AwaitProduce c1, []))))
           | AwaitProduce \<Rightarrow>
               (case produced of
                  None \<Rightarrow> (None, c, [])
                | Some (Inl e) \<Rightarrow> (Some e, set_phase pid HandlerDone c, [])
                | Some (Inr None) \<Rightarrow> retry_handler pid c
                | Some (Inr (Some frame)) \<Rightarrow>
                    (if empty_frame frame then retry_handler pid c
                     else emit_input (\<lambda>_. Some DisconnectedError) send now pid frame c))
           | _ \<Rightarrow> (None, c, []))
      | _ \<Rightarrow> (None, c, []))"

section \<open>The client\<close>

text \<open>
  Writing the registration wraps every error of the stream, as writing an input does.
\<close>

definition send_registration :: "py_exn option \<Rightarrow> py_exn option" where
  "send_registration send = map_option (\<lambda>_. DisconnectedError) send"

definition grpc_client_step ::
  "(result \<Rightarrow> py_exn option) \<Rightarrow> grpc_client \<Rightarrow> client_event \<Rightarrow> grpc_client \<times> from_client list" where
  "grpc_client_step consumer c ev =
     (if gc_ended c \<noteq> None then (c, [])
      else case ev of
        FromServer now m \<Rightarrow>
          (if gc_consuming c
           then (let (e, c1) = grpc_consume consumer now m c in gather (e, consumer_next c1, []))
           else (c, []))
      | ConnectionLost _ \<Rightarrow>
          (if gc_consuming c then gather (Some DisconnectedError, c\<lparr>rc_connected := False\<rparr>, []) else (c, []))
      | ProducerTurn pid produced send now \<Rightarrow> gather (grpc_producer_turn pid produced send now c)
      | RegistrationTurn send \<Rightarrow> gather (registration_turn (send_registration send) c)
      | _ \<Rightarrow> (application_event c ev, []))"

section \<open>The books\<close>

lemma grpc_process_response_gains:
  assumes "client_inv N c"
  shows "gains N c (\<lambda>p. gives_token p (ResultWrapper w)) (snd (grpc_process_response consumer now w c))"
  by (auto simp: grpc_process_response_def Let_def split: prod.split
      intro: return_same_gains [OF assms] return_latency_gains [OF assms] simp del: gives_token.simps)

lemma grpc_consume_gains:
  assumes inv: "client_inv N c" and n: "announces N (FromServer now m)"
  shows "gains N c (\<lambda>p. gives_token p m) (snd (grpc_consume consumer now m c))"
proof (cases m)
  case (ResultWrapper w)
  then show ?thesis using grpc_process_response_gains [OF inv] by (simp add: grpc_consume_def)
qed (use n in \<open>auto simp: grpc_consume_def grpc_process_registered_def announces_def intro!: same_books_gain [OF inv]\<close>)

lemma grpc_producer_turn_keeps:
  assumes inv: "client_inv N c"
  shows "turn_keeps N c (grpc_producer_turn pid produced send now c)"
proof (cases "\<exists>h ip. gc_handlers c pid = Some h \<and> producer_objects c pid = Some ip")
  case False
  then show ?thesis using inv by (auto simp: grpc_producer_turn_def split: option.split)
next
  case True
  then obtain h ip where h: "gc_handlers c pid = Some h" "producer_objects c pid = Some ip" by blast
  show ?thesis
  proof (cases "ph_phase h")
    case AwaitRegistered
    then show ?thesis using h start_handler_keeps [OF inv h(1)] by (simp add: grpc_producer_turn_def)
  next
    case LoopTop
    then show ?thesis
      using h inv by (auto simp: grpc_producer_turn_def intro!: set_phase_keeps [OF inv h(1)])
  next
    case AwaitToken
    then show ?thesis
      using h inv take_token_keeps [OF inv h(1) AwaitToken]
      by (auto simp: grpc_producer_turn_def Let_def split: option.split sum.split)
  next
    case AwaitProduce
    then have "holds_token c pid" using h by (simp add: holds_token_def)
    then show ?thesis
      using AwaitProduce h inv finish_keeps [OF inv] retry_handler_keeps [OF inv] emit_input_keeps [OF inv]
      by (auto simp: grpc_producer_turn_def split: option.split sum.split)
  qed (use h inv in \<open>simp_all add: grpc_producer_turn_def\<close>)
qed

lemma grpc_client_step_books:
  assumes inv: "client_inv N c" and al: "announces N ev"
  shows "client_inv N (fst (grpc_client_step consumer c ev)) \<and>
    spendable N (fst (grpc_client_step consumer c ev)) p + int (inputs_of p (snd (grpc_client_step consumer c ev))) \<le>
      spendable N c p + (if event_gives p ev then 1 else 0)"
proof (cases "gc_ended c = None")
  case False
  then show ?thesis using inv by (auto simp: grpc_client_step_def)
next
  case True
  have lost: "client_inv N (c\<lparr>rc_connected := False\<rparr>)" "spendable N (c\<lparr>rc_connected := False\<rparr>) p = spendable N c p"
    using inv by (simp_all add: client_inv_def spendable_def holds_token_def)
  show ?thesis
  proof (cases ev)
    case (FromServer now m)
    obtain e c1 where c1: "grpc_consume consumer now m c = (e, c1)" by (metis prod.exhaust)
    with grpc_consume_gains [OF inv al [unfolded FromServer], of consumer]
    have "gains N c (\<lambda>p. gives_token p m) c1" by simp
    from gainsD(1) [OF this] gainsD(2) [OF this, of p] c1 True FromServer inv show ?thesis
      by (auto simp: grpc_client_step_def gather_books event_gives_def split: if_splits)
  next
    case (ProducerTurn pid produced send now)
    then show ?thesis
      using True gather_keeps [OF grpc_producer_turn_keeps [OF inv]] by (simp add: grpc_client_step_def event_gives_def)
  next
    case (RegistrationTurn send)
    then show ?thesis
      using True gather_keeps [OF registration_turn_keeps [OF inv]] by (simp add: grpc_client_step_def event_gives_def)
  qed (use True inv lost application_event_keeps [OF inv, of None] in
      \<open>auto simp: grpc_client_step_def gather_books event_gives_def turn_keeps_def\<close>)
qed

interpretation grpc_flow: flow_client "grpc_client_step consumer" spendable client_inv gc_tokens announces
  by unfold_locales (use grpc_client_step_books client_inv_pool in blast)+

section \<open>Properties\<close>

fun grpc_run ::
  "(result \<Rightarrow> py_exn option) \<Rightarrow> grpc_client \<Rightarrow> client_event list \<Rightarrow> grpc_client \<times> from_client list" where
  "grpc_run consumer c [] = (c, [])"
| "grpc_run consumer c (ev # evs) =
     (let (c1, ms) = grpc_client_step consumer c ev; (c2, ms') = grpc_run consumer c1 evs in (c2, ms @ ms'))"

text \<open>The frame ids of a producer's inputs, in the order they are written.\<close>

definition frame_ids :: "producer_id \<Rightarrow> from_client list \<Rightarrow> int list" where
  "frame_ids pid ms = map (in_frame_id \<circ> input_of) (filter (is_input_of pid) ms)"

definition next_frame_id :: "'a gabriel_client_scheme \<Rightarrow> producer_id \<Rightarrow> int" where
  "next_frame_id c pid = (case gc_handlers c pid of None \<Rightarrow> 1 | Some h \<Rightarrow> ph_frame_id h)"

lemma frame_ids_simps [simp]:
  "frame_ids pid [] = []" "frame_ids pid (ms @ ms') = frame_ids pid ms @ frame_ids pid ms'"
  by (simp_all add: frame_ids_def)

text \<open>
  A turn numbers the frames properly when it writes nothing and leaves the counter, or writes one
  input with the counter's value and advances it, or raises.
\<close>

definition numbers :: "'a gabriel_client_scheme \<Rightarrow> py_exn option \<times> 'a gabriel_client_scheme \<times> from_client list \<Rightarrow> bool" where
  "numbers c r \<longleftrightarrow>
     (\<forall>pid. case r of (e, c', ms) \<Rightarrow>
        frame_ids pid ms = [] \<and> (next_frame_id c' pid = next_frame_id c pid \<or> e \<noteq> None) \<or>
        frame_ids pid ms = [next_frame_id c pid] \<and> next_frame_id c' pid = next_frame_id c pid + 1)"

lemma set_phase_next [simp]: "next_frame_id (set_phase pid ph c) p = next_frame_id c p"
  by (simp add: next_frame_id_def set_phase_def split: option.split)

lemma numbers_silent: "(\<And>p. next_frame_id c' p = next_frame_id c p) \<Longrightarrow> numbers c (e, c', [])"
  by (simp add: numbers_def)

lemma tokens_next [simp]: "next_frame_id (c\<lparr>gc_tokens := ts\<rparr>) p = next_frame_id c p"
  by (simp add: next_frame_id_def)

lemma start_handler_numbers: "numbers c (start_handler pid c)"
  by (auto simp: start_handler_def intro!: numbers_silent split: option.split sum.split bool.split)

lemma retry_handler_numbers: "numbers c (retry_handler pid c)"
  by (auto simp: retry_handler_def give_back_token_def intro!: numbers_silent split: option.split sum.split)

lemma emit_input_numbers: "numbers c (emit_input (\<lambda>_. Some x) send now pid frame c)"
  by (auto simp: numbers_def emit_input_def record_send_metrics_def next_frame_id_def frame_ids_def
      set_phase_def Let_def split: option.split)

lemma grpc_producer_turn_numbers: "numbers c (grpc_producer_turn pid produced send now c)"
  using start_handler_numbers retry_handler_numbers emit_input_numbers
  by (auto simp: grpc_producer_turn_def Let_def intro!: numbers_silent
      split: option.split handler_phase.split sum.split)

lemma registration_turn_numbers: "numbers c (registration_turn send c)"
  by (auto simp: numbers_def registration_turn_def build_registration_message_def next_frame_id_def
      frame_ids_def Let_def split: registration_phase.split option.split bool.split)

lemma gather_numbers:
  assumes "numbers c r" and "gather r = (c', ms)"
  shows "frame_ids pid ms = [] \<and> (next_frame_id c' pid = next_frame_id c pid \<or> gc_ended c' \<noteq> None) \<or>
    frame_ids pid ms = [next_frame_id c pid] \<and> next_frame_id c' pid = next_frame_id c pid + 1"
proof (cases r)
  case (fields e c1 ms1)
  with assms have n: "frame_ids pid ms = [] \<and> (next_frame_id c1 pid = next_frame_id c pid \<or> e \<noteq> None) \<or>
      frame_ids pid ms = [next_frame_id c pid] \<and> next_frame_id c1 pid = next_frame_id c pid + 1"
    unfolding numbers_def by (auto simp: gather_def split: option.splits)
  have "next_frame_id c' pid = next_frame_id c1 pid" "e \<noteq> None \<longrightarrow> gc_ended c' \<noteq> None"
    using assms(2) fields by (auto simp: gather_def next_frame_id_def split: option.splits)
  with n show ?thesis by auto
qed

lemma consume_next: "next_frame_id (snd (grpc_consume consumer now m c)) pid = next_frame_id c pid"
  by (auto simp: grpc_consume_def grpc_process_registered_def grpc_process_response_def return_from_server_def
      record_response_latency_def give_back_token_def next_frame_id_def Let_def split_def
      split: to_client.split option.split sum.split)

lemma grpc_client_step_numbers:
  assumes "grpc_client_step consumer c ev = (c', ms)"
  shows "frame_ids pid ms = [] \<and> (next_frame_id c' pid = next_frame_id c pid \<or> gc_ended c' \<noteq> None) \<or>
    frame_ids pid ms = [next_frame_id c pid] \<and> next_frame_id c' pid = next_frame_id c pid + 1"
proof (cases "gc_ended c = None")
  case False
  then show ?thesis using assms by (auto simp: grpc_client_step_def)
next
  case True
  show ?thesis
  proof (cases ev)
    case (ProducerTurn q produced send now)
    then show ?thesis
      using gather_numbers [OF grpc_producer_turn_numbers] assms True by (simp add: grpc_client_step_def)
  next
    case (RegistrationTurn send)
    then show ?thesis
      using gather_numbers [OF registration_turn_numbers] assms True by (simp add: grpc_client_step_def)
  next
    case (FromServer now m)
    then show ?thesis
      using assms True consume_next [of consumer now m c pid]
      by (auto simp: grpc_client_step_def gather_def consumer_next_def next_frame_id_def
          split: prod.splits option.splits if_splits)
  qed (use assms True in \<open>auto simp: grpc_client_step_def application_event_def gather_def next_frame_id_def
      split: option.splits if_splits\<close>)
qed

lemma grpc_run_ended: "gc_ended c \<noteq> None \<Longrightarrow> grpc_run consumer c evs = (c, [])"
  by (induction evs) (auto simp: grpc_client_step_def)

lemma grpc_run_numbers:
  "\<exists>k. frame_ids pid (snd (grpc_run consumer c evs)) = map (\<lambda>i. next_frame_id c pid + int i) [0..<k]"
proof (induction evs arbitrary: c)
  case Nil
  then show ?case by (simp add: exI [of _ 0])
next
  case (Cons ev evs)
  obtain c1 ms where st: "grpc_client_step consumer c ev = (c1, ms)" by (metis prod.exhaust)
  obtain k where k: "frame_ids pid (snd (grpc_run consumer c1 evs)) =
      map (\<lambda>i. next_frame_id c1 pid + int i) [0..<k]" using Cons.IH by blast
  have r: "frame_ids pid (snd (grpc_run consumer c (ev # evs))) =
      frame_ids pid ms @ frame_ids pid (snd (grpc_run consumer c1 evs))" by (simp add: st split_def Let_def)
  have "map (\<lambda>i. n + int i) [0..<Suc k] = n # map (\<lambda>i. n + 1 + int i) [0..<k]" for n
    by (simp add: upt_conv_Cons map_Suc_upt [symmetric] del: upt_Suc)
  then show ?case
    using grpc_client_step_numbers [OF st, of pid] k r grpc_run_ended [of c1 consumer evs]
    by (auto intro: exI [of _ k] exI [of _ "Suc k"] exI [of _ 0] simp del: upt_Suc)
qed

text \<open>
  C24. Frames are numbered from one.  In every gRPC session the inputs that a producer's task writes
  carry the frame ids 1, 2, 3 and so on without a gap or a repetition, whatever the server, the
  producers and the application do in between.
\<close>

theorem session_frames_numbered:
  "\<exists>k. frame_ids pid (snd (grpc_run consumer (run_session uuid c) evs)) = map int [1..<k]"
proof -
  have "next_frame_id (run_session uuid c) pid = 1"
    by (auto simp: next_frame_id_def run_session_def idle_handler_def map_of_map_keys split: option.split
        dest!: map_of_SomeD)
  with grpc_run_numbers [of pid consumer "run_session uuid c" evs] obtain k where
    "frame_ids pid (snd (grpc_run consumer (run_session uuid c) evs)) = map (\<lambda>i. 1 + int i) [0..<k]" by auto
  also have "\<dots> = map int [1..<Suc k]" by (simp add: map_Suc_upt [symmetric] del: upt_Suc)
  finally show ?thesis by blast
qed

end
