(* ===== verification/Websocket_Client.thy ===== *)
theory Websocket_Client
  imports Gabriel_Client
begin

text \<open>
  \<open>websocket_client.py\<close>: the client over WebSockets.  It has no reconnection: the first of its tasks
  that ends, in whatever way, ends the client, and \<open>launch_async\<close> returns without an exception.
\<close>

section \<open>Construction\<close>

text \<open>\<open>__init__\<close>; the scheme of the endpoint is what \<open>urlparse\<close> finds in its lower-case form.\<close>

definition new_websocket_client ::
  "string \<Rightarrow> proto_any option \<Rightarrow> input_producer list \<Rightarrow> py_exn + gabriel_client" where
  "new_websocket_client scheme info ips =
     (if scheme \<noteq> ''ws'' then Inl ValueError else Inr (new_gabriel_client info ips))"

section \<open>Messages from the server\<close>

definition ws_process_registered ::
  "int \<Rightarrow> engine_id list \<Rightarrow> 'a gabriel_client_scheme \<Rightarrow> 'a gabriel_client_scheme" where
  "ws_process_registered n ids c =
     c\<lparr>num_tokens_per_producer := Some n, gc_engine_ids := Some ids, registered_event := True\<rparr>"

definition ws_process_response ::
  "(result \<Rightarrow> py_exn option) \<Rightarrow> int \<Rightarrow> result_wrapper \<Rightarrow> 'a gabriel_client_scheme \<Rightarrow>
     py_exn option \<times> 'a gabriel_client_scheme" where
  "ws_process_response consumer now w c =
     (let r = rw_result w; st = code (res_status r)
      in return_from_server w
           (if st = SUCCESS then (let (_, c1) = record_response_latency now w c in (consumer r, c1))
            else if st = NO_ENGINE_FOR_INPUT then (Some GenericException, c)
            else if status_code_has_name st then (None, c)
            else (Some ValueError, c)))"

definition ws_consume ::
  "(result \<Rightarrow> py_exn option) \<Rightarrow> int \<Rightarrow> to_client \<Rightarrow> gabriel_client \<Rightarrow> py_exn option \<times> gabriel_client" where
  "ws_consume consumer now m c =
     (case m of
        Registered n ids \<Rightarrow> (None, ws_process_registered n ids c)
      | ResultWrapper w \<Rightarrow> ws_process_response consumer now w c
      | EngineIdsUpdate ids \<Rightarrow> (None, c\<lparr>gc_engine_ids := Some ids\<rparr>)
      | ToClientUnset \<Rightarrow> (Some GenericException, c))"

section \<open>The producer task\<close>

text \<open>
  \<open>_producer_handler\<close>.  It does not look at whether the producer is running; a producer that is not
  running raises when it is asked for a frame.
\<close>

definition ws_producer_turn ::
  "producer_id \<Rightarrow> (py_exn + input_frame option) option \<Rightarrow> py_exn option \<Rightarrow> int \<Rightarrow> gabriel_client \<Rightarrow>
     py_exn option \<times> gabriel_client \<times> from_client list" where
  "ws_producer_turn pid produced send now c =
     (case (gc_handlers c pid, producer_objects c pid) of
        (Some h, Some ip) \<Rightarrow>
          (case ph_phase h of
             AwaitRegistered \<Rightarrow> start_handler pid c
           | LoopTop \<Rightarrow>
               (None, set_phase pid (if gc_running c then AwaitToken else HandlerDone) c, [])
           | AwaitToken \<Rightarrow>
               (case gc_tokens c pid of
                  None \<Rightarrow> (None, c, [])
                | Some t \<Rightarrow>
                    (case get_token t of
                       None \<Rightarrow> (None, c, [])
                     | Some t' \<Rightarrow>
                         (let c1 = c\<lparr>gc_tokens := (gc_tokens c)(pid \<mapsto> t')\<rparr>
                          in case produce ip (Inr None) of
                               Inl e \<Rightarrow> (Some e, set_phase pid HandlerDone c1, [])
                             | Inr _ \<Rightarrow> (None, set_phase pid AwaitProduce c1, []))))
           | AwaitProduce \<Rightarrow>
               (case produced of
                  None \<Rightarrow> (None, c, [])
                | Some (Inl e) \<Rightarrow> (Some e, set_phase pid HandlerDone c, [])
                | Some (Inr None) \<Rightarrow> retry_handler pid c
                | Some (Inr (Some frame)) \<Rightarrow> emit_input (\<lambda>_. None) send now pid frame c)
           | _ \<Rightarrow> (None, c, []))
      | _ \<Rightarrow> (None, c, []))"

section \<open>The client\<close>

text \<open>\<open>launch_async\<close>: the first task to end, by returning or raising, ends the client.\<close>

definition ws_task_over :: "producer_id option \<Rightarrow> gabriel_client \<Rightarrow> bool" where
  "ws_task_over pid c \<longleftrightarrow>
     \<not> gc_consuming c \<or> gc_registration c = RegistrationDone \<or>
     (case pid of
        None \<Rightarrow> False
      | Some p \<Rightarrow> (case gc_handlers c p of None \<Rightarrow> False | Some h \<Rightarrow> ph_phase h = HandlerDone))"

definition ws_wait ::
  "producer_id option \<Rightarrow> py_exn option \<times> gabriel_client \<times> from_client list \<Rightarrow> gabriel_client \<times> from_client list" where
  "ws_wait pid r =
     (case r of (e, c, ms) \<Rightarrow>
        (if e \<noteq> None \<or> ws_task_over pid c then c\<lparr>gc_consuming := False, gc_ended := Some None\<rparr> else c, ms))"

definition ws_step ::
  "(result \<Rightarrow> py_exn option) \<Rightarrow> gabriel_client \<Rightarrow> client_event \<Rightarrow> gabriel_client \<times> from_client list" where
  "ws_step consumer c ev =
     (if gc_ended c \<noteq> None then (c, [])
      else case ev of
        FromServer now m \<Rightarrow>
          (let (e, c1) = ws_consume consumer now m c in ws_wait None (e, consumer_next c1, []))
      | EmptyBytes \<Rightarrow> ws_wait None (Some GenericException, c, [])
      | UndecodableBytes \<Rightarrow> ws_wait None (Some DecodeError, c, [])
      | ConnectionLost _ \<Rightarrow> ws_wait None (None, c\<lparr>gc_consuming := False\<rparr>, [])
      | ProducerTurn pid produced send now \<Rightarrow> ws_wait (Some pid) (ws_producer_turn pid produced send now c)
      | RegistrationTurn send \<Rightarrow> ws_wait None (registration_turn send c)
      | _ \<Rightarrow> (application_event c ev, []))"

section \<open>The books\<close>

lemma ws_process_response_gains:
  assumes "client_inv N c"
  shows "gains N c (\<lambda>p. gives_token p (ResultWrapper w)) (snd (ws_process_response consumer now w c))"
  by (auto simp: ws_process_response_def Let_def split: prod.split
      intro: return_same_gains [OF assms] return_latency_gains [OF assms] simp del: gives_token.simps)

lemma ws_consume_gains:
  assumes inv: "client_inv N c" and n: "announces N (FromServer now m)"
  shows "gains N c (\<lambda>p. gives_token p m) (snd (ws_consume consumer now m c))"
proof (cases m)
  case (ResultWrapper w)
  then show ?thesis using ws_process_response_gains [OF inv] by (simp add: ws_consume_def)
qed (use n in \<open>auto simp: ws_consume_def ws_process_registered_def announces_def intro!: same_books_gain [OF inv]\<close>)

lemma ws_producer_turn_keeps:
  assumes inv: "client_inv N c"
  shows "turn_keeps N c (ws_producer_turn pid produced send now c)"
proof (cases "\<exists>h ip. gc_handlers c pid = Some h \<and> producer_objects c pid = Some ip")
  case False
  then show ?thesis using inv by (auto simp: ws_producer_turn_def split: option.split)
next
  case True
  then obtain h ip where h: "gc_handlers c pid = Some h" "producer_objects c pid = Some ip" by blast
  show ?thesis
  proof (cases "ph_phase h")
    case AwaitRegistered
    then show ?thesis using h start_handler_keeps [OF inv h(1)] by (simp add: ws_producer_turn_def)
  next
    case LoopTop
    then show ?thesis using h by (auto simp: ws_producer_turn_def intro!: set_phase_keeps [OF inv h(1)])
  next
    case AwaitToken
    then show ?thesis
      using h inv take_token_keeps [OF inv h(1) AwaitToken]
      by (auto simp: ws_producer_turn_def Let_def split: option.split sum.split)
  next
    case AwaitProduce
    then have "holds_token c pid" using h by (simp add: holds_token_def)
    then show ?thesis
      using AwaitProduce h inv finish_keeps [OF inv] retry_handler_keeps [OF inv] emit_input_keeps [OF inv]
      by (auto simp: ws_producer_turn_def split: option.split sum.split)
  qed (use h inv in \<open>simp_all add: ws_producer_turn_def\<close>)
qed

lemma ws_wait_books:
  "client_inv N (fst (ws_wait pid r)) = client_inv N (fst (snd r))"
  "spendable N (fst (ws_wait pid r)) p = spendable N (fst (snd r)) p" "snd (ws_wait pid r) = snd (snd r)"
  by (simp_all add: ws_wait_def client_inv_def spendable_def holds_token_def split: prod.split)

lemma ws_wait_keeps:
  assumes "turn_keeps N c r"
  shows "client_inv N (fst (ws_wait pid r)) \<and>
    spendable N (fst (ws_wait pid r)) p + int (inputs_of p (snd (ws_wait pid r))) \<le> spendable N c p"
  using assms unfolding ws_wait_books turn_keeps_def by blast

lemma ws_step_books:
  assumes inv: "client_inv N c" and al: "announces N ev"
  shows "client_inv N (fst (ws_step consumer c ev)) \<and>
    spendable N (fst (ws_step consumer c ev)) p + int (inputs_of p (snd (ws_step consumer c ev))) \<le>
      spendable N c p + (if event_gives p ev then 1 else 0)"
proof (cases "gc_ended c = None")
  case False
  then show ?thesis using inv by (auto simp: ws_step_def)
next
  case True
  have lost: "client_inv N (c\<lparr>gc_consuming := False\<rparr>)" "spendable N (c\<lparr>gc_consuming := False\<rparr>) p = spendable N c p"
    using inv by (simp_all add: client_inv_def spendable_def holds_token_def)
  show ?thesis
  proof (cases ev)
    case (FromServer now m)
    obtain e c1 where c1: "ws_consume consumer now m c = (e, c1)" by (metis prod.exhaust)
    with ws_consume_gains [OF inv al [unfolded FromServer], of consumer]
    have "gains N c (\<lambda>p. gives_token p m) c1" by simp
    from gainsD(1) [OF this] gainsD(2) [OF this, of p] c1 True FromServer show ?thesis
      by (simp add: ws_step_def ws_wait_books event_gives_def)
  next
    case (ProducerTurn pid produced send now)
    then show ?thesis
      using True ws_wait_keeps [OF ws_producer_turn_keeps [OF inv]] by (simp add: ws_step_def event_gives_def)
  next
    case (RegistrationTurn send)
    then show ?thesis
      using True ws_wait_keeps [OF registration_turn_keeps [OF inv]] by (simp add: ws_step_def event_gives_def)
  qed (use True inv lost application_event_keeps [OF inv, of None] in
      \<open>auto simp: ws_step_def ws_wait_books event_gives_def turn_keeps_def\<close>)
qed

interpretation ws_flow: flow_client "ws_step consumer" spendable client_inv gc_tokens announces
  by unfold_locales (use ws_step_books client_inv_pool in blast)+

section \<open>Properties\<close>

text \<open>
  Stopping a producer ends the WebSocket client.  Its task does not wait for a stopped producer to be
  resumed: when it next gets a token it asks the producer for a frame, the producer raises, and with
  that task the whole client ends, although the application has only paused one producer.
\<close>

theorem stopped_producer_ends_client:
  assumes "gc_ended c = None" and "gc_handlers c pid = Some h" and "ph_phase h = AwaitToken"
    and "producer_objects c pid = Some ip" and "\<not> ip_running ip"
    and "gc_tokens c pid = Some t" and "0 < get_remaining_tokens t"
  shows "gc_ended (fst (ws_step consumer c (ProducerTurn pid produced send now))) = Some None"
  using assms
  by (simp add: ws_step_def ws_producer_turn_def ws_wait_def get_token_def get_remaining_tokens_def produce_def Let_def)

definition demo_websocket :: gabriel_client where
  "demo_websocket =
     foldl (\<lambda>c ev. fst (ws_step (\<lambda>_. None) c ev)) (new_gabriel_client None [new_input_producer ''u'' [''e''] None])
       [RegistrationTurn None, FromServer 0 (Registered 1 [''e'']), ProducerTurn ''u'' None None 0,
        ProducerTurn ''u'' None None 0, ProducerChange ''u'' Stop]"

theorem stopped_producer_ends_client_witness:
  "gc_ended demo_websocket = None \<and>
   gc_ended (fst (ws_step (\<lambda>_. None) demo_websocket (ProducerTurn ''u'' None None 0))) = Some None"
proof -
  have e: "gc_ended demo_websocket = None" by code_simp
  have h: "gc_handlers demo_websocket ''u'' = Some \<lparr>ph_phase = AwaitToken, ph_frame_id = 1, ph_task = None\<rparr>"
    by code_simp
  have p: "producer_objects demo_websocket ''u'' =
      Some \<lparr>ip_running = False, ip_target_engine_ids = [''e''], ip_producer_name = None, ip_producer_id = ''u''\<rparr>"
    by code_simp
  have t: "gc_tokens demo_websocket ''u'' = Some \<lparr>tp_max_tokens = 1, tp_value = 1, tp_bounded = True\<rparr>"
    by code_simp
  have "gc_ended (fst (ws_step (\<lambda>_. None) demo_websocket (ProducerTurn ''u'' None None 0))) = Some None"
    by (rule stopped_producer_ends_client [OF e h _ p _ t]) (simp_all add: get_remaining_tokens_def)
  with e show ?thesis by blast
qed

end
