(* ===== verification/Zeromq_Client.thy ===== *)
theory Zeromq_Client
  imports Gabriel_Client
begin

text \<open>
  \<open>zeromq_client.py\<close>: the client over ZeroMQ.  It notices a lost server by silence, keeps its tasks
  over the reconnection, and sends heartbeats when its producers are idle.
\<close>

section \<open>State\<close>

record zeromq_client = gabriel_client +
  zc_connected :: bool
  zc_pending_heartbeat :: bool
  zc_last_heartbeat_time :: int
  zc_schedule_heartbeat :: bool

datatype zeromq_out = HelloOut | HeartbeatOut | MessageOut from_client

text \<open>\<open>HEARTBEAT_INTERVAL\<close> in units of the clock readings.\<close>

definition heartbeat_interval :: int where
  "heartbeat_interval = 1"

definition new_zeromq_client ::
  "string \<Rightarrow> proto_any option \<Rightarrow> input_producer list \<Rightarrow> py_exn + zeromq_client" where
  "new_zeromq_client scheme info ips =
     (if scheme \<noteq> ''tcp'' \<and> scheme \<noteq> ''ipc'' then Inl ValueError
      else Inr (gabriel_client.extend (new_gabriel_client info ips)
        \<lparr>zc_connected = True, zc_pending_heartbeat = False, zc_last_heartbeat_time = 0,
         zc_schedule_heartbeat = False\<rparr>))"

text \<open>What \<open>launch_async\<close> sends before it starts the tasks.\<close>

definition zeromq_launch_sends :: "zeromq_out list" where
  "zeromq_launch_sends = [HelloOut]"

section \<open>Heartbeats\<close>

definition send_heartbeat :: "bool \<Rightarrow> int \<Rightarrow> zeromq_client \<Rightarrow> zeromq_client \<times> zeromq_out list" where
  "send_heartbeat force now c =
     (if \<not> force \<and> (\<not> zc_connected c \<or> zc_pending_heartbeat c) then (c, [])
      else (c\<lparr>zc_pending_heartbeat := True, zc_last_heartbeat_time := now\<rparr>, [HeartbeatOut]))"

text \<open>\<open>_heartbeat_loop\<close> when it wakes up.\<close>

definition heartbeat_turn :: "int \<Rightarrow> zeromq_client \<Rightarrow> zeromq_client \<times> zeromq_out list" where
  "heartbeat_turn now c =
     (if \<not> gc_running c \<or> \<not> zc_schedule_heartbeat c then (c, [])
      else (let c1 = c\<lparr>zc_schedule_heartbeat := False\<rparr>
            in if now - zc_last_heartbeat_time c1 < heartbeat_interval then (c1, [])
               else send_heartbeat False now c1))"

section \<open>Messages from the server\<close>

definition zeromq_process_registered :: "int \<Rightarrow> engine_id list \<Rightarrow> zeromq_client \<Rightarrow> zeromq_client" where
  "zeromq_process_registered n ids c =
     c\<lparr>num_tokens_per_producer := Some n, gc_engine_ids := Some ids, registered_event := True\<rparr>"

definition zeromq_process_response ::
  "(result \<Rightarrow> py_exn option) \<Rightarrow> int \<Rightarrow> result_wrapper \<Rightarrow> 'a gabriel_client_scheme \<Rightarrow>
     py_exn option \<times> 'a gabriel_client_scheme" where
  "zeromq_process_response consumer now w c =
     (let r = rw_result w; st = code (res_status r)
      in return_from_server w
           (if st = SUCCESS then (let (_, c1) = record_response_latency now w c in (consumer r, c1))
            else if st = NO_ENGINE_FOR_INPUT then (Some GenericException, c)
            else if st = SERVER_DROPPED_FRAME then (None, c)
            else if status_code_has_name st then (None, c)
            else (Some ValueError, c)))"

text \<open>Anything that arrives while disconnected: all token pools are reset and the client registers again.\<close>

definition zeromq_reconnected :: "zeromq_client \<Rightarrow> zeromq_client" where
  "zeromq_reconnected c =
     (if zc_connected c then c
      else c\<lparr>zc_connected := True, gc_tokens := (\<lambda>pid. map_option reset_tokens (gc_tokens c pid)),
             reregistration_needed := True\<rparr>)"

definition zeromq_client_consume ::
  "(result \<Rightarrow> py_exn option) \<Rightarrow> int \<Rightarrow> to_client \<Rightarrow> zeromq_client \<Rightarrow> py_exn option \<times> zeromq_client" where
  "zeromq_client_consume consumer now m c =
     (case m of
        Registered n ids \<Rightarrow> (None, zeromq_process_registered n ids c)
      | ResultWrapper w \<Rightarrow> zeromq_process_response consumer now w c
      | EngineIdsUpdate ids \<Rightarrow> (None, c\<lparr>gc_engine_ids := Some ids\<rparr>)
      | ToClientUnset \<Rightarrow> (Some GenericException, c))"

text \<open>Ten seconds without a message: a new socket, and a heartbeat on it.\<close>

definition zeromq_poll_timeout :: "int \<Rightarrow> zeromq_client \<Rightarrow> zeromq_client \<times> zeromq_out list" where
  "zeromq_poll_timeout now c = send_heartbeat True now (c\<lparr>zc_connected := False\<rparr>)"

section \<open>The producer task\<close>

definition set_task :: "producer_id \<Rightarrow> bool option \<Rightarrow> 'a gabriel_client_scheme \<Rightarrow> 'a gabriel_client_scheme" where
  "set_task pid task c =
     (case gc_handlers c pid of
        None \<Rightarrow> c
      | Some h \<Rightarrow> c\<lparr>gc_handlers := (gc_handlers c)(pid \<mapsto> h\<lparr>ph_task := task\<rparr>)\<rparr>)"

text \<open>Start the frame production unless one is under way, and wait for it.\<close>

definition begin_produce :: "producer_id \<Rightarrow> producer_handler \<Rightarrow> input_producer \<Rightarrow> zeromq_client \<Rightarrow> zeromq_client" where
  "begin_produce pid h ip c =
     set_phase pid AwaitProduce
       (set_task pid (case ph_task h of None \<Rightarrow> Some (ip_running ip) | Some b \<Rightarrow> Some b) c)"

text \<open>With the token: check the targets, then wait for the connection or for the frame.\<close>

definition zeromq_token_taken ::
  "producer_id \<Rightarrow> producer_handler \<Rightarrow> input_producer \<Rightarrow> zeromq_client \<Rightarrow>
     py_exn option \<times> zeromq_client \<times> from_client list" where
  "zeromq_token_taken pid h ip c =
     (if get_target_engines ip = []
      then case give_back_token pid c of
        Inl e \<Rightarrow> (Some e, set_phase pid HandlerDone c, [])
      | Inr c' \<Rightarrow> (Some ValueError, set_phase pid HandlerDone c', [])
      else if \<not> zc_connected c then (None, set_phase pid AwaitConnected (set_task pid None c), [])
      else (None, begin_produce pid h ip c, []))"

definition zeromq_produced ::
  "producer_id \<Rightarrow> producer_handler \<Rightarrow> (py_exn + input_frame option) option \<Rightarrow> py_exn option \<Rightarrow> int \<Rightarrow>
     zeromq_client \<Rightarrow> py_exn option \<times> zeromq_client \<times> from_client list" where
  "zeromq_produced pid h produced send now c =
     (case produced of
        None \<Rightarrow> retry_handler pid (c\<lparr>zc_schedule_heartbeat := True\<rparr>)
      | Some res \<Rightarrow>
          (case (if ph_task h = Some True then res else Inl GenericException) of
             Inl e \<Rightarrow> (Some e, set_phase pid HandlerDone c, [])
           | Inr None \<Rightarrow> retry_handler pid (set_task pid None c)
           | Inr (Some frame) \<Rightarrow>
               (if empty_frame frame then retry_handler pid (set_task pid None c)
                else emit_input Some send now pid frame (set_task pid None c))))"

definition zeromq_producer_turn ::
  "producer_id \<Rightarrow> (py_exn + input_frame option) option \<Rightarrow> py_exn option \<Rightarrow> int \<Rightarrow> zeromq_client \<Rightarrow>
     py_exn option \<times> zeromq_client \<times> from_client list" where
  "zeromq_producer_turn pid produced send now c =
     (case (gc_handlers c pid, producer_objects c pid) of
        (Some h, Some ip) \<Rightarrow>
          (case ph_phase h of
             AwaitRegistered \<Rightarrow> start_handler pid c
           | LoopTop \<Rightarrow>
               (if \<not> gc_running c \<or> pid \<notin> set (input_producers c) then (None, set_phase pid HandlerDone c, [])
                else if \<not> ip_running ip then (None, c, [])
                else (None, set_phase pid AwaitToken c, []))
           | AwaitToken \<Rightarrow>
               (case gc_tokens c pid of
                  None \<Rightarrow> (None, c, [])
                | Some t \<Rightarrow>
                    (case get_token t of
                       None \<Rightarrow> (None, set_phase pid LoopTop (c\<lparr>zc_schedule_heartbeat := True\<rparr>), [])
                     | Some t' \<Rightarrow>
                         zeromq_token_taken pid h ip (c\<lparr>gc_tokens := (gc_tokens c)(pid \<mapsto> t')\<rparr>)))
           | AwaitConnected \<Rightarrow>
               (case wait_while_running (gc_running c) (zc_connected c) of
                  None \<Rightarrow> (None, c, [])
                | Some False \<Rightarrow> (None, set_phase pid HandlerDone c, [])
                | Some True \<Rightarrow> (None, begin_produce pid h ip c, []))
           | AwaitProduce \<Rightarrow> zeromq_produced pid h produced send now c
           | HandlerDone \<Rightarrow> (None, c, []))
      | _ \<Rightarrow> (None, c, []))"

section \<open>The client\<close>

definition messages_out :: "from_client list \<Rightarrow> zeromq_out list" where
  "messages_out ms = map MessageOut ms"

definition zeromq_client_step ::
  "(result \<Rightarrow> py_exn option) \<Rightarrow> zeromq_client \<Rightarrow> client_event \<Rightarrow> zeromq_client \<times> zeromq_out list" where
  "zeromq_client_step consumer c ev =
     (if gc_ended c \<noteq> None then (c, [])
      else case ev of
        FromServer now m \<Rightarrow>
          (if gc_consuming c
           then (let (e, c1) = zeromq_client_consume consumer now m (zeromq_reconnected c)
                 in apsnd messages_out (gather (e, consumer_next c1, [])))
           else (c, []))
      | EmptyBytes \<Rightarrow>
          (if gc_consuming c
           then (consumer_next ((zeromq_reconnected c)\<lparr>zc_pending_heartbeat := False\<rparr>), []) else (c, []))
      | UndecodableBytes \<Rightarrow>
          (if gc_consuming c then (consumer_next (zeromq_reconnected c), []) else (c, []))
      | ConnectionLost now \<Rightarrow>
          (if gc_consuming c then apfst consumer_next (zeromq_poll_timeout now c) else (c, []))
      | ProducerTurn pid produced send now \<Rightarrow>
          apsnd messages_out (gather (zeromq_producer_turn pid produced send now c))
      | RegistrationTurn send \<Rightarrow> apsnd messages_out (gather (registration_turn send c))
      | HeartbeatTurn now \<Rightarrow> heartbeat_turn now c
      | _ \<Rightarrow> (application_event c ev, []))"

section \<open>The books while the server answers\<close>

definition sent_messages :: "zeromq_out list \<Rightarrow> from_client list" where
  "sent_messages os = concat (map (\<lambda>x. case x of MessageOut m \<Rightarrow> [m] | _ \<Rightarrow> []) os)"

lemma sent_messages_out [simp]: "sent_messages (messages_out ms) = ms"
  by (induction ms) (simp_all add: sent_messages_def messages_out_def)

text \<open>The client with its messages alone, and the events of a session in which it is never lost.\<close>

definition zeromq_message_step ::
  "(result \<Rightarrow> py_exn option) \<Rightarrow> zeromq_client \<Rightarrow> client_event \<Rightarrow> zeromq_client \<times> from_client list" where
  "zeromq_message_step consumer c ev = apsnd sent_messages (zeromq_client_step consumer c ev)"

definition connected_inv :: "int \<Rightarrow> zeromq_client \<Rightarrow> bool" where
  "connected_inv N c \<longleftrightarrow> client_inv N c \<and> zc_connected c"

definition stays_connected :: "int \<Rightarrow> client_event \<Rightarrow> bool" where
  "stays_connected N ev \<longleftrightarrow> announces N ev \<and> (case ev of ConnectionLost _ \<Rightarrow> False | _ \<Rightarrow> True)"

lemma zeromq_process_response_gains:
  assumes "client_inv N c"
  shows "gains N c (\<lambda>p. gives_token p (ResultWrapper w)) (snd (zeromq_process_response consumer now w c))"
  by (auto simp: zeromq_process_response_def Let_def split: prod.split
      intro: return_same_gains [OF assms] return_latency_gains [OF assms] simp del: gives_token.simps)

lemma zeromq_client_consume_gains:
  assumes inv: "client_inv N c" and n: "announces N (FromServer now m)"
  shows "gains N c (\<lambda>p. gives_token p m) (snd (zeromq_client_consume consumer now m c))"
proof (cases m)
  case (ResultWrapper w)
  then show ?thesis using zeromq_process_response_gains [OF inv] by (simp add: zeromq_client_consume_def)
qed (use n in \<open>auto simp: zeromq_client_consume_def zeromq_process_registered_def announces_def
      intro!: same_books_gain [OF inv]\<close>)

lemma set_task_books [simp]:
  "client_inv N (set_task pid b c) = client_inv N c" "spendable N (set_task pid b c) p = spendable N c p"
  "holds_token (set_task pid b c) p = holds_token c p"
  by (auto simp: set_task_def client_inv_def spendable_def holds_token_def split: option.splits)

lemma schedule_books [simp]:
  "client_inv N (c\<lparr>zc_schedule_heartbeat := b\<rparr>) = client_inv N c"
  "spendable N (c\<lparr>zc_schedule_heartbeat := b\<rparr>) p = spendable N c p"
  "holds_token (c\<lparr>zc_schedule_heartbeat := b\<rparr>) p = holds_token c p"
  by (simp_all add: client_inv_def spendable_def holds_token_def)

text \<open>The token in the task's hands: whatever comes next, the books are kept.\<close>

lemma begin_produce_keeps:
  assumes inv: "client_inv N c" and h: "gc_handlers c pid = Some h" "ph_phase h = AwaitConnected"
  shows "turn_keeps N c (None, begin_produce pid h ip c, [])"
proof -
  let ?b = "case ph_task h of None \<Rightarrow> Some (ip_running ip) | Some b \<Rightarrow> Some b"
  have "turn_keeps N (set_task pid ?b c) (None, begin_produce pid h ip c, [])"
    unfolding begin_produce_def
    by (rule set_phase_keeps [where h = "h\<lparr>ph_task := ?b\<rparr>"])
      (use inv h in \<open>auto simp: holds_token_def, auto simp: set_task_def\<close>)
  then show ?thesis by (rule turn_keeps_cong) simp
qed

lemma zeromq_produced_keeps:
  assumes inv: "client_inv N c" and h: "holds_token c pid"
  shows "turn_keeps N c (zeromq_produced pid h' produced send now c)"
proof -
  have "turn_keeps N c (retry_handler pid (set_task pid None c))"
    by (rule turn_keeps_cong [OF retry_handler_keeps]) (use inv h in simp_all)
  moreover have "turn_keeps N c (retry_handler pid (c\<lparr>zc_schedule_heartbeat := True\<rparr>))"
    by (rule turn_keeps_cong [OF retry_handler_keeps]) (use inv h in simp_all)
  moreover have "turn_keeps N c (emit_input Some send now pid f (set_task pid None c))" for f
    by (rule turn_keeps_cong [OF emit_input_keeps]) (use inv h in simp_all)
  ultimately show ?thesis
    using finish_keeps [OF inv] by (auto simp: zeromq_produced_def split: option.split sum.split)
qed

lemma zeromq_token_taken_keeps:
  assumes inv: "client_inv N c" and h: "gc_handlers c pid = Some h" "ph_phase h = AwaitToken"
    and t: "gc_tokens c pid = Some t" "get_token t = Some t'"
  shows "turn_keeps N c (zeromq_token_taken pid h ip (c\<lparr>gc_tokens := (gc_tokens c)(pid \<mapsto> t')\<rparr>))"
proof -
  let ?c = "c\<lparr>gc_tokens := (gc_tokens c)(pid \<mapsto> t')\<rparr>"
  have t': "t' = t\<lparr>tp_value := tp_value t - 1\<rparr>" "pool_ok N t" "0 < tp_value t"
    using t client_invD(1) [OF inv t(1)] by (auto simp: get_token_def split: if_splits)
  then have "give_back_token pid ?c = Inr (?c\<lparr>gc_tokens := (gc_tokens c)(pid \<mapsto> t)\<rparr>)"
    by (auto simp: give_back_token_def return_token_def pool_ok_def)
  moreover have "(gc_tokens c)(pid \<mapsto> t) = gc_tokens c" using t(1) by (simp add: fun_upd_idem)
  ultimately have ret: "give_back_token pid ?c = Inr c" by simp
  have move: "turn_keeps N c (None, set_phase pid ph (set_task pid b ?c), [])" if "ph \<noteq> AwaitRegistered" for ph b
    by (rule turn_keepsI [OF inv h(1), where h' = "h\<lparr>ph_task := b, ph_phase := ph\<rparr>" and pool = "Some t'"])
      (use h t t' that in \<open>auto simp: set_phase_def set_task_def purse_def pool_ok_def\<close>)
  show ?thesis
    using finish_keeps [OF inv] move [of AwaitConnected] move [of AwaitProduce]
    unfolding zeromq_token_taken_def begin_produce_def ret by simp
qed

lemma zeromq_producer_turn_keeps:
  assumes inv: "client_inv N c"
  shows "turn_keeps N c (zeromq_producer_turn pid produced send now c)"
proof (cases "\<exists>h ip. gc_handlers c pid = Some h \<and> producer_objects c pid = Some ip")
  case False
  then show ?thesis using inv by (auto simp: zeromq_producer_turn_def split: option.split)
next
  case True
  then obtain h ip where h: "gc_handlers c pid = Some h" "producer_objects c pid = Some ip" by blast
  show ?thesis
  proof (cases "ph_phase h")
    case AwaitRegistered
    then show ?thesis using h start_handler_keeps [OF inv h(1)] by (simp add: zeromq_producer_turn_def)
  next
    case LoopTop
    then show ?thesis
      using h inv by (auto simp: zeromq_producer_turn_def intro!: set_phase_keeps [OF inv h(1)])
  next
    case AwaitToken
    have "turn_keeps N (c\<lparr>zc_schedule_heartbeat := True\<rparr>)
        (None, set_phase pid LoopTop (c\<lparr>zc_schedule_heartbeat := True\<rparr>), [])"
      by (rule set_phase_keeps [where h = h]) (use inv h AwaitToken in simp_all)
    then have "turn_keeps N c (None, set_phase pid LoopTop (c\<lparr>zc_schedule_heartbeat := True\<rparr>), [])"
      by (rule turn_keeps_cong) simp
    then show ?thesis
      using AwaitToken h inv zeromq_token_taken_keeps [OF inv h(1) AwaitToken]
      by (auto simp: zeromq_producer_turn_def split: option.split)
  next
    case AwaitConnected
    then show ?thesis
      using h inv begin_produce_keeps [OF inv h(1)] finish_keeps [OF inv]
      by (simp add: zeromq_producer_turn_def split: option.split bool.split)
  next
    case AwaitProduce
    then have "holds_token c pid" using h by (simp add: holds_token_def)
    then show ?thesis
      using AwaitProduce h zeromq_produced_keeps [OF inv] by (simp add: zeromq_producer_turn_def)
  qed (use h inv in \<open>simp_all add: zeromq_producer_turn_def\<close>)
qed

text \<open>What the client knows of its link to the server changes only in the consumer and the heartbeats.\<close>

definition same_link :: "zeromq_client \<Rightarrow> zeromq_client \<Rightarrow> bool" where
  "same_link c c' \<longleftrightarrow>
     zc_connected c' = zc_connected c \<and> zc_pending_heartbeat c' = zc_pending_heartbeat c"

lemma same_link_more: "gabriel_client.more c' = gabriel_client.more c \<Longrightarrow> same_link c c'"
  by (cases c, cases c') (simp add: same_link_def)

lemma same_link_trans [trans]: "same_link c c' \<Longrightarrow> same_link c' c'' \<Longrightarrow> same_link c c''"
  by (simp add: same_link_def)

lemma set_task_more [more_simps]: "gabriel_client.more (set_task pid b c) = gabriel_client.more c"
  by (simp add: set_task_def split: option.split)

lemma give_back_link: "give_back_token pid c = Inr c' \<Longrightarrow> same_link c c'"
  by (rule same_link_more) (rule give_back_more)

lemma producer_turn_link: "same_link c (fst (snd (zeromq_producer_turn pid produced send now c)))"
proof -
  have s: "same_link c (c\<lparr>zc_schedule_heartbeat := True\<rparr>)" "same_link c (c\<lparr>gc_tokens := ts\<rparr>)" for ts
    by (simp_all add: same_link_def)
  have taken: "same_link c1 (fst (snd (zeromq_token_taken pid h ip c1)))" for h ip c1
    by (auto simp: zeromq_token_taken_def begin_produce_def more_simps intro!: same_link_more
        dest: give_back_more split: sum.split)
  have "same_link c (fst (snd (zeromq_produced pid h produced send now c)))" for h
    using same_link_trans [OF s(1) same_link_more]
    by (auto simp: zeromq_produced_def more_simps intro: same_link_more split: option.split sum.split)
  moreover have "same_link c (set_phase pid LoopTop (c\<lparr>zc_schedule_heartbeat := True\<rparr>))"
    by (rule same_link_trans [OF s(1) same_link_more]) (simp add: more_simps)
  ultimately show ?thesis
    using same_link_trans [OF s(2) taken]
    by (auto simp: zeromq_producer_turn_def begin_produce_def more_simps intro: same_link_more
        split: option.split handler_phase.split bool.split)
qed

lemma registration_link: "same_link c (fst (snd (registration_turn send c)))"
  by (rule same_link_more) (simp add: more_simps)

lemma gather_link: "same_link (fst (snd r)) (fst (gather r))"
  by (rule same_link_more) (simp add: more_simps)

lemma consume_link: "same_link c (snd (zeromq_client_consume consumer now m c))"
  by (rule same_link_more)
    (simp add: zeromq_client_consume_def zeromq_process_registered_def zeromq_process_response_def Let_def
      split_def more_simps split: to_client.split)

lemma consumer_next_link: "same_link c (consumer_next c)" "same_link c (application_event c ev)"
  by (rule same_link_more, simp add: more_simps)+

lemma gathered_links:
  "same_link c (fst (gather (zeromq_producer_turn pid produced send now c)))"
  "same_link c (fst (gather (registration_turn send c)))"
  "zeromq_client_consume consumer now m c = (e, c1) \<Longrightarrow> same_link c (fst (gather (e, consumer_next c1, ms)))"
proof -
  show "same_link c (fst (gather (zeromq_producer_turn pid produced send now c)))"
    by (rule same_link_trans [OF producer_turn_link gather_link])
  show "same_link c (fst (gather (registration_turn send c)))"
    by (rule same_link_trans [OF registration_link gather_link])
  assume "zeromq_client_consume consumer now m c = (e, c1)"
  then have "same_link c (consumer_next c1)"
    using consume_link [of c consumer now m] consumer_next_link(1) same_link_trans by (metis snd_conv)
  then show "same_link c (fst (gather (e, consumer_next c1, ms)))"
    using gather_link [of "(e, consumer_next c1, ms)"] same_link_trans by (metis fst_conv snd_conv)
qed

lemma heartbeat_turn_books:
  "client_inv N (fst (heartbeat_turn now c)) = client_inv N c"
  "spendable N (fst (heartbeat_turn now c)) p = spendable N c p"
  "zc_connected (fst (heartbeat_turn now c)) = zc_connected c"
  "sent_messages (snd (heartbeat_turn now c)) = []"
  by (simp_all add: heartbeat_turn_def send_heartbeat_def sent_messages_def Let_def client_inv_def
      spendable_def holds_token_def)

lemma pending_heartbeat_books [simp]:
  "client_inv N (c\<lparr>zc_pending_heartbeat := b\<rparr>) = client_inv N c"
  "spendable N (c\<lparr>zc_pending_heartbeat := b\<rparr>) p = spendable N c p"
  by (simp_all add: client_inv_def spendable_def holds_token_def)

lemma no_messages [simp]: "sent_messages [] = []"
  by (simp add: sent_messages_def)

lemma apsnd_messages [simp]:
  "fst (apsnd f r) = fst r" "snd (apsnd sent_messages (apsnd messages_out r)) = snd r"
  by (cases r, simp)+

lemma zeromq_client_step_books:
  assumes inv: "connected_inv N c" and al: "stays_connected N ev"
  shows "connected_inv N (fst (zeromq_message_step consumer c ev)) \<and>
    spendable N (fst (zeromq_message_step consumer c ev)) p +
      int (inputs_of p (snd (zeromq_message_step consumer c ev))) \<le>
      spendable N c p + (if event_gives p ev then 1 else 0)"
proof (cases "gc_ended c = None")
  case False
  then show ?thesis using inv by (auto simp: zeromq_message_step_def zeromq_client_step_def)
next
  case True
  have ci: "client_inv N c" and co: "zc_connected c" using inv by (simp_all add: connected_inv_def)
  have re: "zeromq_reconnected c = c" using co by (simp add: zeromq_reconnected_def)
  show ?thesis
  proof (cases ev)
    case (FromServer now m)
    obtain e c1 where c1: "zeromq_client_consume consumer now m c = (e, c1)" by (metis prod.exhaust)
    have an: "announces N (FromServer now m)" using al FromServer by (simp add: stays_connected_def)
    have "gains N c (\<lambda>p. gives_token p m) c1" using zeromq_client_consume_gains [OF ci an, of consumer] c1 by simp
    note g = gainsD [OF this]
    have "zc_connected (fst (gather (e, consumer_next c1, [])))"
      using gathered_links(3) [OF c1, of "[]"] co by (simp add: same_link_def)
    with g(1) g(2) [of p] c1 True FromServer inv re show ?thesis
      by (auto simp: zeromq_message_step_def zeromq_client_step_def gather_books event_gives_def
          connected_inv_def split: if_splits)
  next
    case (ProducerTurn pid produced send now)
    then show ?thesis
      using True co gather_keeps [OF zeromq_producer_turn_keeps [OF ci]]
        gathered_links(1) [of c pid produced send now]
      by (simp add: zeromq_message_step_def zeromq_client_step_def event_gives_def connected_inv_def same_link_def)
  next
    case (RegistrationTurn send)
    then show ?thesis
      using True co gather_keeps [OF registration_turn_keeps [OF ci]] gathered_links(2) [of c send]
      by (simp add: zeromq_message_step_def zeromq_client_step_def event_gives_def connected_inv_def same_link_def)
  next
    case (HeartbeatTurn now)
    then show ?thesis
      using True inv
      by (simp add: zeromq_message_step_def zeromq_client_step_def event_gives_def connected_inv_def heartbeat_turn_books)
  qed (use True inv al re application_event_keeps [OF ci, of None] consumer_next_link in
      \<open>auto simp: same_link_def zeromq_message_step_def zeromq_client_step_def event_gives_def connected_inv_def turn_keeps_def
        stays_connected_def\<close>)
qed

lemma connected_inv_pool:
  "connected_inv N c \<Longrightarrow> gc_tokens c p = Some t \<Longrightarrow> pool_ok N t \<and> tp_value t \<le> spendable N c p"
  unfolding connected_inv_def using client_inv_pool by blast

interpretation zeromq_flow: flow_client "zeromq_message_step consumer" spendable connected_inv gc_tokens
  stays_connected
  by unfold_locales (use zeromq_client_step_books connected_inv_pool in \<open>blast | simp add: stays_connected_def\<close>)+

section \<open>Properties\<close>

definition heartbeats :: "zeromq_out list \<Rightarrow> nat" where
  "heartbeats os = length (filter (\<lambda>x. x = HeartbeatOut) os)"

definition unanswered :: "zeromq_client \<Rightarrow> nat" where
  "unanswered c = (if zc_pending_heartbeat c then 1 else 0)"

definition answers :: "client_event \<Rightarrow> nat" where
  "answers ev = (case ev of EmptyBytes \<Rightarrow> 1 | _ \<Rightarrow> 0)"

definition not_lost :: "client_event \<Rightarrow> bool" where
  "not_lost ev = (case ev of ConnectionLost _ \<Rightarrow> False | _ \<Rightarrow> True)"

fun zeromq_run ::
  "(result \<Rightarrow> py_exn option) \<Rightarrow> zeromq_client \<Rightarrow> client_event list \<Rightarrow> zeromq_client \<times> zeromq_out list" where
  "zeromq_run consumer c [] = (c, [])"
| "zeromq_run consumer c (ev # evs) =
     (let (c1, os) = zeromq_client_step consumer c ev; (c2, os') = zeromq_run consumer c1 evs in (c2, os @ os'))"

lemma heartbeats_simps [simp]:
  "heartbeats [] = 0" "heartbeats (os @ os') = heartbeats os + heartbeats os'" "heartbeats (messages_out ms) = 0"
  by (simp_all add: heartbeats_def messages_out_def filter_empty_conv)

lemma reconnected_pending [simp]:
  "zc_pending_heartbeat (zeromq_reconnected c) = zc_pending_heartbeat c"
  by (simp add: zeromq_reconnected_def)

lemma apsnd_heartbeats [simp]: "heartbeats (snd (apsnd messages_out r)) = 0"
  by (cases r) simp

lemma zeromq_client_step_heartbeats:
  assumes "not_lost ev"
  shows "heartbeats (snd (zeromq_client_step consumer c ev)) + unanswered c \<le>
    unanswered (fst (zeromq_client_step consumer c ev)) + answers ev"
proof (cases "gc_ended c = None")
  case False
  then show ?thesis by (auto simp: zeromq_client_step_def)
next
  case True
  show ?thesis
  proof (cases ev)
    case (FromServer now m)
    then show ?thesis
      using True gathered_links(3) [of consumer now m "zeromq_reconnected c" _ _ "[]"]
      by (auto simp: zeromq_client_step_def unanswered_def same_link_def split: prod.split)
  next
    case (ProducerTurn pid produced send now)
    then show ?thesis
      using True gathered_links(1) [of c pid produced send now]
      by (simp add: zeromq_client_step_def unanswered_def same_link_def)
  next
    case (RegistrationTurn send)
    then show ?thesis
      using True gathered_links(2) [of c send] by (simp add: zeromq_client_step_def unanswered_def same_link_def)
  next
    case (HeartbeatTurn now)
    then show ?thesis
      using True by (auto simp: zeromq_client_step_def heartbeat_turn_def send_heartbeat_def unanswered_def heartbeats_def Let_def)
  qed (use True assms consumer_next_link in
      \<open>auto simp: zeromq_client_step_def unanswered_def answers_def not_lost_def same_link_def\<close>)
qed

text \<open>
  C25. One heartbeat at a time.  As long as the server keeps answering within the poll timeout, the
  client never sends more heartbeats than it has received answers, plus one; and none at all until
  the one that is pending is answered.
\<close>

theorem heartbeats_await_answers:
  assumes "list_all not_lost evs"
  shows "heartbeats (snd (zeromq_run consumer c evs)) + unanswered c \<le> 1 + sum_list (map answers evs)"
proof -
  have "heartbeats (snd (zeromq_run consumer c evs)) + unanswered c \<le>
      unanswered (fst (zeromq_run consumer c evs)) + sum_list (map answers evs)"
    using assms
  proof (induction evs arbitrary: c)
    case (Cons ev evs)
    let ?c = "fst (zeromq_client_step consumer c ev)"
    have "heartbeats (snd (zeromq_client_step consumer c ev)) + unanswered c \<le> unanswered ?c + answers ev"
      using zeromq_client_step_heartbeats Cons.prems by simp
    moreover have "heartbeats (snd (zeromq_run consumer ?c evs)) + unanswered ?c \<le>
        unanswered (fst (zeromq_run consumer ?c evs)) + sum_list (map answers evs)"
      using Cons.IH [of ?c] Cons.prems by simp
    ultimately show ?case by (simp add: split_def Let_def)
  qed simp
  moreover have "unanswered d \<le> 1" for d by (simp add: unanswered_def)
  ultimately show ?thesis by (meson add_le_mono1 order_trans)
qed

definition demo_zeromq_client :: zeromq_client where
  "demo_zeromq_client =
     gabriel_client.extend (new_gabriel_client None [new_input_producer ''u'' [''e''] None])
       \<lparr>zc_connected = True, zc_pending_heartbeat = False, zc_last_heartbeat_time = 0,
        zc_schedule_heartbeat = True\<rparr>"

theorem heartbeats_await_answers_witness:
  "heartbeats (snd (zeromq_run (\<lambda>_. None) demo_zeromq_client
     [HeartbeatTurn 5, HeartbeatTurn 9, EmptyBytes])) \<le> 2 \<and>
   heartbeats (snd (zeromq_run (\<lambda>_. None) demo_zeromq_client
     [HeartbeatTurn 5, HeartbeatTurn 9, EmptyBytes])) = 1"
proof -
  let ?evs = "[HeartbeatTurn 5, HeartbeatTurn 9, EmptyBytes]"
  have "unanswered demo_zeromq_client = 0" by code_simp
  moreover have "heartbeats (snd (zeromq_run (\<lambda>_. None) demo_zeromq_client ?evs)) = 1" by code_simp
  ultimately show ?thesis
    using heartbeats_await_answers [of ?evs "\<lambda>_. None" demo_zeromq_client] by (simp add: not_lost_def answers_def)
qed

text \<open>
  C32. A reconnection can overspend.  When the server comes back while a producer task holds a token,
  the pool of that producer is filled up to the allotment again and loses its bound, so that the
  client may send one input more than the server allows.
\<close>

theorem reconnection_overspends:
  assumes "gc_ended c = None" and "gc_consuming c" and "\<not> zc_connected c"
    and "gc_tokens c pid = Some t" and "holds_token c pid"
  shows "spendable N (fst (zeromq_client_step consumer c EmptyBytes)) pid = tp_max_tokens t + 1 \<and>
    (\<forall>t'. gc_tokens (fst (zeromq_client_step consumer c EmptyBytes)) pid = Some t' \<longrightarrow> \<not> tp_bounded t')"
  using assms
  by (auto simp: zeromq_client_step_def zeromq_reconnected_def consumer_next_def spendable_def holds_token_def
      reset_tokens_def split: option.splits)

definition lost_and_found :: "client_event list" where
  "lost_and_found =
     [RegistrationTurn None, FromServer 0 (Registered 1 [''e'']), ProducerTurn ''u'' None None 0,
      ProducerTurn ''u'' None None 0, ProducerTurn ''u'' None None 0, ConnectionLost 10]"

definition image_frame :: input_frame where
  "image_frame = \<lparr>payload_type = IMAGE, frame_payload = Some (BytePayload ''x'')\<rparr>"

definition two_frames :: "client_event list" where
  "two_frames =
     [EmptyBytes, ProducerTurn ''u'' (Some (Inr (Some image_frame))) None 11, ProducerTurn ''u'' None None 11,
      ProducerTurn ''u'' None None 11, ProducerTurn ''u'' (Some (Inr (Some image_frame))) None 12]"

theorem reconnection_overspends_witness:
  "spendable 1 (fst (zeromq_run (\<lambda>_. None) demo_zeromq_client (lost_and_found @ [EmptyBytes]))) ''u'' = 2 \<and>
   inputs_of ''u'' (sent_messages (snd (zeromq_run (\<lambda>_. None) demo_zeromq_client
     (lost_and_found @ two_frames)))) = 2"
proof -
  let ?c = "fst (zeromq_run (\<lambda>_. None) demo_zeromq_client lost_and_found)"
  have t: "gc_tokens ?c ''u'' = Some \<lparr>tp_max_tokens = 1, tp_value = 0, tp_bounded = True\<rparr>" by code_simp
  have "gc_ended ?c = None" "gc_consuming ?c" "\<not> zc_connected ?c" "holds_token ?c ''u''" by code_simp+
  from reconnection_overspends [OF this(1-3) t this(4), of 1 "\<lambda>_. None"]
  have "spendable 1 (fst (zeromq_client_step (\<lambda>_. None) ?c EmptyBytes)) ''u'' = 2" by simp
  moreover have "fst (zeromq_run (\<lambda>_. None) demo_zeromq_client (lost_and_found @ [EmptyBytes])) =
      fst (zeromq_client_step (\<lambda>_. None) ?c EmptyBytes)"
    by (simp add: lost_and_found_def split_def Let_def)
  moreover have "inputs_of ''u'' (sent_messages (snd (zeromq_run (\<lambda>_. None) demo_zeromq_client
     (lost_and_found @ two_frames)))) = 2" by code_simp
  ultimately show ?thesis by simp
qed

end
