(* ===== verification/Go_Client.thy ===== *)
theory Go_Client
  imports Gabriel_Client Tls_Utils
begin

text \<open>
  The Go client library: \<open>input_producer.go\<close>, \<open>options.go\<close>, \<open>metrics.go\<close>, \<open>client.go\<close> and \<open>handlers.go\<close>.
  Each goroutine of a session is a phase machine; a turn of a goroutine runs to the next point at which it
  blocks or at which another goroutine can see what it did.  Pool objects have an identity, because a
  goroutine keeps the pool that it read from the table.
\<close>

section \<open>Input producers\<close>

record go_producer =
  gop_target_engine_ids :: "engine_id list"
  gop_running :: bool

definition new_go_producer :: "engine_id list \<Rightarrow> go_producer" where
  "new_go_producer target_engine_ids = \<lparr>gop_target_engine_ids = remdups target_engine_ids, gop_running = True\<rparr>"

definition go_pause :: "go_producer \<Rightarrow> go_producer" where
  "go_pause ip = ip\<lparr>gop_running := False\<rparr>"

definition go_resume :: "go_producer \<Rightarrow> go_producer" where
  "go_resume ip = ip\<lparr>gop_running := True\<rparr>"

definition go_change_target_engines :: "engine_id list \<Rightarrow> go_producer \<Rightarrow> go_producer" where
  "go_change_target_engines ids ip = ip\<lparr>gop_target_engine_ids := remdups ids\<rparr>"

definition go_add_target_engine :: "engine_id \<Rightarrow> go_producer \<Rightarrow> go_producer" where
  "go_add_target_engine eid ip = ip\<lparr>gop_target_engine_ids := List.insert eid (gop_target_engine_ids ip)\<rparr>"

definition go_remove_target_engine :: "engine_id \<Rightarrow> go_producer \<Rightarrow> go_producer" where
  "go_remove_target_engine eid ip = ip\<lparr>gop_target_engine_ids := removeAll eid (gop_target_engine_ids ip)\<rparr>"

definition go_producer_op :: "producer_op \<Rightarrow> go_producer \<Rightarrow> go_producer" where
  "go_producer_op op ip =
     (case op of
        Resume \<Rightarrow> go_resume ip
      | Stop \<Rightarrow> go_pause ip
      | ChangeTargets ids \<Rightarrow> go_change_target_engines ids ip
      | AddTarget eid \<Rightarrow> go_add_target_engine eid ip
      | RemoveTarget eid \<Rightarrow> go_remove_target_engine eid ip)"

section \<open>Token pools\<close>

text \<open>
  A \<open>semaphore.Weighted\<close> with its size and the weight in use, and the mirror \<open>remaining\<close>.  Acquiring
  waits (\<open>None\<close>) while nothing is left; releasing more than is held panics (\<open>None\<close>).
\<close>

record go_token_pool =
  sem_size :: int
  sem_cur :: int
  gtp_max_tokens :: int
  gtp_remaining :: int

definition go_new_token_pool :: "int \<Rightarrow> go_token_pool" where
  "go_new_token_pool max_tokens =
     \<lparr>sem_size = max_tokens, sem_cur = 0, gtp_max_tokens = max_tokens, gtp_remaining = max_tokens\<rparr>"

definition go_reset_tokens :: "go_token_pool \<Rightarrow> go_token_pool" where
  "go_reset_tokens t = t\<lparr>sem_size := gtp_max_tokens t, sem_cur := 0, gtp_remaining := gtp_max_tokens t\<rparr>"

definition go_get_token :: "go_token_pool \<Rightarrow> go_token_pool option" where
  "go_get_token t =
     (if 1 \<le> sem_size t - sem_cur t
      then Some (t\<lparr>sem_cur := sem_cur t + 1, gtp_remaining := gtp_remaining t - 1\<rparr>) else None)"

definition go_return_token :: "go_token_pool \<Rightarrow> go_token_pool option" where
  "go_return_token t =
     (if sem_cur t - 1 < 0 then None
      else Some (t\<lparr>sem_cur := sem_cur t - 1, gtp_remaining := gtp_remaining t + 1\<rparr>))"

section \<open>Options\<close>

datatype go_tls_error = ReadingCaCert | ParsingCaCert | LoadingClientCert

record 'cert go_tls_config =
  gtc_root_cas :: "bytes option"
  gtc_certificate :: "'cert option"

text \<open>
  \<open>LoadTLSCredentials\<close>.  Whether a PEM file parses and what a key pair loads to is up to Go's
  \<open>crypto\<close> packages: \<open>parses\<close> and \<open>load_pair\<close>.
\<close>

definition load_tls_credentials ::
  "(string \<Rightarrow> bytes option) \<Rightarrow> (bytes \<Rightarrow> bool) \<Rightarrow> (string \<Rightarrow> string \<Rightarrow> 'cert option) \<Rightarrow>
     string \<Rightarrow> string \<Rightarrow> string \<Rightarrow> go_tls_error + 'cert go_tls_config" where
  "load_tls_credentials read_file parses load_pair ca_cert_path client_cert_path client_key_path =
     (let with_pair = (\<lambda>ca.
        if client_cert_path \<noteq> [] \<and> client_key_path \<noteq> []
        then (case load_pair client_cert_path client_key_path of
                None \<Rightarrow> Inl LoadingClientCert
              | Some p \<Rightarrow> Inr \<lparr>gtc_root_cas = ca, gtc_certificate = Some p\<rparr>)
        else Inr \<lparr>gtc_root_cas = ca, gtc_certificate = None\<rparr>)
      in if ca_cert_path \<noteq> []
         then (case read_file ca_cert_path of
                 None \<Rightarrow> Inl ReadingCaCert
               | Some b \<Rightarrow> (if \<not> parses b then Inl ParsingCaCert else with_pair (Some b)))
         else with_pair None)"

text \<open>Configuration and the functional options, applied in order.  Durations are in milliseconds.\<close>

record go_config =
  gcf_server_endpoint :: string
  gcf_tls_credentials :: "string option"
  gcf_reconnect_interval :: int
  gcf_dial_options :: "string list"
  gcf_client_info :: "proto_any option"
  gcf_registration_retry_interval :: int
  gcf_prometheus_port :: int

datatype go_option =
    WithTLSCredentials string
  | WithReconnectInterval int
  | WithDialOptions "string list"
  | WithClientInfo proto_any
  | WithRegistrationRetryInterval int
  | WithPrometheusPort int

definition apply_option :: "go_option \<Rightarrow> go_config \<Rightarrow> go_config" where
  "apply_option opt g =
     (case opt of
        WithTLSCredentials creds \<Rightarrow> g\<lparr>gcf_tls_credentials := Some creds\<rparr>
      | WithReconnectInterval ms \<Rightarrow> g\<lparr>gcf_reconnect_interval := ms\<rparr>
      | WithDialOptions os \<Rightarrow> g\<lparr>gcf_dial_options := gcf_dial_options g @ os\<rparr>
      | WithClientInfo info \<Rightarrow> g\<lparr>gcf_client_info := Some info\<rparr>
      | WithRegistrationRetryInterval ms \<Rightarrow> g\<lparr>gcf_registration_retry_interval := ms\<rparr>
      | WithPrometheusPort port \<Rightarrow> g\<lparr>gcf_prometheus_port := port\<rparr>)"

text \<open>The dial options of \<open>connect\<close>: credentials, the default keepalive, then the user's.\<close>

definition go_dial_options :: "go_config \<Rightarrow> string list" where
  "go_dial_options g =
     [case gcf_tls_credentials g of None \<Rightarrow> ''insecure'' | Some creds \<Rightarrow> creds, ''keepalive''] @ gcf_dial_options g"

text \<open>The metadata of a stream, and the keepalive parameters in milliseconds.\<close>

definition go_stream_metadata :: "string \<Rightarrow> string \<Rightarrow> (string \<times> string) list" where
  "go_stream_metadata session_id role = [(''session-id'', session_id), (''stream-role'', role)]"

definition go_keepalive :: "int \<times> int \<times> bool" where
  "go_keepalive = (10000, 5000, True)"

section \<open>State of a client\<close>

text \<open>Where a producer goroutine is; \<open>GoRecordSend\<close> is between the write and its bookkeeping.\<close>

datatype go_phase =
    GoAwaitConnected
  | GoTop
  | GoAwaitRunning
  | GoAwaitToken
  | GoAwaitFrame
  | GoRecordSend int
  | GoHandlerDone

datatype go_registration_phase = GoRegistrationSend | GoRegistrationWait | GoRegistrationDone

datatype go_error = ErrDisconnected | ErrEngineNotConnected engine_id

text \<open>
  A pool is named by the number of the \<open>Registered\<close> message that created it and by its producer.
  \<open>goh_pool\<close> is the pool that the goroutine has read from the table.
\<close>

record go_handler =
  goh_phase :: go_phase
  goh_pool :: "nat option"
  goh_frame_id :: int

record go_client =
  go_configuration :: go_config
  go_producers :: "(producer_id \<times> go_producer) list"
  go_registrations :: nat
  go_pools :: "nat \<times> producer_id \<rightharpoonup> go_token_pool"
  go_num_tokens_per_producer :: int
  go_engine_ids :: "engine_id list"
  go_connected :: bool
  go_pending_results :: "producer_id \<times> int \<rightharpoonup> int"
  go_session_id :: string
  go_handlers :: "producer_id \<rightharpoonup> go_handler"
  go_consuming :: bool
  go_registration :: go_registration_phase
  go_session_errors :: "go_error list"
  go_session_cancelled :: bool
  go_cancelled :: bool
  go_panicked :: bool

text \<open>The entry of the table \<open>client.tokenPool\<close> for a producer: the pool of the last registration.\<close>

definition go_table :: "go_client \<Rightarrow> producer_id \<Rightarrow> go_token_pool option" where
  "go_table c pid = go_pools c (go_registrations c, pid)"

definition go_ctx_done :: "go_client \<Rightarrow> bool" where
  "go_ctx_done c \<longleftrightarrow> go_cancelled c \<or> go_session_cancelled c"

section \<open>Construction\<close>

datatype go_config_error = EmptyEndpoint | NilConsumer | DuplicateProducer string | NoTargetEngines string

fun check_producers :: "string list \<Rightarrow> (producer_id \<times> go_producer) list \<Rightarrow> go_config_error option" where
  "check_producers seen [] = None"
| "check_producers seen ((name, ip) # rest) =
     (if name \<in> set seen then Some (DuplicateProducer name)
      else if gop_target_engine_ids ip = [] then Some (NoTargetEngines name)
      else check_producers (name # seen) rest)"

definition new_go_client ::
  "string \<Rightarrow> (producer_id \<times> go_producer) list \<Rightarrow> bool \<Rightarrow> go_option list \<Rightarrow> go_config_error + go_client" where
  "new_go_client server_endpoint ips has_consumer opts =
     (if server_endpoint = [] then Inl EmptyEndpoint
      else if \<not> has_consumer then Inl NilConsumer
      else case check_producers [] ips of
        Some e \<Rightarrow> Inl e
      | None \<Rightarrow>
          Inr \<lparr>go_configuration = fold apply_option opts
                 \<lparr>gcf_server_endpoint = server_endpoint, gcf_tls_credentials = None,
                  gcf_reconnect_interval = 2000, gcf_dial_options = [], gcf_client_info = None,
                  gcf_registration_retry_interval = 2000, gcf_prometheus_port = 0\<rparr>,
               go_producers = ips, go_registrations = 0, go_pools = Map.empty, go_num_tokens_per_producer = 0,
               go_engine_ids = [], go_connected = False, go_pending_results = Map.empty, go_session_id = [],
               go_handlers = Map.empty, go_consuming = False, go_registration = GoRegistrationDone,
               go_session_errors = [], go_session_cancelled = False, go_cancelled = False, go_panicked = False\<rparr>)"

section \<open>The consumer goroutine\<close>

definition go_record_send :: "int \<Rightarrow> producer_id \<Rightarrow> int \<Rightarrow> go_client \<Rightarrow> go_client" where
  "go_record_send now pid frame_id c =
     c\<lparr>go_pending_results := (go_pending_results c)((pid, frame_id) \<mapsto> now)\<rparr>"

definition go_record_response :: "int \<Rightarrow> producer_id \<Rightarrow> int \<Rightarrow> go_client \<Rightarrow> int option \<times> go_client" where
  "go_record_response now pid frame_id c =
     (case go_pending_results c (pid, frame_id) of
        None \<Rightarrow> (None, c)
      | Some sent_at \<Rightarrow>
          (Some (now - sent_at), c\<lparr>go_pending_results := (go_pending_results c)((pid, frame_id) := None)\<rparr>))"

definition go_process_registered :: "int \<Rightarrow> engine_id list \<Rightarrow> go_client \<Rightarrow> go_client" where
  "go_process_registered n ids c =
     (let k = go_registrations c + 1
      in c\<lparr>go_num_tokens_per_producer := n, go_engine_ids := fold List.insert ids (go_engine_ids c),
           go_registrations := k,
           go_pools := (\<lambda>(j, p). if j = k then
               (if p \<in> fst ` set (go_producers c) then Some (go_new_token_pool n) else None)
             else go_pools c (j, p)),
           go_connected := True\<rparr>)"

text \<open>The first component is what the application's consumer is called with.\<close>

definition go_process_result :: "int \<Rightarrow> result_wrapper \<Rightarrow> go_client \<Rightarrow> result list \<times> go_client" where
  "go_process_result now w c =
     (let r = rw_result w; pid = rw_producer_id w;
          (_, c1) = go_record_response now pid (res_frame_id r) c;
          consumed = (if code (res_status r) = SUCCESS then [r] else [])
      in if rw_return_token w
         then (case go_table c1 pid of
                 None \<Rightarrow> (consumed, c1)
               | Some t \<Rightarrow>
                   (case go_return_token t of
                      None \<Rightarrow> (consumed, c1\<lparr>go_panicked := True\<rparr>)
                    | Some t' \<Rightarrow>
                        (consumed, c1\<lparr>go_pools := (go_pools c1)((go_registrations c1, pid) \<mapsto> t')\<rparr>)))
         else (consumed, c1))"

definition go_consume :: "int \<Rightarrow> to_client \<Rightarrow> go_client \<Rightarrow> go_client" where
  "go_consume now m c =
     (case m of
        Registered n ids \<Rightarrow> go_process_registered n ids c
      | ResultWrapper w \<Rightarrow> snd (go_process_result now w c)
      | EngineIdsUpdate ids \<Rightarrow> c\<lparr>go_engine_ids := remdups ids\<rparr>
      | ToClientUnset \<Rightarrow> c)"

text \<open>
  The control stream belongs to the context of the client, not to that of the session: ending the session
  does not interrupt a pending receive, and is noticed before the next one.
\<close>

definition go_receive :: "int \<Rightarrow> to_client \<Rightarrow> go_client \<Rightarrow> go_client" where
  "go_receive now m c =
     (if \<not> go_consuming c then c
      else (let c1 = go_consume now m c in c1\<lparr>go_consuming := \<not> go_ctx_done c1\<rparr>))"

definition go_disconnected :: "go_client \<Rightarrow> go_client" where
  "go_disconnected c =
     c\<lparr>go_session_errors := go_session_errors c @ [ErrDisconnected], go_session_cancelled := True\<rparr>"

text \<open>A receive that fails; when the client's context is cancelled this is not an error.\<close>

definition go_receive_failed :: "go_client \<Rightarrow> go_client" where
  "go_receive_failed c =
     (if \<not> go_consuming c then c
      else if go_cancelled c then c\<lparr>go_consuming := False\<rparr>
      else (go_disconnected c)\<lparr>go_consuming := False\<rparr>)"

section \<open>The registration goroutine\<close>

text \<open>
  The first attempt, then one at every tick until the server has answered or the session has ended; a
  goroutine that finds both a tick and a cancelled context takes the cancellation.
\<close>

definition go_registration_turn :: "py_exn option \<Rightarrow> go_client \<Rightarrow> go_client \<times> from_client list" where
  "go_registration_turn send c =
     (let attempt = (case send of
            None \<Rightarrow> (c\<lparr>go_registration := GoRegistrationWait\<rparr>, [Registration (gcf_client_info (go_configuration c))])
          | Some _ \<Rightarrow> ((go_disconnected c)\<lparr>go_registration := GoRegistrationDone\<rparr>, []))
      in case go_registration c of
           GoRegistrationSend \<Rightarrow> attempt
         | GoRegistrationWait \<Rightarrow>
             (if go_ctx_done c \<or> go_connected c then (c\<lparr>go_registration := GoRegistrationDone\<rparr>, []) else attempt)
         | GoRegistrationDone \<Rightarrow> (c, []))"

section \<open>The producer goroutines\<close>

definition go_set_handler :: "producer_id \<Rightarrow> go_handler \<Rightarrow> go_client \<Rightarrow> go_client" where
  "go_set_handler pid h c = c\<lparr>go_handlers := (go_handlers c)(pid \<mapsto> h)\<rparr>"

definition go_set_phase :: "producer_id \<Rightarrow> go_handler \<Rightarrow> go_phase \<Rightarrow> go_client \<Rightarrow> go_client" where
  "go_set_phase pid h ph c = go_set_handler pid (h\<lparr>goh_phase := ph\<rparr>) c"

text \<open>Nothing to send: return the token to the goroutine's own pool and start over.\<close>

definition go_retry :: "producer_id \<Rightarrow> go_handler \<Rightarrow> go_client \<Rightarrow> go_client" where
  "go_retry pid h c =
     (case goh_pool h of
        None \<Rightarrow> c\<lparr>go_panicked := True\<rparr>
      | Some g \<Rightarrow>
          (case go_pools c (g, pid) of
             None \<Rightarrow> c\<lparr>go_panicked := True\<rparr>
           | Some t \<Rightarrow>
               (case go_return_token t of
                  None \<Rightarrow> c\<lparr>go_panicked := True\<rparr>
                | Some t' \<Rightarrow> go_set_phase pid h GoTop (c\<lparr>go_pools := (go_pools c)((g, pid) \<mapsto> t')\<rparr>))))"

fun first_missing :: "engine_id list \<Rightarrow> engine_id list \<Rightarrow> engine_id option" where
  "first_missing available [] = None"
| "first_missing available (e # es) = (if e \<notin> set available then Some e else first_missing available es)"

definition go_emit ::
  "py_exn option \<Rightarrow> producer_id \<Rightarrow> go_producer \<Rightarrow> go_handler \<Rightarrow> input_frame \<Rightarrow> go_client \<Rightarrow>
     go_client \<times> from_client list" where
  "go_emit send pid ip h frame c =
     (let fid = goh_frame_id h; h1 = h\<lparr>goh_frame_id := fid + 1\<rparr>; targets = gop_target_engine_ids ip
      in case first_missing (go_engine_ids c) targets of
           Some e \<Rightarrow>
             (go_set_phase pid h1 GoHandlerDone
                (c\<lparr>go_session_errors := go_session_errors c @ [ErrEngineNotConnected e], go_cancelled := True\<rparr>), [])
         | None \<Rightarrow>
             (case send of
                Some _ \<Rightarrow> (go_set_phase pid h1 GoHandlerDone (go_disconnected c), [])
              | None \<Rightarrow>
                  (go_set_phase pid h1 (GoRecordSend fid) c,
                   [Input \<lparr>in_frame_id = fid, in_producer_id = pid, in_target_engine_ids = targets,
                           in_input_frame = frame\<rparr>])))"

text \<open>
  A turn of \<open>producerHandler\<close>.  \<open>produced\<close> is the frame that the select takes from the producer's channel
  (\<open>None\<close> inside for a nil frame), if it takes one; \<open>send\<close> is the error of opening or writing the stream.
\<close>

definition go_producer_turn ::
  "producer_id \<Rightarrow> input_frame option option \<Rightarrow> py_exn option \<Rightarrow> int \<Rightarrow> go_client \<Rightarrow>
     go_client \<times> from_client list" where
  "go_producer_turn pid produced send now c =
     (case (go_handlers c pid, map_of (go_producers c) pid) of
        (Some h, Some ip) \<Rightarrow>
          (case goh_phase h of
             GoAwaitConnected \<Rightarrow>
               (if \<not> go_connected c then (c, [])
                else case send of
                  Some _ \<Rightarrow> (go_set_phase pid h GoHandlerDone (go_disconnected c), [])
                | None \<Rightarrow>
                    (go_set_handler pid
                       (h\<lparr>goh_phase := GoTop, goh_frame_id := 1,
                          goh_pool := (if go_table c pid = None then None else Some (go_registrations c))\<rparr>) c, []))
           | GoTop \<Rightarrow>
               (go_set_phase pid h
                  (if go_ctx_done c then GoHandlerDone
                   else if \<not> gop_running ip then GoAwaitRunning else GoAwaitToken) c, [])
           | GoAwaitRunning \<Rightarrow>
               (if gop_running ip then (go_set_phase pid h GoAwaitToken c, []) else (c, []))
           | GoAwaitToken \<Rightarrow>
               (case goh_pool h of
                  None \<Rightarrow> (c\<lparr>go_panicked := True\<rparr>, [])
                | Some g \<Rightarrow>
                    (if go_ctx_done c then (go_set_phase pid h GoHandlerDone c, [])
                     else case go_pools c (g, pid) of
                       None \<Rightarrow> (c\<lparr>go_panicked := True\<rparr>, [])
                     | Some t \<Rightarrow>
                         (case go_get_token t of
                            None \<Rightarrow> (c, [])
                          | Some t' \<Rightarrow>
                              (go_set_phase pid h GoAwaitFrame (c\<lparr>go_pools := (go_pools c)((g, pid) \<mapsto> t')\<rparr>), []))))
           | GoAwaitFrame \<Rightarrow>
               (case produced of
                  None \<Rightarrow> (if go_ctx_done c then (go_set_phase pid h GoHandlerDone c, []) else (c, []))
                | Some None \<Rightarrow> (go_retry pid h c, [])
                | Some (Some frame) \<Rightarrow>
                    (if empty_frame frame then (go_retry pid h c, []) else go_emit send pid ip h frame c))
           | GoRecordSend fid \<Rightarrow> (go_set_phase pid h GoTop (go_record_send now pid fid c), [])
           | GoHandlerDone \<Rightarrow> (c, []))
      | _ \<Rightarrow> (c, []))"

section \<open>A session\<close>

definition idle_go_handler :: go_handler where
  "idle_go_handler = \<lparr>goh_phase = GoAwaitConnected, goh_pool = None, goh_frame_id = 1\<rparr>"

text \<open>\<open>connect\<close> with a fresh session id and the start of \<open>runSession\<close>.\<close>

definition go_run_session :: "string \<Rightarrow> go_client \<Rightarrow> go_client" where
  "go_run_session sid c =
     c\<lparr>go_session_id := sid, go_connected := False, go_engine_ids := [], go_session_errors := [],
       go_session_cancelled := False, go_handlers := map_of (map (\<lambda>(p, _). (p, idle_go_handler)) (go_producers c)),
       go_consuming := \<not> go_cancelled c, go_registration := GoRegistrationSend\<rparr>"

definition go_step :: "go_client \<Rightarrow> client_event \<Rightarrow> go_client \<times> from_client list" where
  "go_step c ev =
     (if go_panicked c then (c, [])
      else case ev of
        FromServer now m \<Rightarrow> (go_receive now m c, [])
      | EmptyBytes \<Rightarrow> (go_receive 0 ToClientUnset c, [])
      | UndecodableBytes \<Rightarrow> (go_receive_failed c, [])
      | ConnectionLost _ \<Rightarrow> (go_receive_failed c, [])
      | ProducerTurn pid produced send now \<Rightarrow>
          (case produced of
             Some (Inl _) \<Rightarrow> (c, [])
           | Some (Inr f) \<Rightarrow> go_producer_turn pid (Some f) send now c
           | None \<Rightarrow> go_producer_turn pid None send now c)
      | RegistrationTurn send \<Rightarrow> go_registration_turn send c
      | ProducerChange pid op \<Rightarrow>
          (c\<lparr>go_producers := map (\<lambda>(p, ip). (p, if p = pid then go_producer_op op ip else ip)) (go_producers c)\<rparr>, [])
      | StopClient \<Rightarrow> (c\<lparr>go_cancelled := True\<rparr>, [])
      | _ \<Rightarrow> (c, []))"

definition go_run :: "client_event list \<Rightarrow> go_client \<Rightarrow> go_client" where
  "go_run evs c = foldl (\<lambda>c ev. fst (go_step c ev)) c evs"

text \<open>The session is over when every goroutine has returned: only then does \<open>wg.Wait\<close> let go.\<close>

definition go_session_over :: "go_client \<Rightarrow> bool" where
  "go_session_over c \<longleftrightarrow>
     \<not> go_consuming c \<and> go_registration c = GoRegistrationDone \<and>
     list_all (\<lambda>(p, _). case go_handlers c p of None \<Rightarrow> True | Some h \<Rightarrow> goh_phase h = GoHandlerDone) (go_producers c)"

text \<open>What \<open>runSession\<close> returns, and what the loop of \<open>Launch\<close> makes of it.\<close>

definition go_session_result :: "go_client \<Rightarrow> go_error option \<times> bool" where
  "go_session_result c =
     (let fatal = filter (\<lambda>e. e \<noteq> ErrDisconnected) (go_session_errors c)
      in (if fatal = [] then None else Some (last fatal), ErrDisconnected \<in> set (go_session_errors c)))"

datatype go_verdict = GoFails go_error | GoStops | GoReconnects

definition go_launch_verdict :: "go_client \<Rightarrow> go_verdict option" where
  "go_launch_verdict c =
     (if \<not> go_session_over c then None
      else case go_session_result c of
        (Some e, _) \<Rightarrow> Some (GoFails e)
      | (None, disconnected) \<Rightarrow> Some (if go_cancelled c \<or> \<not> disconnected then GoStops else GoReconnects))"

text \<open>
  \<open>reconnect\<close>: at every interval it is either cancelled or makes an attempt; \<open>None\<close> says that it still
  tries.
\<close>

fun go_reconnect :: "(bool \<times> bool) list \<Rightarrow> bool option" where
  "go_reconnect [] = None"
| "go_reconnect ((cancelled, connects) # rest) =
     (if cancelled then Some False else if connects then Some True else go_reconnect rest)"

lemma go_reconnect_succeeds:
  "go_reconnect xs = Some True \<longleftrightarrow>
     (\<exists>ys zs. xs = ys @ (False, True) # zs \<and> list_all (\<lambda>x. x = (False, False)) ys)"
proof
  assume "go_reconnect xs = Some True"
  then show "\<exists>ys zs. xs = ys @ (False, True) # zs \<and> list_all (\<lambda>x. x = (False, False)) ys"
  proof (induction xs rule: go_reconnect.induct)
    case (2 cancelled connects rest)
    show ?case
    proof (cases connects)
      case True
      then show ?thesis using 2 by (intro exI [of _ "[]"] exI [of _ rest]) (auto split: if_splits)
    next
      case False
      then obtain ys zs where "rest = ys @ (False, True) # zs" "list_all (\<lambda>x. x = (False, False)) ys"
        using 2 by (auto split: if_splits)
      then show ?thesis using 2 False by (intro exI [of _ "(False, False) # ys"] exI [of _ zs]) (auto split: if_splits)
    qed
  qed simp
next
  assume "\<exists>ys zs. xs = ys @ (False, True) # zs \<and> list_all (\<lambda>x. x = (False, False)) ys"
  then obtain ys zs where xs: "xs = ys @ (False, True) # zs" and ys: "list_all (\<lambda>x. x = (False, False)) ys" by blast
  from ys show "go_reconnect xs = Some True" unfolding xs by (induction ys) auto
qed

section \<open>The books of a Go client\<close>

text \<open>The pool as the shared flow contract sees it; returning a token to it agrees with the Go code.\<close>

definition go_pool_view :: "go_token_pool \<Rightarrow> token_pool" where
  "go_pool_view t = \<lparr>tp_max_tokens = sem_size t, tp_value = sem_size t - sem_cur t, tp_bounded = True\<rparr>"

lemma go_return_refines:
  "go_return_token t = None \<longleftrightarrow> (\<exists>e. return_token (go_pool_view t) = Inl e)"
  "go_return_token t = Some t' \<Longrightarrow> return_token (go_pool_view t) = Inr (go_pool_view t')"
  by (auto simp: go_return_token_def return_token_def go_pool_view_def split: if_splits)

lemma go_get_refines: "map_option go_pool_view (go_get_token t) = get_token (go_pool_view t)"
  by (auto simp: go_get_token_def get_token_def go_pool_view_def)

definition go_pool_ok :: "int \<Rightarrow> go_token_pool \<Rightarrow> bool" where
  "go_pool_ok N t \<longleftrightarrow> sem_size t = N \<and> gtp_max_tokens t = N \<and> 0 \<le> sem_cur t \<and> sem_cur t \<le> N \<and>
     gtp_remaining t = sem_size t - sem_cur t"

lemma go_pool_ok_steps:
  "0 \<le> N \<Longrightarrow> go_pool_ok N (go_new_token_pool N)"
  "go_pool_ok N t \<Longrightarrow> go_get_token t = Some t' \<Longrightarrow> go_pool_ok N t' \<and> sem_size t' - sem_cur t' = sem_size t - sem_cur t - 1"
  "go_pool_ok N t \<Longrightarrow> go_return_token t = Some t' \<Longrightarrow> go_pool_ok N t' \<and> sem_size t' - sem_cur t' = sem_size t - sem_cur t + 1"
  "go_pool_ok N t \<Longrightarrow> go_pool_ok N (go_reset_tokens t)"
  by (auto simp: go_pool_ok_def go_new_token_pool_def go_get_token_def go_return_token_def go_reset_tokens_def
      split: if_splits)

text \<open>What a goroutine can still send: the rest of its own pool, and the token it holds.\<close>

definition go_purse :: "int \<Rightarrow> (nat \<times> producer_id \<rightharpoonup> go_token_pool) \<Rightarrow> producer_id \<Rightarrow> go_handler \<Rightarrow> int" where
  "go_purse N pools pid h =
     (case goh_pool h of
        None \<Rightarrow> N
      | Some g \<Rightarrow> (case pools (g, pid) of None \<Rightarrow> N | Some t \<Rightarrow> sem_size t - sem_cur t)) +
     (if goh_phase h = GoAwaitFrame then 1 else 0)"

definition go_spendable :: "int \<Rightarrow> go_client \<Rightarrow> producer_id \<Rightarrow> int" where
  "go_spendable N c p = (case go_handlers c p of None \<Rightarrow> N | Some h \<Rightarrow> go_purse N (go_pools c) p h)"

definition go_inv :: "int \<Rightarrow> go_client \<Rightarrow> bool" where
  "go_inv N c \<longleftrightarrow>
     0 \<le> N \<and> (\<forall>k t. go_pools c k = Some t \<longrightarrow> go_pool_ok N t) \<and>
     (\<forall>p h g. go_handlers c p = Some h \<longrightarrow> goh_pool h = Some g \<longrightarrow>
        goh_phase h \<noteq> GoAwaitConnected \<and> g \<le> go_registrations c \<and> go_pools c (g, p) \<noteq> None)"

lemma go_invD:
  assumes "go_inv N c"
  shows "0 \<le> N" and "go_pools c k = Some t \<Longrightarrow> go_pool_ok N t"
    and "go_handlers c p = Some h \<Longrightarrow> goh_pool h = Some g \<Longrightarrow>
      goh_phase h \<noteq> GoAwaitConnected \<and> g \<le> go_registrations c \<and> (\<exists>t. go_pools c (g, p) = Some t)"
  using assms unfolding go_inv_def by blast+

definition go_keeps :: "int \<Rightarrow> go_client \<Rightarrow> go_client \<times> from_client list \<Rightarrow> bool" where
  "go_keeps N c r \<longleftrightarrow>
     go_inv N (fst r) \<and> (\<forall>p. go_spendable N (fst r) p + int (inputs_of p (snd r)) \<le> go_spendable N c p)"

text \<open>Steps that touch neither pools nor goroutines.\<close>

lemma go_same_books:
  assumes "go_inv N c" and "go_pools c' = go_pools c" "go_handlers c' = go_handlers c"
    "go_registrations c' = go_registrations c" and "\<And>p. inputs_of p ms = 0"
  shows "go_keeps N c (c', ms)"
  using assms by (simp add: go_keeps_def go_inv_def go_spendable_def split: option.split)

text \<open>A turn of one goroutine that leaves the pools alone.\<close>

lemma go_handler_turn:
  assumes inv: "go_inv N c" and h: "go_handlers c pid = Some h"
    and c': "go_handlers c' = (go_handlers c)(pid \<mapsto> h')" "go_pools c' = go_pools c"
      "go_registrations c' = go_registrations c"
    and ph: "goh_phase h' \<noteq> GoAwaitConnected"
    and own: "\<And>g. goh_pool h' = Some g \<Longrightarrow> g \<le> go_registrations c \<and> go_pools c (g, pid) \<noteq> None"
    and pay: "go_purse N (go_pools c) pid h' + int (inputs_of pid ms) \<le> go_purse N (go_pools c) pid h"
    and others: "\<And>p. p \<noteq> pid \<Longrightarrow> inputs_of p ms = 0"
  shows "go_keeps N c (c', ms)"
  using assms by (auto simp: go_keeps_def go_inv_def go_spendable_def split: option.split)

text \<open>A turn that also replaces the goroutine's own pool.\<close>

lemma go_pool_turn:
  assumes inv: "go_inv N c" and h: "go_handlers c pid = Some h" "goh_pool h = Some g" "go_pools c (g, pid) = Some t"
    and c': "go_handlers c' = (go_handlers c)(pid \<mapsto> h')" "go_pools c' = (go_pools c)((g, pid) \<mapsto> t')"
      "go_registrations c' = go_registrations c" "goh_pool h' = Some g" "goh_phase h' \<noteq> GoAwaitConnected"
    and ok: "go_pool_ok N t'"
    and pay: "sem_size t' - sem_cur t' + (if goh_phase h' = GoAwaitFrame then 1 else 0) \<le>
      sem_size t - sem_cur t + (if goh_phase h = GoAwaitFrame then 1 else 0)"
  shows "go_keeps N c (c', [])"
proof -
  have "go_spendable N c' p \<le> go_spendable N c p" for p
    using assms by (cases "p = pid") (auto simp: go_spendable_def go_purse_def split: option.split)
  moreover have "go_inv N c'" using assms unfolding go_inv_def by auto
  ultimately show ?thesis by (simp add: go_keeps_def inputs_of_def)
qed

lemma go_keeps_refl: "go_inv N c \<Longrightarrow> go_keeps N c (c, [])"
  by (simp add: go_same_books inputs_of_def)

lemma go_panic_keeps: "go_inv N c \<Longrightarrow> go_keeps N c (c\<lparr>go_panicked := b\<rparr>, [])"
  by (rule go_same_books) (simp_all add: inputs_of_def)

lemma go_phase_keeps:
  assumes "go_inv N c" and "go_handlers c pid = Some h" and "ph \<noteq> GoAwaitFrame" "ph \<noteq> GoAwaitConnected"
    and "go_handlers d = go_handlers c" "go_pools d = go_pools c" "go_registrations d = go_registrations c"
    and "goh_pool h' = goh_pool h"
  shows "go_keeps N c (go_set_phase pid h' ph d, [])"
  by (rule go_handler_turn [OF assms(1,2), where h' = "h'\<lparr>goh_phase := ph\<rparr>"])
    (use assms go_invD(3) [OF assms(1,2)] in
      \<open>auto simp: go_set_phase_def go_set_handler_def go_purse_def inputs_of_def\<close>)

lemma go_retry_keeps:
  assumes "go_inv N c" and "go_handlers c pid = Some h" and "goh_phase h = GoAwaitFrame"
  shows "go_keeps N c (go_retry pid h c, [])"
proof (cases "goh_pool h")
  case (Some g)
  then obtain t where t: "go_pools c (g, pid) = Some t" using go_invD(3) [OF assms(1,2)] by blast
  show ?thesis
  proof (cases "go_return_token t")
    case (Some t')
    note ok = go_pool_ok_steps(3) [OF go_invD(2) [OF assms(1) t] Some]
    show ?thesis using assms Some t \<open>goh_pool h = Some g\<close> ok
      by (intro go_pool_turn [where h = h and g = g and t = t and t' = t' and h' = "h\<lparr>goh_phase := GoTop\<rparr>"])
        (simp_all add: go_retry_def go_set_phase_def go_set_handler_def)
  qed (use assms t \<open>goh_pool h = Some g\<close> in \<open>simp add: go_retry_def go_panic_keeps\<close>)
qed (use assms in \<open>simp add: go_retry_def go_panic_keeps\<close>)

lemma go_emit_keeps:
  assumes inv: "go_inv N c" and h: "go_handlers c pid = Some h" "goh_phase h = GoAwaitFrame"
  shows "go_keeps N c (go_emit send pid ip h frame c)"
proof -
  let ?h = "\<lambda>ph. h\<lparr>goh_frame_id := goh_frame_id h + 1, goh_phase := ph\<rparr>"
  have sent: "go_keeps N c (go_set_phase pid (h\<lparr>goh_frame_id := goh_frame_id h + 1\<rparr>) (GoRecordSend (goh_frame_id h)) c, [Input i])"
    if "in_producer_id i = pid" for i
    by (rule go_handler_turn [OF inv h(1), where h' = "?h (GoRecordSend (goh_frame_id h))"])
      (use that h go_invD(3) [OF inv h(1)] in
        \<open>auto simp: go_set_phase_def go_set_handler_def go_purse_def inputs_of_def\<close>)
  show ?thesis
    using sent
    by (auto simp: go_emit_def Let_def go_disconnected_def split: option.split intro!: go_phase_keeps [OF inv h(1)])
qed

lemma go_connected_turn:
  assumes inv: "go_inv N c" and h: "go_handlers c pid = Some h" "goh_phase h = GoAwaitConnected"
    and h': "h' = h\<lparr>goh_phase := GoTop, goh_frame_id := 1,
      goh_pool := (if go_table c pid = None then None else Some (go_registrations c))\<rparr>"
  shows "go_keeps N c (go_set_handler pid h' c, [])"
proof (rule go_handler_turn [OF inv h(1)])
  have p: "goh_pool h = None" using go_invD(3) [OF inv h(1)] h(2) by (cases "goh_pool h") auto
  have "sem_size t - sem_cur t \<le> N" if "go_table c pid = Some t" for t
    using go_invD(2) [OF inv] that by (fastforce simp: go_table_def go_pool_ok_def)
  then show "go_purse N (go_pools c) pid h' + int (inputs_of pid []) \<le> go_purse N (go_pools c) pid h"
    using p h(2) by (simp add: h' go_purse_def go_table_def inputs_of_def split: option.split)
qed (auto simp: go_set_handler_def go_table_def inputs_of_def h' split: if_splits)

lemma go_token_turn:
  assumes inv: "go_inv N c" and h: "go_handlers c pid = Some h" "goh_phase h = GoAwaitToken"
    "goh_pool h = Some g" "go_pools c (g, pid) = Some t" "go_get_token t = Some t'"
  shows "go_keeps N c (go_set_phase pid h GoAwaitFrame (c\<lparr>go_pools := (go_pools c)((g, pid) \<mapsto> t')\<rparr>), [])"
  using go_pool_ok_steps(2) [OF go_invD(2) [OF inv h(4)] h(5)] inv h
  by (intro go_pool_turn [where h = h and g = g and t = t and t' = t' and h' = "h\<lparr>goh_phase := GoAwaitFrame\<rparr>"])
    (simp_all add: go_set_phase_def go_set_handler_def)

lemma go_producer_turn_keeps:
  assumes inv: "go_inv N c"
  shows "go_keeps N c (go_producer_turn pid produced send now c)"
proof (cases "go_handlers c pid")
  case None
  then show ?thesis using go_keeps_refl [OF inv] by (simp add: go_producer_turn_def)
next
  case h: (Some h)
  show ?thesis
  proof (cases "map_of (go_producers c) pid")
    case None
    then show ?thesis using go_keeps_refl [OF inv] h by (simp add: go_producer_turn_def)
  next
    case ip: (Some ip)
    note set = go_phase_keeps [OF inv h] and refl = go_keeps_refl [OF inv] and panic = go_panic_keeps [OF inv]
    note turn = go_producer_turn_def h ip prod.case option.case
    show ?thesis
    proof (cases "goh_phase h")
      case GoAwaitConnected
      show ?thesis
        unfolding turn GoAwaitConnected go_phase.case go_disconnected_def
        using refl go_connected_turn [OF inv h GoAwaitConnected HOL.refl] by (auto split: option.split intro: set)
    next
      case GoAwaitToken
      show ?thesis
        unfolding turn GoAwaitToken go_phase.case
        using refl panic go_token_turn [OF inv h GoAwaitToken] by (auto split: option.split intro!: set)
    next
      case GoAwaitFrame
      show ?thesis
        unfolding turn GoAwaitFrame go_phase.case
        using refl go_retry_keeps [OF inv h GoAwaitFrame] go_emit_keeps [OF inv h GoAwaitFrame]
        by (auto split: option.split intro!: set)
    next
      case GoTop
      show ?thesis unfolding turn GoTop go_phase.case by (rule set) simp_all
    next
      case GoAwaitRunning
      have "go_keeps N c (go_set_phase pid h GoAwaitToken c, [])" by (rule set) simp_all
      then show ?thesis unfolding turn GoAwaitRunning go_phase.case using refl by simp
    next
      case (GoRecordSend fid)
      show ?thesis unfolding turn GoRecordSend go_phase.case by (rule set) (simp_all add: go_record_send_def)
    next
      case GoHandlerDone
      show ?thesis unfolding turn GoHandlerDone go_phase.case by (rule refl)
    qed
  qed
qed

text \<open>Messages from the server: only a returned token adds to what can be spent, and at most one.\<close>

lemma go_registered_books:
  assumes inv: "go_inv N c"
  shows "go_inv N (go_process_registered N ids c)"
    and "go_spendable N (go_process_registered N ids c) p = go_spendable N c p"
proof -
  let ?c = "go_process_registered N ids c"
  have old: "go_pools ?c (g, q) = go_pools c (g, q)" if "g \<le> go_registrations c" for g q
    using that by (simp add: go_process_registered_def Let_def)
  have rest: "go_handlers ?c = go_handlers c" "go_registrations ?c = go_registrations c + 1"
    by (simp_all add: go_process_registered_def Let_def)
  have pool: "go_pool_ok N t" if "go_pools ?c (j, q) = Some t" for j q t
    using that go_invD(2) [OF inv] go_pool_ok_steps(1) [OF go_invD(1) [OF inv]]
    by (auto simp: go_process_registered_def Let_def split: if_splits)
  show "go_inv N ?c"
    unfolding go_inv_def using go_invD(1) [OF inv] go_invD(3) [OF inv] pool old rest by fastforce
  show "go_spendable N ?c p = go_spendable N c p"
    using go_invD(3) [OF inv, of p] old rest by (auto simp: go_spendable_def go_purse_def split: option.split)
qed

lemma go_put_pool:
  assumes inv: "go_inv N c" and t: "go_pools c (g, pid) = Some t" and t': "go_return_token t = Some t'"
    and d: "go_pools d = (go_pools c)((g, pid) \<mapsto> t')" "go_handlers d = go_handlers c"
      "go_registrations d = go_registrations c"
  shows "go_inv N d" and "go_spendable N d q \<le> go_spendable N c q + (if q = pid then 1 else 0)"
proof -
  note ok = go_pool_ok_steps(3) [OF go_invD(2) [OF inv t] t']
  have "go_pool_ok N u" if "go_pools d k = Some u" for k u
    using that ok go_invD(2) [OF inv, of k u] d(1) by (auto split: if_splits)
  moreover have "\<exists>u. go_pools d k = Some u" if "go_pools c k = Some v" for k v
    using that d(1) by auto
  ultimately show "go_inv N d"
    unfolding go_inv_def d(2,3) using go_invD(1) [OF inv] go_invD(3) [OF inv] by blast
  have "go_purse N (go_pools d) q h \<le> go_purse N (go_pools c) q h + (if q = pid then 1 else 0)" for h
    using t ok d(1) by (auto simp: go_purse_def split: option.split)
  then show "go_spendable N d q \<le> go_spendable N c q + (if q = pid then 1 else 0)"
    unfolding go_spendable_def d(2) by (cases "go_handlers c q") auto
qed

lemma go_same_pools:
  assumes "go_inv N c" and "go_pools d = go_pools c" "go_handlers d = go_handlers c"
    "go_registrations d = go_registrations c"
  shows "go_inv N d" and "go_spendable N d q = go_spendable N c q"
  using assms by (simp_all add: go_inv_def go_spendable_def split: option.split)

lemma go_result_books:
  assumes inv: "go_inv N c"
  shows "go_inv N (snd (go_process_result now w c))"
    and "go_spendable N (snd (go_process_result now w c)) p \<le>
      go_spendable N c p + (if gives_token p (ResultWrapper w) then 1 else 0)"
proof -
  let ?p = "rw_producer_id w"
  obtain x c1 where c1: "go_record_response now ?p (res_frame_id (rw_result w)) c = (x, c1)"
    by (metis prod.exhaust)
  have eq: "go_pools c1 = go_pools c" "go_handlers c1 = go_handlers c" "go_registrations c1 = go_registrations c"
    using c1 by (auto simp: go_record_response_def split: option.splits)
  let ?d = "snd (go_process_result now w c)"
  note result = c1 eq go_process_result_def Let_def go_table_def
  have "go_inv N ?d \<and> go_spendable N ?d p \<le> go_spendable N c p + (if gives_token p (ResultWrapper w) then 1 else 0)"
  proof (cases "\<exists>t t'. rw_return_token w \<and> go_pools c (go_registrations c, ?p) = Some t \<and> go_return_token t = Some t'")
    case True
    then obtain t t' where t: "rw_return_token w" "go_pools c (go_registrations c, ?p) = Some t" "go_return_token t = Some t'"
      by blast
    then have "go_pools ?d = (go_pools c)((go_registrations c, ?p) \<mapsto> t')" "go_handlers ?d = go_handlers c"
      "go_registrations ?d = go_registrations c"
      by (simp_all add: result)
    from go_put_pool(1) [OF inv t(2,3) this] go_put_pool(2) [OF inv t(2,3) this, of p] t(1)
    show ?thesis by (auto split: if_splits)
  next
    case False
    then have "go_pools ?d = go_pools c" "go_handlers ?d = go_handlers c" "go_registrations ?d = go_registrations c"
      by (auto simp: result split: option.split)
    from go_same_pools(1) [OF inv this] go_same_pools(2) [OF inv this, of p] show ?thesis by simp
  qed
  then show "go_inv N ?d" and "go_spendable N ?d p \<le> go_spendable N c p + (if gives_token p (ResultWrapper w) then 1 else 0)"
    by blast+
qed

lemma go_consume_books:
  assumes inv: "go_inv N c" and n: "announces N (FromServer now m)"
  shows "go_inv N (go_consume now m c) \<and>
    go_spendable N (go_consume now m c) p \<le> go_spendable N c p + (if gives_token p m then 1 else 0)"
proof (cases m)
  case (Registered k ids)
  then show ?thesis using n go_registered_books(1) [OF inv, of ids] go_registered_books(2) [OF inv, of ids p] by (simp add: go_consume_def announces_def)
next
  case (ResultWrapper w)
  then show ?thesis using go_result_books(1) [OF inv, of now w] go_result_books(2) [OF inv, of now w p] by (simp add: go_consume_def del: gives_token.simps)
next
  case (EngineIdsUpdate ids)
  then show ?thesis using go_same_pools(1) [OF inv, of "c\<lparr>go_engine_ids := remdups ids\<rparr>"]
    go_same_pools(2) [OF inv, of "c\<lparr>go_engine_ids := remdups ids\<rparr>" p] by (simp add: go_consume_def)
next
  case ToClientUnset
  then show ?thesis using inv by (simp add: go_consume_def)
qed

lemma go_receive_books:
  assumes inv: "go_inv N c" and n: "announces N (FromServer now m)"
  shows "go_inv N (go_receive now m c) \<and>
    go_spendable N (go_receive now m c) p \<le> go_spendable N c p + (if gives_token p m then 1 else 0)"
proof -
  note C = go_consume_books [OF inv n, of p]
  let ?d = "(go_consume now m c)\<lparr>go_consuming := \<not> go_ctx_done (go_consume now m c)\<rparr>"
  have "go_inv N ?d" "go_spendable N ?d p = go_spendable N (go_consume now m c) p"
    using go_same_pools(1) [of N "go_consume now m c" ?d] go_same_pools(2) [of N "go_consume now m c" ?d p] C by simp_all
  then show ?thesis using C inv by (simp add: go_receive_def Let_def)
qed

lemma go_step_books:
  assumes inv: "go_inv N c" and al: "announces N ev"
  shows "go_inv N (fst (go_step c ev)) \<and>
    go_spendable N (fst (go_step c ev)) p + int (inputs_of p (snd (go_step c ev))) \<le>
      go_spendable N c p + (if event_gives p ev then 1 else 0)"
proof (cases "go_panicked c")
  case True
  then show ?thesis using inv by (simp add: go_step_def inputs_of_def)
next
  case False
  have keeps: ?thesis if "go_keeps N c (go_step c ev)"
    using that unfolding go_keeps_def by (auto dest: spec [of _ p])
  show ?thesis
  proof (cases ev)
    case (FromServer now m)
    then show ?thesis
      using False go_receive_books [OF inv al [unfolded FromServer], of p] by (simp add: go_step_def inputs_of_def event_gives_def)
  next
    case EmptyBytes
    then show ?thesis
      using False go_receive_books [OF inv, of 0 ToClientUnset p]
      by (simp add: go_step_def inputs_of_def event_gives_def announces_def)
  next
    case (ProducerTurn pid produced send now)
    then have "go_keeps N c (go_step c ev)"
      using False go_producer_turn_keeps [OF inv] go_keeps_refl [OF inv]
      by (simp add: go_step_def split: option.split sum.split)
    then show ?thesis by (rule keeps)
  next
    case (RegistrationTurn send)
    have "go_keeps N c (go_step c ev)"
      using False RegistrationTurn
      by (auto simp: go_step_def go_registration_turn_def go_disconnected_def Let_def inputs_of_def
          split: option.split go_registration_phase.split intro!: go_same_books [OF inv])
    then show ?thesis by (rule keeps)
  qed (rule keeps; use False in \<open>auto simp: go_step_def go_receive_failed_def go_disconnected_def inputs_of_def
      intro!: go_same_books [OF inv]\<close>)+
qed

text \<open>
  The pool that a returned token goes to, as long as the producer's goroutine still uses it.
\<close>

definition go_shared_pool :: "go_client \<Rightarrow> producer_id \<Rightarrow> go_token_pool option" where
  "go_shared_pool c p =
     (case go_handlers c p of
        Some h \<Rightarrow>
          (case goh_pool h of
             Some g \<Rightarrow> (if g = go_registrations c then go_table c p else None)
           | None \<Rightarrow> go_table c p)
      | None \<Rightarrow> go_table c p)"

lemma go_shared_pool_ok:
  assumes inv: "go_inv N c" and t: "go_shared_pool c p = Some t"
  shows "pool_ok N (go_pool_view t)" and "tp_value (go_pool_view t) \<le> go_spendable N c p"
proof -
  have tab: "go_pools c (go_registrations c, p) = Some t"
    using t by (auto simp: go_shared_pool_def go_table_def split: option.splits if_splits)
  then have ok: "go_pool_ok N t" using go_invD(2) [OF inv] by blast
  then show "pool_ok N (go_pool_view t)" by (simp add: pool_ok_def go_pool_view_def go_pool_ok_def)
  show "tp_value (go_pool_view t) \<le> go_spendable N c p"
    using t tab ok
    by (auto simp: go_shared_pool_def go_spendable_def go_purse_def go_pool_view_def go_pool_ok_def
        split: option.splits if_splits)
qed

interpretation go_flow: flow_client go_step go_spendable go_inv "\<lambda>c p. map_option go_pool_view (go_shared_pool c p)" announces
proof unfold_locales
  show "go_inv N (fst (go_step c ev))" if "go_inv N c" "announces N ev" for N c ev
    using go_step_books [OF that] by blast
  show "go_spendable N (fst (go_step c ev)) p + int (inputs_of p (snd (go_step c ev)))
      \<le> go_spendable N c p + (if event_gives p ev then 1 else 0)"
    if "go_inv N c" "announces N ev" for N c ev p
    using go_step_books [OF that] by blast
  show "pool_ok N t \<and> tp_value t \<le> go_spendable N c p"
    if "go_inv N c" "map_option go_pool_view (go_shared_pool c p) = Some t" for N c p t
    using that go_shared_pool_ok [OF that(1)] by auto
qed

section \<open>The end of a session\<close>

text \<open>
  With its context cancelled, a goroutine that has its pool and whose producer is running returns within
  two turns.  A goroutine whose producer is paused does not: it waits without looking at the context.
\<close>

definition go_idle_turn :: "producer_id \<Rightarrow> go_client \<Rightarrow> go_client" where
  "go_idle_turn pid c = fst (go_producer_turn pid None None 0 c)"

lemma go_goroutine_returns:
  assumes "go_handlers c pid = Some h" and "goh_pool h = Some g" and "goh_phase h \<noteq> GoAwaitConnected"
    and "map_of (go_producers c) pid = Some ip" and "gop_running ip" and "go_ctx_done c"
  shows "map_option goh_phase (go_handlers (go_idle_turn pid (go_idle_turn pid c)) pid) = Some GoHandlerDone"
  using assms
  by (cases "goh_phase h")
    (simp_all add: go_idle_turn_def go_producer_turn_def go_set_phase_def go_set_handler_def go_record_send_def go_ctx_done_def)

lemma go_paused_goroutine_stays:
  assumes "go_handlers c pid = Some h" and "goh_phase h = GoAwaitRunning"
    and "map_of (go_producers c) pid = Some ip" and "\<not> gop_running ip"
  shows "go_producer_turn pid produced send now c = (c, [])"
  using assms by (simp add: go_producer_turn_def)

text \<open>A goroutine that waits for the registration, in a session whose receiver has stopped.\<close>

definition go_awaits :: "producer_id \<Rightarrow> go_client \<Rightarrow> bool" where
  "go_awaits p c \<longleftrightarrow>
     map_option goh_phase (go_handlers c p) = Some GoAwaitConnected \<and> \<not> go_connected c \<and>
     p \<in> fst ` set (go_producers c)"

definition go_deaf :: "go_client \<Rightarrow> bool" where
  "go_deaf c \<longleftrightarrow> \<not> go_consuming c \<or> go_panicked c"

definition not_registered :: "client_event \<Rightarrow> bool" where
  "not_registered ev = (case ev of FromServer _ (Registered _ _) \<Rightarrow> False | _ \<Rightarrow> True)"

lemma go_awaits_not_over: "go_awaits p c \<Longrightarrow> go_launch_verdict c = None"
  by (auto simp: go_awaits_def go_launch_verdict_def go_session_over_def list_all_iff split: option.splits)

text \<open>What a turn of a goroutine leaves alone.\<close>

definition go_frame :: "producer_id \<Rightarrow> go_client \<Rightarrow> go_client \<Rightarrow> bool" where
  "go_frame pid c c' \<longleftrightarrow>
     go_connected c' = go_connected c \<and> go_producers c' = go_producers c \<and> go_consuming c' = go_consuming c \<and>
     (\<forall>q. q \<noteq> pid \<longrightarrow> go_handlers c' q = go_handlers c q)"

lemma go_frame_simps:
  "go_frame pid c c" "go_frame pid c (c\<lparr>go_panicked := b\<rparr>)" "go_frame pid c (go_set_handler pid h c)"
  "go_frame pid c (go_set_phase pid h ph c)" "go_frame pid c (go_set_phase pid h ph (go_disconnected c))"
  "go_frame pid c (go_set_phase pid h ph (go_record_send now pid fid c))"
  "go_frame pid c (go_set_phase pid h ph (c\<lparr>go_pools := pools\<rparr>))"
  "go_frame pid c (go_set_phase pid h ph (c\<lparr>go_session_errors := es, go_cancelled := b\<rparr>))"
  by (simp_all add: go_frame_def go_set_phase_def go_set_handler_def go_disconnected_def go_record_send_def)

lemma go_emit_frame: "go_frame pid c (fst (go_emit send pid ip h frame c))"
  by (simp add: go_emit_def Let_def go_frame_simps split: option.split)

lemma go_retry_frame: "go_frame pid c (go_retry pid h c)"
  by (simp add: go_retry_def go_frame_simps split: option.split)

lemma go_producer_turn_frame: "go_frame pid c (fst (go_producer_turn pid produced send now c))"
proof (cases "go_handlers c pid")
  case None
  then show ?thesis by (simp add: go_producer_turn_def go_frame_simps)
next
  case (Some h)
  then show ?thesis
    by (cases "map_of (go_producers c) pid"; cases "goh_phase h")
      (simp_all add: go_producer_turn_def go_frame_simps go_emit_frame go_retry_frame split: option.split)
qed

lemma go_waiting_turn:
  assumes "go_awaits p c"
  shows "go_awaits p (fst (go_producer_turn pid produced send now c))"
proof (cases "pid = p")
  case True
  obtain h where "go_handlers c p = Some h" "goh_phase h = GoAwaitConnected" "\<not> go_connected c"
    using assms by (auto simp: go_awaits_def)
  then have "fst (go_producer_turn pid produced send now c) = c"
    using True by (cases "map_of (go_producers c) p") (simp_all add: go_producer_turn_def)
  with assms show ?thesis by simp
next
  case False
  with assms go_producer_turn_frame [of pid c produced send now] show ?thesis
    by (simp add: go_awaits_def go_frame_def)
qed

lemma go_result_frame:
  "go_connected (snd (go_process_result now w c)) = go_connected c \<and>
   go_producers (snd (go_process_result now w c)) = go_producers c \<and>
   go_handlers (snd (go_process_result now w c)) = go_handlers c"
  by (simp add: go_process_result_def go_record_response_def Let_def split: option.split)

lemma go_waiting_message:
  assumes "go_awaits p c" and "not_registered (FromServer now m) \<or> go_deaf c" and "\<not> go_panicked c"
  shows "go_awaits p (go_receive now m c)"
  using assms go_result_frame [of now _ c]
  by (cases m) (simp_all add: go_receive_def go_consume_def go_deaf_def not_registered_def go_awaits_def Let_def)

lemma go_deaf_step:
  assumes "go_deaf c"
  shows "go_deaf (fst (go_step c ev))"
proof (cases "go_panicked c")
  case False
  have turn: "go_consuming (fst (go_producer_turn pid produced send now c)) = go_consuming c" for pid produced send now
    using go_producer_turn_frame [of pid c produced send now] by (simp add: go_frame_def)
  show ?thesis
    using assms False
    by (cases ev)
      (simp_all add: go_deaf_def go_step_def go_receive_def go_receive_failed_def go_registration_turn_def
        go_disconnected_def Let_def turn split: option.split sum.split go_registration_phase.split)
qed (simp add: go_step_def go_deaf_def)

lemma go_waiting_step:
  assumes w: "go_awaits p c" and ev: "not_registered ev \<or> go_deaf c"
  shows "go_awaits p (fst (go_step c ev))"
proof (cases "go_panicked c")
  case True
  then show ?thesis using w by (simp add: go_step_def)
next
  case False
  show ?thesis
  proof (cases ev)
    case (FromServer now m)
    then show ?thesis using False go_waiting_message [OF w, of now m] ev by (simp add: go_step_def)
  next
    case EmptyBytes
    then show ?thesis
      using False go_waiting_message [OF w, of 0 ToClientUnset] by (simp add: go_step_def not_registered_def)
  next
    case (ProducerTurn pid produced send now)
    then show ?thesis using False w go_waiting_turn [OF w] by (simp add: go_step_def split: option.split sum.split)
  next
    case (ProducerChange pid op)
    have "fst ` set (map (\<lambda>(q, ip). (q, if q = pid then go_producer_op op ip else ip)) xs) = fst ` set xs" for xs
      by (induction xs) auto
    then show ?thesis using False w ProducerChange by (simp add: go_step_def go_awaits_def)
  qed (use False w in \<open>simp_all add: go_step_def go_awaits_def go_receive_failed_def go_disconnected_def
      go_registration_turn_def Let_def split: option.split go_registration_phase.split\<close>)
qed

lemma go_run_simps: "go_run [] c = c" "go_run (ev # evs) c = go_run evs (fst (go_step c ev))"
  "go_run (evs @ evs') c = go_run evs' (go_run evs c)"
  by (simp_all add: go_run_def)

lemma go_waiting_run:
  assumes "go_awaits p c" and "list_all not_registered evs \<or> go_deaf c"
  shows "go_awaits p (go_run evs c)"
  using assms
proof (induction evs arbitrary: c)
  case (Cons ev evs)
  have "go_awaits p (fst (go_step c ev))" by (rule go_waiting_step) (use Cons.prems in auto)
  then show ?case using Cons.IH Cons.prems(2) go_deaf_step [of c ev] by (auto simp: go_run_simps)
qed (simp add: go_run_simps)

text \<open>
  C33. A Go client that loses the server before it is registered never comes back.  If the control stream
  fails in a session before a \<open>Registered\<close> message has arrived, the session is never over, whatever
  happens afterwards, and even if the application cancels the client's context: a producer goroutine
  waits on a condition that only \<open>Registered\<close> signals, so that \<open>Launch\<close> neither reconnects nor stops.
\<close>

theorem go_loss_before_registration_hangs:
  assumes "p \<in> fst ` set (go_producers c)" and "list_all not_registered evs"
  shows "go_launch_verdict (go_run (evs @ ConnectionLost now # evs') (go_run_session sid c)) = None"
proof -
  let ?c = "go_run evs (go_run_session sid c)" and ?d = "\<lambda>c. fst (go_step c (ConnectionLost now))"
  have "map_of (map (\<lambda>(p, _). (p, idle_go_handler)) xs) p = Some idle_go_handler"
    if "p \<in> fst ` set xs" for xs :: "(producer_id \<times> go_producer) list"
    using that by (induction xs) auto
  then have "go_awaits p (go_run_session sid c)"
    using assms(1) by (simp add: go_awaits_def go_run_session_def idle_go_handler_def)
  then have w: "go_awaits p ?c" by (rule go_waiting_run) (simp add: assms(2))
  then have "go_awaits p (?d ?c)" by (rule go_waiting_step) (simp add: not_registered_def)
  moreover have "go_deaf (?d ?c)"
    by (simp add: go_deaf_def go_step_def go_receive_failed_def)
  ultimately have "go_awaits p (go_run evs' (?d ?c))" by (blast intro: go_waiting_run)
  then show ?thesis by (simp add: go_run_simps go_awaits_not_over)
qed

definition demo_go_client :: go_client where
  "demo_go_client =
     projr (new_go_client ''host:9099'' [(''cam'', new_go_producer [''e1''])] True [])"

theorem go_loss_before_registration_hangs_witness:
  "go_launch_verdict (go_run ([RegistrationTurn None] @ ConnectionLost 5 #
      [ProducerTurn ''cam'' None None 6, RegistrationTurn None, StopClient, ProducerTurn ''cam'' None None 7])
      (go_run_session ''id'' demo_go_client)) = None"
  by (rule go_loss_before_registration_hangs [of "''cam''"])
    (simp_all add: not_registered_def demo_go_client_def new_go_client_def new_go_producer_def)

end
