(* ===== verification/End_To_End.thy ===== *)
theory End_To_End
  imports Flow_Server Server_Properties Grpc_Client Websocket_Client Zeromq_Client Go_Client
begin

text \<open>
  One client and the server over a network: the client's messages travel to the server, the server's
  messages to the client, and both sides act in any order, the server also on behalf of engines and
  of other clients.  The locale \<open>flow_client\<close> carries the proof, so that it holds for every transport.
\<close>

section \<open>The composed system\<close>

text \<open>
  Messages to the server may overtake each other (a gRPC client has one stream per producer); messages
  to the client arrive in order.
\<close>

record 'c system =
  sys_client :: 'c
  sys_up :: "from_client list"
  sys_down :: "to_client list"
  sys_server :: server

definition messages_to :: "address \<Rightarrow> effect list \<Rightarrow> to_client list" where
  "messages_to a es =
     concat (map (\<lambda>x. case x of SendClient b m \<Rightarrow> (if b = a then [m] else []) | _ \<Rightarrow> []) es)"

text \<open>
  A step of the client on its own, the delivery of the next message to the client, the server's
  handling of a message of this client, and any other event at the server.
\<close>

datatype system_event =
    ClientActs client_event
  | Delivered int
  | ServerHandles world nat
  | ServerActs world event

definition is_from_server :: "client_event \<Rightarrow> bool" where
  "is_from_server ev = (case ev of FromServer _ _ \<Rightarrow> True | _ \<Rightarrow> False)"

definition client_moves ::
  "('c \<Rightarrow> client_event \<Rightarrow> 'c \<times> from_client list) \<Rightarrow> 'c system \<Rightarrow> client_event \<Rightarrow> 'c system" where
  "client_moves step y ev =
     (let (c, ms) = step (sys_client y) ev in y\<lparr>sys_client := c, sys_up := sys_up y @ ms\<rparr>)"

definition server_moves :: "address \<Rightarrow> world \<Rightarrow> 'c system \<Rightarrow> event \<Rightarrow> 'c system" where
  "server_moves a W y ev =
     (let (_, s, es) = server_event W (sys_server y) ev
      in y\<lparr>sys_server := s, sys_down := sys_down y @ messages_to a es\<rparr>)"

definition system_step ::
  "('c \<Rightarrow> client_event \<Rightarrow> 'c \<times> from_client list) \<Rightarrow> address \<Rightarrow> 'c system \<Rightarrow> system_event \<Rightarrow> 'c system" where
  "system_step step a y ev =
     (case ev of
        ClientActs cev \<Rightarrow> client_moves step y cev
      | Delivered now \<Rightarrow>
          (case sys_down y of
             [] \<Rightarrow> y
           | m # rest \<Rightarrow> client_moves step (y\<lparr>sys_down := rest\<rparr>) (FromServer now m))
      | ServerHandles W i \<Rightarrow>
          (if i < length (sys_up y)
           then server_moves a W (y\<lparr>sys_up := take i (sys_up y) @ drop (Suc i) (sys_up y)\<rparr>)
                  (ClientMessage a (sys_up y ! i))
           else y)
      | ServerActs W sev \<Rightarrow> server_moves a W y sev)"

text \<open>
  The client acts within \<open>allowed\<close>; the server's sends keep the transport contract; other events at
  the server are possible there and do not concern this client's address.
\<close>

definition system_enabled ::
  "(int \<Rightarrow> client_event \<Rightarrow> bool) \<Rightarrow> int \<Rightarrow> address \<Rightarrow> 'c system \<Rightarrow> system_event \<Rightarrow> bool" where
  "system_enabled allowed N a y ev =
     (case ev of
        ClientActs cev \<Rightarrow> allowed N cev \<and> \<not> is_from_server cev
      | Delivered now \<Rightarrow> True
      | ServerHandles W i \<Rightarrow> transport (send_via_transport W)
      | ServerActs W sev \<Rightarrow>
          transport (send_via_transport W) \<and> enabled (sys_server y) sev \<and> \<not> concerns a sev)"

text \<open>A session: the client has just connected to a running server.\<close>

inductive session ::
  "('c \<Rightarrow> client_event \<Rightarrow> 'c \<times> from_client list) \<Rightarrow> (int \<Rightarrow> client_event \<Rightarrow> bool) \<Rightarrow>
     int \<Rightarrow> nat \<Rightarrow> address \<Rightarrow> 'c \<Rightarrow> 'c system \<Rightarrow> bool"
  for step allowed N n a c where
  connect: "reachable any_event N n s \<Longrightarrow> enabled s (ClientConnect a) \<Longrightarrow>
    session step allowed N n a c
      \<lparr>sys_client = c, sys_up = [], sys_down = [], sys_server = client_connect s a\<rparr>"
| move: "session step allowed N n a c y \<Longrightarrow> system_enabled allowed N a y ev \<Longrightarrow>
    session step allowed N n a c (system_step step a y ev)"

section \<open>Counting the tokens that are under way\<close>

definition gifts :: "producer_id \<Rightarrow> to_client list \<Rightarrow> nat" where
  "gifts p ms = length (filter (gives_token p) ms)"

lemma gifts_simps [simp]:
  "gifts p [] = 0" "gifts p (m # ms) = (if gives_token p m then 1 else 0) + gifts p ms"
  "gifts p (ms @ ms') = gifts p ms + gifts p ms'"
  by (simp_all add: gifts_def)

lemma messages_to_Cons: "messages_to a (x # es) = messages_to a [x] @ messages_to a es"
  by (simp add: messages_to_def)

lemma gifts_messages_to: "gifts p (messages_to a es) = token_returns a p es"
proof (induction es)
  case (Cons x es)
  have "gifts p (messages_to a [x]) = (if returns_token a p x then 1 else 0)"
    by (cases "(a, p, x)" rule: returns_token.cases) (auto simp: messages_to_def)
  with Cons show ?case by (simp add: messages_to_Cons [of a x es])
qed (simp add: messages_to_def)

lemma registered_messages_to:
  "list_all (registered_ok N) es \<Longrightarrow> Registered n ids \<in> set (messages_to a es) \<Longrightarrow> n = N"
  by (induction es) (auto simp: messages_to_def registered_ok_def split: effect.splits if_splits)

lemma is_input_of_input_from: "(if is_input_of p m then 1 else 0) = input_from m p"
  by (cases m) (simp_all add: input_from_def)

lemma inputs_of_remove:
  assumes "i < length ms"
  shows "inputs_of p ms = input_from (ms ! i) p + inputs_of p (take i ms @ drop (Suc i) ms)"
proof -
  have "inputs_of p ms = inputs_of p (take i ms @ ms ! i # drop (Suc i) ms)"
    using id_take_nth_drop [OF assms] by simp
  then show ?thesis by (simp add: is_input_of_input_from)
qed

section \<open>The invariant of a session\<close>

text \<open>
  What the client can still spend, what it has sent, and what is on its way back to it are together
  covered by the tokens the server has on record.
\<close>

definition covered ::
  "(int \<Rightarrow> 'c \<Rightarrow> producer_id \<Rightarrow> int) \<Rightarrow> (int \<Rightarrow> 'c \<Rightarrow> bool) \<Rightarrow> int \<Rightarrow> nat \<Rightarrow> address \<Rightarrow> 'c system \<Rightarrow> bool" where
  "covered funds ok N n a y \<longleftrightarrow>
     reachable any_event N n (sys_server y) \<and> ok N (sys_client y) \<and>
     (\<forall>k ids. Registered k ids \<in> set (sys_down y) \<longrightarrow> k = N) \<and>
     (\<exists>c. dict_get (srv_clients (sys_server y)) a = Some c \<and>
        (\<forall>p. funds N (sys_client y) p + int (inputs_of p (sys_up y)) + int (gifts p (sys_down y)) \<le>
           tokens_of N c p))"

lemma coveredD:
  assumes "covered funds ok N n a y"
  shows "reachable any_event N n (sys_server y)" and "ok N (sys_client y)"
    and "\<And>k ids. Registered k ids \<in> set (sys_down y) \<Longrightarrow> k = N"
    and "\<exists>c. dict_get (srv_clients (sys_server y)) a = Some c \<and>
        (\<forall>p. funds N (sys_client y) p + int (inputs_of p (sys_up y)) + int (gifts p (sys_down y)) \<le>
           tokens_of N c p)"
  using assms unfolding covered_def by blast+

lemma server_moves_covered:
  assumes N: "0 \<le> N" and y: "reachable any_event N n (sys_server y)" "ok N (sys_client y)"
      "\<And>k ids. Registered k ids \<in> set (sys_down y) \<Longrightarrow> k = N"
    and c: "dict_get (srv_clients (sys_server y)) a = Some c"
      "\<And>p. funds N (sys_client y) p + int (inputs_of p (sys_up y)) + int (gifts p (sys_down y)) + int (d p)
        \<le> tokens_of N c p"
    and en: "enabled (sys_server y) ev"
    and st: "\<And>e s es. server_event W (sys_server y) ev = (e, s, es) \<Longrightarrow> settles N a d (sys_server y) s es"
  shows "covered funds ok N n a (server_moves a W y ev)"
proof -
  obtain e s es where se: "server_event W (sys_server y) ev = (e, s, es)" by (metis prod_cases3)
  have y': "server_moves a W y ev = y\<lparr>sys_server := s, sys_down := sys_down y @ messages_to a es\<rparr>"
    by (simp add: server_moves_def se)
  note S = st [OF se]
  have rg: "list_all (registered_ok N) es" using S unfolding settles_def by blast
  obtain c' where c': "dict_get (srv_clients s) a = Some c'"
    "\<And>p. tokens_of N c p + int (token_returns a p es) \<le> tokens_of N c' p + int (d p)"
    using S c(1) unfolding settles_def by blast
  have "funds N (sys_client y) p + int (inputs_of p (sys_up y)) +
      int (gifts p (sys_down y @ messages_to a es)) \<le> tokens_of N c' p" for p
    using c(2) [of p] c'(2) [of p] by (simp add: gifts_messages_to)
  moreover have "reachable any_event N n s"
    using reachable_event [OF y(1) en, of W] se by simp
  moreover have "k = N" if "Registered k ids \<in> set (sys_down y @ messages_to a es)" for k ids
    using that y(3) registered_messages_to [OF rg] by auto
  ultimately show ?thesis using y(2) c'(1) unfolding covered_def y' by auto
qed

context flow_client
begin

lemma client_moves_covered:
  assumes y: "reachable any_event N n (sys_server y)" "inv N (sys_client y)"
      "\<And>k ids. Registered k ids \<in> set (sys_down y) \<Longrightarrow> k = N"
    and c: "dict_get (srv_clients (sys_server y)) a = Some c"
      "\<And>p. funds N (sys_client y) p + int (inputs_of p (sys_up y)) + int (gifts p (sys_down y)) +
        (if event_gives p ev then 1 else 0) \<le> tokens_of N c p"
    and al: "allowed N ev"
  shows "covered funds inv N n a (client_moves step y ev)"
proof -
  obtain c1 ms where st: "step (sys_client y) ev = (c1, ms)" by (metis prod.exhaust)
  have i: "inv N c1" using step_inv [OF y(2) al] st by simp
  have "funds N c1 p + int (inputs_of p (sys_up y @ ms)) + int (gifts p (sys_down y)) \<le> tokens_of N c p" for p
    using step_funds [OF y(2) al, of p] c(2) [of p] st by simp
  then show ?thesis
    using y(1,3) i c(1) unfolding covered_def client_moves_def st by auto
qed

lemma delivery_covered:
  assumes cov: "covered funds inv N n a y"
  shows "covered funds inv N n a (system_step step a y (Delivered now))"
proof (cases "sys_down y")
  case Nil
  then show ?thesis using cov by (simp add: system_step_def)
next
  case (Cons m rest)
  note Y = coveredD [OF cov]
  obtain c where c: "dict_get (srv_clients (sys_server y)) a = Some c"
    "\<And>p. funds N (sys_client y) p + int (inputs_of p (sys_up y)) + int (gifts p (sys_down y)) \<le> tokens_of N c p"
    using Y(4) by blast
  have "allowed N (FromServer now m)"
    by (rule allowed_server) (use Y(3) Cons in \<open>auto simp: announces_def split: to_client.split\<close>)
  moreover have "funds N (sys_client y) p + int (inputs_of p (sys_up y)) + int (gifts p rest) +
      (if event_gives p (FromServer now m) then 1 else 0) \<le> tokens_of N c p" for p
    using c(2) [of p] Cons by (simp add: event_gives_def split: if_splits)
  ultimately have "covered funds inv N n a (client_moves step (y\<lparr>sys_down := rest\<rparr>) (FromServer now m))"
    using Y(1-3) c(1) Cons by (intro client_moves_covered [where c = c]) auto
  then show ?thesis by (simp add: system_step_def Cons)
qed

lemma handling_covered:
  assumes N: "0 \<le> N" and cov: "covered funds inv N n a y"
  shows "covered funds inv N n a (system_step step a y (ServerHandles W i))"
proof (cases "i < length (sys_up y)")
  case False
  then show ?thesis using cov by (simp add: system_step_def)
next
  case True
  note Y = coveredD [OF cov]
  obtain c where c: "dict_get (srv_clients (sys_server y)) a = Some c"
    "\<And>p. funds N (sys_client y) p + int (inputs_of p (sys_up y)) + int (gifts p (sys_down y)) \<le> tokens_of N c p"
    using Y(4) by blast
  have srv: "server_inv no_accounts N n (sys_server y)" by (rule reachable_inv [OF Y(1) N])
  let ?m = "sys_up y ! i"
  let ?y = "y\<lparr>sys_up := take i (sys_up y) @ drop (Suc i) (sys_up y)\<rparr>"
  have "covered funds inv N n a (server_moves a W ?y (ClientMessage a ?m))"
  proof (rule server_moves_covered [OF N, where d = "input_from ?m" and c = c and ok = inv and funds = funds])
    show "settles N a (input_from ?m) (sys_server ?y) s es"
      if "server_event W (sys_server ?y) (ClientMessage a ?m) = (e, s, es)" for e s es
      using client_message_settles [OF srv, of W a ?m e s es a] that by (simp add: server_event_def)
    show "funds N (sys_client ?y) p + int (inputs_of p (sys_up ?y)) + int (gifts p (sys_down ?y)) +
        int (input_from ?m p) \<le> tokens_of N c p" for p
      using c(2) [of p] inputs_of_remove [OF True, of p] by simp
  qed (use Y(1-3) c(1) in \<open>simp_all add: enabled_def\<close>)
  then show ?thesis using True by (simp add: system_step_def)
qed

lemma system_step_covered:
  assumes N: "0 \<le> N" and cov: "covered funds inv N n a y" and en: "system_enabled allowed N a y ev"
  shows "covered funds inv N n a (system_step step a y ev)"
proof -
  note Y = coveredD [OF cov]
  obtain c where c: "dict_get (srv_clients (sys_server y)) a = Some c"
    "\<And>p. funds N (sys_client y) p + int (inputs_of p (sys_up y)) + int (gifts p (sys_down y)) \<le> tokens_of N c p"
    using Y(4) by blast
  show ?thesis
  proof (cases ev)
    case (ClientActs cev)
    have "\<not> event_gives p cev" for p
      using en ClientActs by (auto simp: system_enabled_def is_from_server_def event_gives_def split: client_event.splits)
    then have "covered funds inv N n a (client_moves step y cev)"
      using en ClientActs c(2) by (intro client_moves_covered [OF Y(1-3) c(1)]) (simp_all add: system_enabled_def)
    then show ?thesis by (simp add: ClientActs system_step_def)
  next
    case (Delivered now)
    then show ?thesis using delivery_covered [OF cov] by simp
  next
    case (ServerHandles W i)
    then show ?thesis using handling_covered [OF N cov] by simp
  next
    case (ServerActs W sev)
    have tx: "transport (send_via_transport W)" and e: "enabled (sys_server y) sev" and nc: "\<not> concerns a sev"
      using en ServerActs by (simp_all add: system_enabled_def)
    have "covered funds inv N n a (server_moves a W y sev)"
      by (rule server_moves_covered [where d = no_inputs and c = c and ok = inv and funds = funds])
        (use N Y(1-3) c e server_event_settles [OF tx reachable_inv [OF Y(1) N] nc] in simp_all)
    then show ?thesis by (simp add: ServerActs system_step_def)
  qed
qed

lemma session_covered:
  assumes "session step allowed N n a c y" and "0 \<le> N" and "inv N c" and "\<And>p. funds N c p \<le> N"
  shows "covered funds inv N n a y"
  using assms(1)
proof induction
  case (connect s)
  have "reachable any_event N n (client_connect s a)"
    using reachable_event [OF connect, of undefined] by (simp add: server_event_def)
  then show ?case using assms(3,4) by (simp add: covered_def client_connect_def)
next
  case (move y ev)
  then show ?case using system_step_covered [OF assms(2)] by blast
qed

text \<open>
  The two consequences: the server has a token for every input that is on its way to it, and the
  client has room for every token that is on its way back.
\<close>

lemma inputs_have_tokens:
  assumes "session step allowed N n a c y" and "0 \<le> N" and "inv N c" and "\<And>p. funds N c p \<le> N"
    and nonneg: "\<And>p. 0 \<le> funds N (sys_client y) p"
    and m: "m \<in> set (sys_up y)" "is_input_of p m"
  shows "\<exists>c. dict_get (srv_clients (sys_server y)) a = Some c \<and> 1 \<le> tokens_of N c p"
proof -
  obtain c' where c': "dict_get (srv_clients (sys_server y)) a = Some c'"
    "funds N (sys_client y) p + int (inputs_of p (sys_up y)) + int (gifts p (sys_down y)) \<le> tokens_of N c' p"
    using coveredD(4) [OF session_covered [OF assms(1-4)]] by blast
  have "0 < inputs_of p (sys_up y)" using m by (auto simp: inputs_of_def filter_empty_conv)
  then show ?thesis using c' nonneg [of p] by auto
qed

lemma returned_tokens_fit:
  assumes "session step allowed N n a c y" and "0 \<le> N" and "inv N c" and "\<And>p. funds N c p \<le> N"
    and m: "m \<in> set (sys_down y)" "gives_token p m" and t: "pool (sys_client y) p = Some t"
  shows "\<exists>t'. return_token t = Inr t'"
proof -
  note C = coveredD [OF session_covered [OF assms(1-4)]]
  obtain c' where c': "dict_get (srv_clients (sys_server y)) a = Some c'"
    "funds N (sys_client y) p + int (inputs_of p (sys_up y)) + int (gifts p (sys_down y)) \<le> tokens_of N c' p"
    using C(4) by blast
  have "tokens_of N c' p \<le> N"
    using server_invD(4) [OF reachable_inv [OF C(1) assms(2)]] c'(1)
    unfolding clients_ok_def books_sound_def by (meson add_increasing2 of_nat_0_le_iff order_trans dual_order.refl)
  moreover have "0 < gifts p (sys_down y)" using m by (auto simp: gifts_def filter_empty_conv)
  ultimately have "funds N (sys_client y) p < N" using c'(2) by linarith
  then show ?thesis by (rule return_fits [OF C(2) t])
qed

end

section \<open>An input with a token is not refused for want of one\<close>

definition says_no_tokens :: "effect \<Rightarrow> bool" where
  "says_no_tokens x =
     (case x of SendClient _ (ResultWrapper w) \<Rightarrow> code (res_status (rw_result w)) = NO_TOKENS | _ \<Rightarrow> False)"

lemma engine_only_says: "engine_only es \<Longrightarrow> list_all (\<lambda>x. \<not> says_no_tokens x) es"
  by (auto simp: engine_only_def says_no_tokens_def list_all_iff split: effect.splits)

lemma send_to_engine_codes:
  assumes "send_to_engine wr s fc a i = (Inr (st, msg), s', es)"
  shows "st \<noteq> NO_TOKENS"
proof -
  from assms refl obtain ws' p' where
    "process_input_from_client wr (engine_workers s)
      (producer_for s (in_producer_id (input_of fc))) fc a i = (Inr (st, msg), ws', p', es)"
    by (rule send_to_engine_unfold)
  then show ?thesis
    by (auto simp: process_input_from_client_def Let_def split: if_splits option.splits prod.splits)
qed

lemma paid_input_not_refused:
  assumes h: "handle_message N (send_to_engine wr) ids c a fc s = (Respond m, c', s', es)"
    and t: "1 \<le> tokens_of N c (in_producer_id (input_of fc))"
  shows "\<not> says_no_tokens (SendClient b m)"
proof (cases "is_registration fc")
  case True
  with h show ?thesis
    by (auto simp: handle_message_def consumer_helper_registration make_registered_def says_no_tokens_def)
next
  case nreg: False
  show ?thesis
  proof (cases "client_info c")
    case None
    with h nreg show ?thesis
      by (auto simp: handle_message_def consumer_helper_unregistered make_error_response_def says_no_tokens_def)
  next
    case (Some i)
    obtain r s1 es1 where cb: "send_to_engine wr s fc a i = (r, s1, es1)" by (metis prod_cases3)
    note H = engine_flow.handle_message_charged [OF cb nreg Some t h]
    show ?thesis
    proof (cases r)
      case (Inl e)
      with H(5) show ?thesis by simp
    next
      case (Inr q)
      obtain st msg where q: "q = (st, msg)" by (cases q)
      show ?thesis
        using H(6) H(7) [of st msg] Inr q send_to_engine_codes [of wr s fc a i st msg s1 es1] cb
        by (cases "st = SUCCESS") (auto simp: make_error_response_def says_no_tokens_def)
    qed
  qed
qed

lemma client_message_not_refused:
  assumes inv: "server_inv R N n s" and eq: "client_message W s a fc = (e, s', es)"
    and c: "dict_get (srv_clients s) a = Some c" "1 \<le> tokens_of N c (in_producer_id (input_of fc))"
  shows "list_all (\<lambda>x. \<not> says_no_tokens x) es"
proof -
  obtain out c' eng' es1 where h: "handle_message N (send_to_engine (engine_write W))
      (engine_ids (srv_engine_side s)) c a fc (srv_engine_side s) = (out, c', eng', es1)"
    by (metis prod_cases4)
  have "es = es1 \<or> (\<exists>m. out = Respond m \<and> es = es1 @ [SendClient a m])"
    using eq c(1) h server_invD(2) [OF inv]
    by (auto simp: client_message_def Let_def split: outcome.splits response_write.splits)
  then show ?thesis
    using engine_only_says [OF handle_message_tokens(1) [OF h]] h
    by (auto dest: paid_input_not_refused [OF _ c(2)])
qed

context flow_client
begin

lemma session_inputs_accepted:
  assumes "session step allowed N n a c y" and "0 \<le> N" and "inv N c" and "\<And>p. funds N c p \<le> N"
    and nonneg: "\<And>p. 0 \<le> funds N (sys_client y) p"
    and m: "Input i \<in> set (sys_up y)" and se: "server_event W (sys_server y) (ClientMessage a (Input i)) = (e, s', es)"
  shows "list_all (\<lambda>x. \<not> says_no_tokens x) es"
proof -
  obtain c' where "dict_get (srv_clients (sys_server y)) a = Some c'" "1 \<le> tokens_of N c' (in_producer_id i)"
    using inputs_have_tokens [OF assms(1-5) m] by auto
  then show ?thesis
    using client_message_not_refused [OF reachable_inv [OF coveredD(1) [OF session_covered [OF assms(1-4)]] assms(2)]]
      se by (simp add: server_event_def)
qed

end

lemma spendable_nonneg: "0 \<le> N \<Longrightarrow> client_inv N c \<Longrightarrow> 0 \<le> spendable N c p"
  by (auto simp: spendable_def client_inv_def pool_ok_def split: option.split)

lemma run_session_fresh:
  assumes "num_tokens_per_producer c = None \<or> num_tokens_per_producer c = Some N"
  shows "client_inv N (run_session uuid c)" and "spendable N (run_session uuid c) p = N"
proof -
  have ph: "h = idle_handler" if "gc_handlers (run_session uuid c) q = Some h" for q h
    using that by (auto simp: run_session_def dest!: map_of_SomeD)
  show "client_inv N (run_session uuid c)"
  proof -
    have "ph_phase h = AwaitRegistered" if "gc_handlers (run_session uuid c) q = Some h" for q h
      using ph [OF that] by (simp add: idle_handler_def)
    moreover have "gc_tokens (run_session uuid c) q = None" for q by (simp add: run_session_def)
    moreover have "num_tokens_per_producer (run_session uuid c) = num_tokens_per_producer c"
      by (simp add: run_session_def)
    ultimately show ?thesis using assms unfolding client_inv_def by fastforce
  qed
  show "spendable N (run_session uuid c) p = N"
    using ph [of p] by (auto simp: spendable_def holds_token_def idle_handler_def run_session_def split: option.split)
qed

lemma new_zeromq_client_fresh:
  assumes "new_zeromq_client scheme info ips = Inr c"
  shows "connected_inv N c" and "spendable N c p = N"
proof -
  have c: "gc_tokens c q = None" "num_tokens_per_producer c = None" "zc_connected c" for q
    using assms
    by (auto simp: new_zeromq_client_def new_gabriel_client_def gabriel_client.defs split: if_splits)
  have ph: "ph_phase h = AwaitRegistered" if "gc_handlers c q = Some h" for q h
    using assms that
    by (auto simp: new_zeromq_client_def new_gabriel_client_def gabriel_client.defs idle_handler_def
        split: if_splits dest!: map_of_SomeD)
  show "connected_inv N c" using c ph unfolding connected_inv_def client_inv_def by fastforce
  show "spendable N c p = N"
    using c(1) ph [of p] by (auto simp: spendable_def holds_token_def split: option.split)
qed

section \<open>Properties\<close>

text \<open>The events that are always possible in a session.\<close>

lemma session_run:
  fixes y :: "'c system"
  assumes "session step allowed N n a c y"
    and "\<And>ev z. ev \<in> set evs \<Longrightarrow> system_enabled allowed N a (z :: 'c system) ev"
  shows "session step allowed N n a c (foldl (system_step step a) y evs)"
  using assms
proof (induction evs arbitrary: y)
  case (Cons ev evs)
  have "session step allowed N n a c (system_step step a y ev)"
    by (rule session.move [OF Cons.prems(1)]) (simp add: Cons.prems(2))
  then show ?case using Cons.IH Cons.prems(2) by simp
qed simp

lemma session_with_engine:
  "session step allowed N n a c (system_step step a
     \<lparr>sys_client = c, sys_up = [], sys_down = [], sys_server = client_connect (init_server N n) a\<rparr>
     (ServerActs calm (EngineStart 1 (Some (Register ''e1'' False)))))"
proof (rule session.move)
  show "session step allowed N n a c
     \<lparr>sys_client = c, sys_up = [], sys_down = [], sys_server = client_connect (init_server N n) a\<rparr>"
    by (rule session.connect [OF reachable.start]) (simp add: enabled_def owed_def init_server_def)
qed (simp add: system_enabled_def calm_transport enabled_def concerns_def init_server_def client_connect_def)

definition registered_events :: "system_event list" where
  "registered_events =
     [ClientActs (RegistrationTurn None), ServerHandles calm 0, Delivered 0, Delivered 0,
      ClientActs (ProducerTurn ''u'' None None 0), ClientActs (ProducerTurn ''u'' None None 0),
      ClientActs (ProducerTurn ''u'' None None 0),
      ClientActs (ProducerTurn ''u'' (Some (Inr (Some image_frame))) None 1)]"

definition answered_events :: "system_event list" where
  "answered_events = registered_events @ [ServerHandles calm 0, ServerActs calm (EngineMessage 1 answer)]"

definition demo_producer_u :: input_producer where
  "demo_producer_u = new_input_producer ''u'' [''e1''] None"

definition connected_system :: "('c \<Rightarrow> client_event \<Rightarrow> 'c \<times> from_client list) \<Rightarrow> 'c \<Rightarrow> 'c system" where
  "connected_system step c =
     system_step step ''c''
       \<lparr>sys_client = c, sys_up = [], sys_down = [], sys_server = client_connect (init_server 2 3) ''c''\<rparr>
       (ServerActs calm (EngineStart 1 (Some (Register ''e1'' False))))"

definition demo_grpc :: grpc_client where
  "demo_grpc = run_session ''id'' (new_grpc_client None [demo_producer_u] None)"

definition grpc_system :: "system_event list \<Rightarrow> grpc_client system" where
  "grpc_system evs =
     foldl (system_step (grpc_client_step (\<lambda>_. None)) ''c'') (connected_system (grpc_client_step (\<lambda>_. None)) demo_grpc) evs"

lemma events_enabled:
  "ev \<in> set answered_events \<Longrightarrow> system_enabled announces N a y ev"
  "ev \<in> set answered_events \<Longrightarrow> system_enabled stays_connected N a y ev"
  by (auto simp: answered_events_def registered_events_def system_enabled_def announces_def stays_connected_def
      is_from_server_def calm_transport enabled_def concerns_def)

text \<open>
  C3. End-to-end flow control.  In every session of a gRPC client with the server, whatever the
  engines, the other clients and the network do: an input that is on its way to the server is never
  answered with \<open>NO_TOKENS\<close>, and a token that is on its way to the client always fits its pool, so that
  returning it does not raise.
\<close>

theorem grpc_session_flow:
  assumes "0 \<le> N" and "num_tokens_per_producer c = None \<or> num_tokens_per_producer c = Some N"
    and "session (grpc_client_step consumer) announces N n a (run_session uuid c) y"
  shows "(\<forall>i W e s' es. Input i \<in> set (sys_up y) \<longrightarrow>
      server_event W (sys_server y) (ClientMessage a (Input i)) = (e, s', es) \<longrightarrow>
      list_all (\<lambda>x. \<not> says_no_tokens x) es) \<and>
    (\<forall>m p t. m \<in> set (sys_down y) \<longrightarrow> gives_token p m \<longrightarrow> gc_tokens (sys_client y) p = Some t \<longrightarrow>
      (\<exists>t'. return_token t = Inr t'))"
proof -
  note F = run_session_fresh [OF assms(2), of uuid]
  have f: "spendable N (run_session uuid c) p \<le> N" for p by (simp add: F(2))
  have "client_inv N (sys_client y)"
    by (rule coveredD(2) [OF grpc_flow.session_covered [OF assms(3,1) F(1) f]])
  then have nn: "0 \<le> spendable N (sys_client y) p" for p by (rule spendable_nonneg [OF assms(1)])
  show ?thesis
    using grpc_flow.session_inputs_accepted [OF assms(3,1) F(1) f nn]
      grpc_flow.returned_tokens_fit [OF assms(3,1) F(1) f] by blast
qed

theorem grpc_session_flow_witness:
  "inputs_of ''u'' (sys_up (grpc_system registered_events)) = 1 \<and>
   gifts ''u'' (sys_down (grpc_system answered_events)) = 1 \<and>
   return_token (the (gc_tokens (sys_client (grpc_system answered_events)) ''u'')) =
     Inr \<lparr>tp_max_tokens = 2, tp_value = 2, tp_bounded = True\<rparr>"
proof -
  let ?y = "grpc_system answered_events"
  have s: "session (grpc_client_step (\<lambda>_. None)) announces 2 3 ''c''
      (run_session ''id'' (new_grpc_client None [demo_producer_u] None)) ?y"
    unfolding grpc_system_def connected_system_def demo_grpc_def
    by (rule session_run [OF session_with_engine]) (rule events_enabled(1))
  have t: "gc_tokens (sys_client ?y) ''u'' = Some \<lparr>tp_max_tokens = 2, tp_value = 1, tp_bounded = True\<rparr>"
    by code_simp
  have g: "sys_down ?y \<noteq> [] \<and> gives_token ''u'' (last (sys_down ?y))" by code_simp
  then have "last (sys_down ?y) \<in> set (sys_down ?y)" by simp
  with grpc_session_flow [OF _ _ s] g t
  have "\<exists>t'. return_token \<lparr>tp_max_tokens = 2, tp_value = 1, tp_bounded = True\<rparr> = Inr t'"
    by (fastforce simp: new_grpc_client_def new_gabriel_client_def gabriel_client.defs)
  moreover have "inputs_of ''u'' (sys_up (grpc_system registered_events)) = 1" by code_simp
  moreover have "gifts ''u'' (sys_down ?y) = 1" by code_simp
  ultimately show ?thesis using t by (simp add: return_token_def)
qed

definition demo_zeromq :: zeromq_client where
  "demo_zeromq =
     (case new_zeromq_client ''tcp'' None [demo_producer_u] of
        Inr c \<Rightarrow> c | Inl _ \<Rightarrow> demo_zeromq_client)"

definition zeromq_system :: "system_event list \<Rightarrow> zeromq_client system" where
  "zeromq_system evs =
     foldl (system_step (zeromq_message_step (\<lambda>_. None)) ''c'')
       (connected_system (zeromq_message_step (\<lambda>_. None)) demo_zeromq) evs"

text \<open>
  C22. End-to-end flow control over ZeroMQ.  The same holds in every session of a ZeroMQ client with the
  server for as long as the client does not lose the server.
\<close>

theorem zeromq_session_flow:
  assumes "0 \<le> N" and "new_zeromq_client scheme info ips = Inr c"
    and "session (zeromq_message_step consumer) stays_connected N n a c y"
  shows "(\<forall>i W e s' es. Input i \<in> set (sys_up y) \<longrightarrow>
      server_event W (sys_server y) (ClientMessage a (Input i)) = (e, s', es) \<longrightarrow>
      list_all (\<lambda>x. \<not> says_no_tokens x) es) \<and>
    (\<forall>m p t. m \<in> set (sys_down y) \<longrightarrow> gives_token p m \<longrightarrow> gc_tokens (sys_client y) p = Some t \<longrightarrow>
      (\<exists>t'. return_token t = Inr t'))"
proof -
  note F = new_zeromq_client_fresh [OF assms(2)]
  have f: "spendable N c p \<le> N" for p by (simp add: F(2))
  have "connected_inv N (sys_client y)"
    by (rule coveredD(2) [OF zeromq_flow.session_covered [OF assms(3,1) F(1) f]])
  then have nn: "0 \<le> spendable N (sys_client y) p" for p
    unfolding connected_inv_def using spendable_nonneg [OF assms(1)] by blast
  show ?thesis
    using zeromq_flow.session_inputs_accepted [OF assms(3,1) F(1) f nn]
      zeromq_flow.returned_tokens_fit [OF assms(3,1) F(1) f] by blast
qed

theorem zeromq_session_flow_witness:
  "inputs_of ''u'' (sys_up (zeromq_system registered_events)) = 1 \<and>
   gifts ''u'' (sys_down (zeromq_system answered_events)) = 1 \<and>
   return_token (the (gc_tokens (sys_client (zeromq_system answered_events)) ''u'')) =
     Inr \<lparr>tp_max_tokens = 2, tp_value = 2, tp_bounded = True\<rparr>"
proof -
  let ?y = "zeromq_system answered_events"
  have n: "new_zeromq_client ''tcp'' None [demo_producer_u] = Inr demo_zeromq"
    by (simp add: demo_zeromq_def new_zeromq_client_def)
  have s: "session (zeromq_message_step (\<lambda>_. None)) stays_connected 2 3 ''c'' demo_zeromq ?y"
    unfolding zeromq_system_def connected_system_def
    by (rule session_run [OF session_with_engine]) (rule events_enabled(2))
  have t: "gc_tokens (sys_client ?y) ''u'' = Some \<lparr>tp_max_tokens = 2, tp_value = 1, tp_bounded = True\<rparr>"
    by code_simp
  have g: "sys_down ?y \<noteq> [] \<and> gives_token ''u'' (last (sys_down ?y))" by code_simp
  then have "last (sys_down ?y) \<in> set (sys_down ?y)" by simp
  with zeromq_session_flow [OF _ n s] g t
  have "\<exists>t'. return_token \<lparr>tp_max_tokens = 2, tp_value = 1, tp_bounded = True\<rparr> = Inr t'" by fastforce
  moreover have "inputs_of ''u'' (sys_up (zeromq_system registered_events)) = 1" by code_simp
  moreover have "gifts ''u'' (sys_down ?y) = 1" by code_simp
  ultimately show ?thesis using t by (simp add: return_token_def)
qed

end
