(* ===== verification/Go_Session.thy ===== *)
theory Go_Session
  imports End_To_End
begin

text \<open>
  Sessions of a Go client with the server, by the same contract as the Python clients, and what a second
  \<open>Registered\<close> message does to them.
\<close>

section \<open>Flow control\<close>

lemma go_run_session_fresh:
  assumes "0 \<le> N" and "\<And>k t. go_pools c k = Some t \<Longrightarrow> go_pool_ok N t"
  shows "go_inv N (go_run_session sid c)" and "go_spendable N (go_run_session sid c) p = N"
proof -
  have idle: "h = idle_go_handler" if "go_handlers (go_run_session sid c) q = Some h" for q h
    using that by (auto simp: go_run_session_def dest!: map_of_SomeD)
  show "go_inv N (go_run_session sid c)"
    unfolding go_inv_def using assms idle by (fastforce simp: go_run_session_def idle_go_handler_def)
  show "go_spendable N (go_run_session sid c) p = N"
    using idle [of p] by (auto simp: go_spendable_def go_purse_def idle_go_handler_def split: option.split)
qed

lemma go_spendable_nonneg: "go_inv N c \<Longrightarrow> 0 \<le> go_spendable N c p"
  by (fastforce simp: go_spendable_def go_purse_def go_inv_def go_pool_ok_def split: option.split)

definition go_registered_events :: "system_event list" where
  "go_registered_events =
     [ClientActs (RegistrationTurn None), ServerHandles calm 0, Delivered 0, Delivered 0,
      ClientActs (ProducerTurn ''cam'' None None 0), ClientActs (ProducerTurn ''cam'' None None 0),
      ClientActs (ProducerTurn ''cam'' None None 0),
      ClientActs (ProducerTurn ''cam'' (Some (Inr (Some image_frame))) None 1)]"

definition go_answered_events :: "system_event list" where
  "go_answered_events = go_registered_events @ [ServerHandles calm 0, ServerActs calm (EngineMessage 1 answer)]"

definition go_system :: "system_event list \<Rightarrow> go_client system" where
  "go_system evs =
     foldl (system_step go_step ''c'') (connected_system go_step (go_run_session ''id'' demo_go_client)) evs"

lemma go_events_enabled: "ev \<in> set go_answered_events \<Longrightarrow> system_enabled announces N a y ev"
  by (auto simp: go_answered_events_def go_registered_events_def system_enabled_def announces_def
      is_from_server_def calm_transport enabled_def concerns_def)

lemma go_demo_session:
  assumes "\<And>ev z. ev \<in> set evs \<Longrightarrow> system_enabled announces 2 ''c'' (z :: go_client system) ev"
  shows "session go_step announces 2 3 ''c'' (go_run_session ''id'' demo_go_client) (go_system evs)"
  unfolding go_system_def connected_system_def by (rule session_run [OF session_with_engine assms])

text \<open>
  C23. End-to-end flow control of the Go client.  In every session of a Go client with the server, an
  input that is on its way to the server is never answered with \<open>NO_TOKENS\<close>; and a token that is on its
  way to the client can be returned without a panic, as long as the producer's goroutine uses the pool
  that the client's table holds.
\<close>

theorem go_session_flow:
  assumes "0 \<le> N" and "\<And>k t. go_pools c k = Some t \<Longrightarrow> go_pool_ok N t"
    and "session go_step announces N n a (go_run_session sid c) y"
  shows "(\<forall>i W e s' es. Input i \<in> set (sys_up y) \<longrightarrow>
      server_event W (sys_server y) (ClientMessage a (Input i)) = (e, s', es) \<longrightarrow>
      list_all (\<lambda>x. \<not> says_no_tokens x) es) \<and>
    (\<forall>m p t. m \<in> set (sys_down y) \<longrightarrow> gives_token p m \<longrightarrow> go_shared_pool (sys_client y) p = Some t \<longrightarrow>
      go_return_token t \<noteq> None)"
proof -
  have F: "go_inv N (go_run_session sid c)" "go_spendable N (go_run_session sid c) p = N" for p
    using go_run_session_fresh [of N c] assms(1,2) by blast+
  have f: "go_spendable N (go_run_session sid c) p \<le> N" for p by (simp add: F(2))
  have nn: "0 \<le> go_spendable N (sys_client y) p" for p
    by (rule go_spendable_nonneg [OF coveredD(2) [OF go_flow.session_covered [OF assms(3,1) F(1) f]]])
  have "go_return_token t \<noteq> None"
    if "m \<in> set (sys_down y)" "gives_token p m" "go_shared_pool (sys_client y) p = Some t" for m p t
    using go_flow.returned_tokens_fit [OF assms(3,1) F(1) f that(1,2)] that(3)
    by (auto simp: go_return_refines)
  then show ?thesis using go_flow.session_inputs_accepted [OF assms(3,1) F(1) f nn] by blast
qed

theorem go_session_flow_witness:
  "inputs_of ''cam'' (sys_up (go_system go_registered_events)) = 1 \<and>
   gifts ''cam'' (sys_down (go_system go_answered_events)) = 1 \<and>
   (\<exists>t. go_shared_pool (sys_client (go_system go_answered_events)) ''cam'' = Some t \<and> go_return_token t \<noteq> None)"
proof -
  let ?y = "go_system go_answered_events"
  have s: "session go_step announces 2 3 ''c'' (go_run_session ''id'' demo_go_client) ?y"
    by (rule go_demo_session) (rule go_events_enabled)
  have t: "go_shared_pool (sys_client ?y) ''cam'' =
      Some \<lparr>sem_size = 2, sem_cur = 1, gtp_max_tokens = 2, gtp_remaining = 1\<rparr>" by code_simp
  have g: "sys_down ?y \<noteq> [] \<and> gives_token ''cam'' (last (sys_down ?y))" by code_simp
  then have l: "last (sys_down ?y) \<in> set (sys_down ?y)" by simp
  have empty: "go_pools demo_go_client = Map.empty"
    by (simp add: demo_go_client_def new_go_client_def new_go_producer_def)
  have "go_return_token \<lparr>sem_size = 2, sem_cur = 1, gtp_max_tokens = 2, gtp_remaining = 1\<rparr> \<noteq> None"
    using conjunct2 [OF go_session_flow [OF _ _ s]] l g t unfolding empty by (metis option.distinct(1) zero_le_numeral)
  moreover have "inputs_of ''cam'' (sys_up (go_system go_registered_events)) = 1" by code_simp
  moreover have "gifts ''cam'' (sys_down ?y) = 1" by code_simp
  ultimately show ?thesis using t by simp
qed

section \<open>A second registration\<close>

text \<open>
  The client registers, is slow to see the answer and registers again; the server answers both.
\<close>

definition double_registration :: "system_event list" where
  "double_registration =
     [ClientActs (RegistrationTurn None), ClientActs (RegistrationTurn None), ServerHandles calm 0,
      ServerHandles calm 0, Delivered 0, Delivered 0,
      ClientActs (ProducerTurn ''cam'' None None 0), ClientActs (ProducerTurn ''cam'' None None 0),
      ClientActs (ProducerTurn ''cam'' None None 0),
      ClientActs (ProducerTurn ''cam'' (Some (Inr (Some image_frame))) None 1), Delivered 2,
      ServerHandles calm 0, ServerActs calm (EngineMessage 1 answer), Delivered 3]"

lemma double_registration_enabled: "ev \<in> set double_registration \<Longrightarrow> system_enabled announces N a y ev"
  by (auto simp: double_registration_def system_enabled_def announces_def
      is_from_server_def calm_transport enabled_def concerns_def)


end
