(* ===== verification/Push_Source.thy ===== *)
theory Push_Source
  imports Gabriel_Client
begin

text \<open>
  \<open>push_source.py\<close>: a source that another process pushes frames into.  A frame goes through a pipe as
  bytes; a reader callback on the event loop takes one message at a time, keeps it as the latest frame and
  releases a semaphore that the producer acquires.  How protobuf encodes a frame is the pair of arguments
  \<open>serialize\<close> and \<open>parse\<close>.
\<close>

section \<open>The source\<close>

record push_source =
  ps_pipe :: "bytes list"
  ps_latest_input_frame :: "input_frame option"
  ps_frame_available :: nat
  ps_added_callback :: bool

definition new_source :: push_source where
  "new_source =
     \<lparr>ps_pipe = [], ps_latest_input_frame = None, ps_frame_available = 0, ps_added_callback = False\<rparr>"

definition source_input_producer :: "string \<Rightarrow> engine_id list \<Rightarrow> string \<Rightarrow> input_producer" where
  "source_input_producer fresh target_engine_ids producer_name =
     new_input_producer fresh target_engine_ids (Some producer_name)"

definition source_send :: "(input_frame \<Rightarrow> bytes) \<Rightarrow> input_frame \<Rightarrow> push_source \<Rightarrow> push_source" where
  "source_send serialize f s = s\<lparr>ps_pipe := ps_pipe s @ [serialize f]\<rparr>"

text \<open>
  The event loop runs the callback only when it has been added and the pipe has data.  A message that does
  not parse is consumed and raises, which leaves the latest frame and the semaphore alone.
\<close>

definition reader_callback :: "(bytes \<Rightarrow> input_frame option) \<Rightarrow> push_source \<Rightarrow> push_source" where
  "reader_callback parse s =
     (if \<not> ps_added_callback s then s
      else case ps_pipe s of
        [] \<Rightarrow> s
      | b # bs \<Rightarrow>
          (case parse b of
             None \<Rightarrow> s\<lparr>ps_pipe := bs\<rparr>
           | Some f \<Rightarrow>
               s\<lparr>ps_pipe := bs, ps_latest_input_frame := Some f,
                 ps_frame_available := ps_frame_available s + 1\<rparr>))"

text \<open>
  The producer adds the callback on its first call and acquires the semaphore; \<open>None\<close> as the first
  component says that it still waits.
\<close>

definition source_producer :: "push_source \<Rightarrow> input_frame option option \<times> push_source" where
  "source_producer s =
     (let s1 = s\<lparr>ps_added_callback := True\<rparr>
      in case ps_frame_available s1 of
           0 \<Rightarrow> (None, s1)
         | Suc n \<Rightarrow> (Some (ps_latest_input_frame s1), s1\<lparr>ps_frame_available := n\<rparr>))"

section \<open>Schedules\<close>

text \<open>The three activities in any order; a run collects what the producer returns.\<close>

datatype source_event = SourceSend input_frame | ReaderReady | ProducerRuns

definition source_step ::
  "(input_frame \<Rightarrow> bytes) \<Rightarrow> (bytes \<Rightarrow> input_frame option) \<Rightarrow> source_event \<Rightarrow> push_source \<Rightarrow>
     input_frame option list \<times> push_source" where
  "source_step serialize parse ev s =
     (case ev of
        SourceSend f \<Rightarrow> ([], source_send serialize f s)
      | ReaderReady \<Rightarrow> ([], reader_callback parse s)
      | ProducerRuns \<Rightarrow>
          (case source_producer s of (None, s1) \<Rightarrow> ([], s1) | (Some f, s1) \<Rightarrow> ([f], s1)))"

fun source_run ::
  "(input_frame \<Rightarrow> bytes) \<Rightarrow> (bytes \<Rightarrow> input_frame option) \<Rightarrow> source_event list \<Rightarrow> push_source \<Rightarrow>
     input_frame option list \<times> push_source" where
  "source_run serialize parse [] s = ([], s)"
| "source_run serialize parse (ev # evs) s =
     (let (xs, s1) = source_step serialize parse ev s; (ys, s2) = source_run serialize parse evs s1
      in (xs @ ys, s2))"

text \<open>A burst: several frames are pushed and read before the producer runs again.\<close>

definition burst :: "input_frame list \<Rightarrow> source_event list" where
  "burst fs =
     map SourceSend fs @ replicate (length fs) ReaderReady @ replicate (length fs) ProducerRuns"

definition sent_frames :: "source_event list \<Rightarrow> input_frame list" where
  "sent_frames evs = concat (map (\<lambda>ev. case ev of SourceSend f \<Rightarrow> [f] | _ \<Rightarrow> []) evs)"

section \<open>Any schedule\<close>

lemma source_run_append:
  "source_run serialize parse (xs @ ys) s =
     (let (os, s1) = source_run serialize parse xs s; (ps, s2) = source_run serialize parse ys s1
      in (os @ ps, s2))"
  by (induction xs arbitrary: s) (auto simp: Let_def split: prod.split)

lemma sent_frames_simps [simp]:
  "sent_frames [] = []" "sent_frames (SourceSend f # evs) = f # sent_frames evs"
  "sent_frames (ReaderReady # evs) = sent_frames evs" "sent_frames (ProducerRuns # evs) = sent_frames evs"
  by (simp_all add: sent_frames_def)

text \<open>
  The invariant of a run over frames \<open>F\<close>: the pipe holds encodings of frames of \<open>F\<close>, and a frame of \<open>F\<close>
  is there whenever the semaphore says so.
\<close>

definition source_inv :: "(input_frame \<Rightarrow> bytes) \<Rightarrow> input_frame set \<Rightarrow> push_source \<Rightarrow> bool" where
  "source_inv serialize F s \<longleftrightarrow>
     set (ps_pipe s) \<subseteq> serialize ` F \<and>
     (ps_latest_input_frame s = None \<longrightarrow> ps_frame_available s = 0) \<and>
     (\<forall>f. ps_latest_input_frame s = Some f \<longrightarrow> f \<in> F)"

lemma source_step_inv:
  assumes rt: "\<And>f. f \<in> F \<Longrightarrow> parse (serialize f) = Some f" and inv: "source_inv serialize F s"
    and sent: "set (sent_frames [ev]) \<subseteq> F" and st: "source_step serialize parse ev s = (os, s')"
  shows "source_inv serialize F s'" and "set os \<subseteq> Some ` F"
    and "length os + ps_frame_available s' + length (ps_pipe s') =
      length (sent_frames [ev]) + ps_frame_available s + length (ps_pipe s)"
  using inv sent st
  by (cases ev; auto simp: source_step_def source_send_def reader_callback_def source_producer_def source_inv_def
      Let_def rt split: if_splits list.splits option.splits nat.splits)+

lemma source_run_inv:
  assumes rt: "\<And>f. f \<in> F \<Longrightarrow> parse (serialize f) = Some f" and "source_inv serialize F s"
    and "set (sent_frames evs) \<subseteq> F"
  shows "source_inv serialize F (snd (source_run serialize parse evs s)) \<and>
    set (fst (source_run serialize parse evs s)) \<subseteq> Some ` F \<and>
    length (fst (source_run serialize parse evs s)) + ps_frame_available (snd (source_run serialize parse evs s)) +
      length (ps_pipe (snd (source_run serialize parse evs s))) =
    length (sent_frames evs) + ps_frame_available s + length (ps_pipe s)"
  using assms(2,3)
proof (induction evs arbitrary: s)
  case (Cons ev evs)
  obtain os s1 where st: "source_step serialize parse ev s = (os, s1)" by (metis prod.exhaust)
  have split: "sent_frames (ev # evs) = sent_frames [ev] @ sent_frames evs" by (simp add: sent_frames_def)
  have sub: "set (sent_frames [ev]) \<subseteq> F" using Cons.prems(2) split by simp
  note step = source_step_inv [OF rt Cons.prems(1) sub st]
  have "set (sent_frames evs) \<subseteq> F" using Cons.prems(2) split by simp
  from Cons.IH [OF step(1) this] step(2,3) show ?case by (auto simp: split st Let_def split: prod.split)
qed simp

section \<open>Bursts\<close>

lemma run_sends:
  "source_run serialize parse (map SourceSend fs) s = ([], s\<lparr>ps_pipe := ps_pipe s @ map serialize fs\<rparr>)"
  by (induction fs arbitrary: s) (simp_all add: source_step_def source_send_def)

lemma run_reads:
  assumes "\<And>f. f \<in> set fs \<Longrightarrow> parse (serialize f) = Some f" and "ps_added_callback s"
    and "ps_pipe s = map serialize fs"
  shows "source_run serialize parse (replicate (length fs) ReaderReady) s =
    ([], s\<lparr>ps_pipe := [], ps_latest_input_frame := (if fs = [] then ps_latest_input_frame s else Some (last fs)),
           ps_frame_available := ps_frame_available s + length fs\<rparr>)"
  using assms
proof (induction fs arbitrary: s)
  case (Cons f fs)
  let ?s = "s\<lparr>ps_pipe := map serialize fs, ps_latest_input_frame := Some f,
    ps_frame_available := ps_frame_available s + 1\<rparr>"
  have "source_step serialize parse ReaderReady s = ([], ?s)"
    using Cons.prems by (simp add: source_step_def reader_callback_def)
  then show ?case using Cons.IH [of ?s] Cons.prems by simp
qed simp

lemma run_produces:
  assumes "ps_frame_available s = n" and "ps_added_callback s"
  shows "source_run serialize parse (replicate n ProducerRuns) s =
    (replicate n (ps_latest_input_frame s), s\<lparr>ps_frame_available := 0\<rparr>)"
  using assms by (induction n arbitrary: s) (simp_all add: source_step_def source_producer_def)

text \<open>The state between bursts.\<close>

definition drained :: "push_source \<Rightarrow> bool" where
  "drained s \<longleftrightarrow> ps_pipe s = [] \<and> ps_frame_available s = 0 \<and> ps_added_callback s"

lemma run_burst:
  assumes rt: "\<And>f. f \<in> set fs \<Longrightarrow> parse (serialize f) = Some f" and d: "drained s"
  shows "fst (source_run serialize parse (burst fs) s) = replicate (length fs) (Some (last fs))"
    and "drained (snd (source_run serialize parse (burst fs) s))"
proof -
  let ?s1 = "s\<lparr>ps_pipe := map serialize fs\<rparr>"
  let ?s2 = "?s1\<lparr>ps_pipe := [], ps_latest_input_frame := (if fs = [] then ps_latest_input_frame s else Some (last fs)),
    ps_frame_available := length fs\<rparr>"
  have 1: "source_run serialize parse (map SourceSend fs) s = ([], ?s1)"
    using d by (simp add: run_sends drained_def)
  have 2: "source_run serialize parse (replicate (length fs) ReaderReady) ?s1 = ([], ?s2)"
    using d run_reads [of fs parse serialize ?s1] rt by (simp add: drained_def)
  have 3: "source_run serialize parse (replicate (length fs) ProducerRuns) ?s2 =
    (replicate (length fs) (ps_latest_input_frame ?s2), ?s2\<lparr>ps_frame_available := 0\<rparr>)"
    using d by (intro run_produces) (simp_all add: drained_def)
  show "fst (source_run serialize parse (burst fs) s) = replicate (length fs) (Some (last fs))"
    and "drained (snd (source_run serialize parse (burst fs) s))"
    using d 1 2 3 by (simp_all add: burst_def source_run_append drained_def)
qed

lemma run_bursts:
  assumes "\<And>f. f \<in> set (concat bs) \<Longrightarrow> parse (serialize f) = Some f" and "drained s"
  shows "fst (source_run serialize parse (concat (map burst bs)) s) =
    concat (map (\<lambda>b. replicate (length b) (Some (last b))) bs)"
  using assms
proof (induction bs arbitrary: s)
  case (Cons b bs)
  note b = run_burst [of b parse serialize s]
  show ?case using b Cons.prems Cons.IH [of "snd (source_run serialize parse (burst b) s)"]
    by (auto simp: source_run_append Let_def split: prod.split)
qed simp

lemma producer_first_call: "source_step serialize parse ProducerRuns new_source = ([], new_source\<lparr>ps_added_callback := True\<rparr>)"
  by (simp add: source_step_def source_producer_def new_source_def)

text \<open>
  C35. What a push source delivers.  Once the producer has been called, frames pushed one at a time, each
  read and produced before the next, come out unchanged and in order.  Frames pushed in bursts come out
  as many as were pushed, but each is the last frame of its burst: the earlier ones are lost and the last
  one is repeated.  Assumed is that parsing inverts serialization on the frames pushed.
\<close>

theorem push_source_roundtrip:
  assumes rt: "\<And>f. f \<in> set (concat bs) \<Longrightarrow> parse (serialize f) = Some f"
  shows "fst (source_run serialize parse (ProducerRuns # concat (map (\<lambda>f. burst [f]) (concat bs))) new_source) =
      map Some (concat bs) \<and>
    fst (source_run serialize parse (ProducerRuns # concat (map burst bs)) new_source) =
      concat (map (\<lambda>b. replicate (length b) (Some (last b))) bs)"
proof -
  have d: "drained (new_source\<lparr>ps_added_callback := True\<rparr>)" by (simp add: drained_def new_source_def)
  have single: "concat (map burst (map (\<lambda>f. [f]) fs)) = concat (map (\<lambda>f. burst [f]) fs)"
    "concat (map (\<lambda>b. replicate (length b) (Some (last b))) (map (\<lambda>f. [f]) fs)) = map Some fs" for fs
    by (induction fs) simp_all
  show ?thesis
    using run_bursts [of bs parse serialize, OF rt d]
      run_bursts [of "map (\<lambda>f. [f]) (concat bs)" parse serialize, OF _ d] rt
    by (simp add: producer_first_call single o_def split: prod.split)
qed

definition demo_frame :: "string \<Rightarrow> input_frame" where
  "demo_frame t = \<lparr>payload_type = TEXT, frame_payload = Some (StringPayload t)\<rparr>"

definition demo_serialize :: "input_frame \<Rightarrow> bytes" where
  "demo_serialize f = (case frame_payload f of Some (StringPayload t) \<Rightarrow> t | _ \<Rightarrow> [])"

theorem push_source_roundtrip_witness:
  "fst (source_run demo_serialize (\<lambda>b. Some (demo_frame b))
      (ProducerRuns # concat (map burst [[demo_frame ''a'', demo_frame ''b''], [demo_frame ''c'']])) new_source) =
    [Some (demo_frame ''b''), Some (demo_frame ''b''), Some (demo_frame ''c'')]"
proof -
  let ?bs = "[[demo_frame ''a'', demo_frame ''b''], [demo_frame ''c'']]"
  have "demo_frame (demo_serialize f) = f" if "f \<in> set (concat ?bs)" for f
    using that by (auto simp: demo_serialize_def demo_frame_def)
  then have "fst (source_run demo_serialize (\<lambda>b. Some (demo_frame b)) (ProducerRuns # concat (map burst ?bs)) new_source) =
      concat (map (\<lambda>b. replicate (length b) (Some (last b))) ?bs)"
    using push_source_roundtrip [of ?bs "\<lambda>b. Some (demo_frame b)" demo_serialize] by blast
  also have "\<dots> = [Some (demo_frame ''b''), Some (demo_frame ''b''), Some (demo_frame ''c'')]"
    by (simp add: numeral_2_eq_2)
  finally show ?thesis .
qed

end
