(* ===== verification/Opencv_Adapter.thy ===== *)
theory Opencv_Adapter
  imports Gabriel_Client
begin

text \<open>
  \<open>opencv_adapter.py\<close>: frames of a video capture as inputs of a client.  OpenCV is not part of the
  repository: what the capture reads, the encoder \<open>imencode\<close> and the decoder \<open>imdecode\<close> are arguments.
\<close>

definition opencv_input_producer :: "string \<Rightarrow> engine_id \<Rightarrow> input_producer" where
  "opencv_input_producer fresh engine_name = new_input_producer fresh [engine_name] None"

definition opencv_producer :: "('f \<Rightarrow> 'f) \<Rightarrow> ('f \<Rightarrow> bytes) \<Rightarrow> 'f option \<Rightarrow> input_frame option" where
  "opencv_producer preprocess imencode captured =
     (case captured of
        None \<Rightarrow> None
      | Some frame \<Rightarrow>
          Some \<lparr>payload_type = IMAGE, frame_payload = Some (BytePayload (imencode (preprocess frame)))\<rparr>)"

text \<open>The decoded frame is handed to the application's \<open>consume_frame\<close>.\<close>

definition opencv_consumer ::
  "(bytes \<Rightarrow> 'f) \<Rightarrow> ('f \<Rightarrow> py_exn option) \<Rightarrow> result \<Rightarrow> py_exn option" where
  "opencv_consumer imdecode consume_frame r =
     (case res_payload r of
        Some (BytesResult b) \<Rightarrow> consume_frame (imdecode b)
      | _ \<Rightarrow> Some AssertionError)"

text \<open>
  A captured frame is never the empty frame, so a client sends it instead of skipping it, and an engine
  that echoes the payload gives the application the frame that was encoded.
\<close>

lemma opencv_frame_not_empty: "opencv_producer pre enc captured = Some f \<Longrightarrow> \<not> empty_frame f"
  by (auto simp: opencv_producer_def empty_frame_def default_input_frame_def split: option.splits)

lemma opencv_echo:
  assumes "opencv_producer pre enc (Some x) = Some f" and "frame_payload f = Some (BytePayload b)"
    and "res_payload r = Some (BytesResult b)"
  shows "opencv_consumer dec use r = use (dec (enc (pre x)))"
  using assms by (auto simp: opencv_producer_def opencv_consumer_def)

end
