(* ===== verification/Measurement_Client.thy ===== *)
theory Measurement_Client
  imports Complex_Main Websocket_Client
begin

text \<open>
  \<open>measurement_client.py\<close>: a WebSocket client that reports frame rates and round-trip times.  Clock
  readings are integers of one unit and the reported figures are exact quotients; the clock is read
  where the code reads it.
\<close>

section \<open>State\<close>

record source_measurement =
  sm_count :: int
  sm_send_timestamps :: "(int \<times> int) list"
  sm_recv_timestamps :: "(int \<times> int) list"
  sm_start_time :: "int option"
  sm_interval_start_time :: "int option"
  sm_output_freq :: int

record measurement_client = gabriel_client +
  mc_output_freq :: int
  mc_start_time :: "int option"
  mc_source_measurements :: "producer_id \<rightharpoonup> source_measurement"

text \<open>One report: overall rate, rate of the interval, average round-trip time of the interval.\<close>

record report =
  rep_overall_fps :: rat
  rep_interval_fps :: rat
  rep_average_rtt :: rat

section \<open>Measurements of one producer\<close>

definition new_source_measurement :: "int option \<Rightarrow> int \<Rightarrow> source_measurement" where
  "new_source_measurement start_time output_freq =
     \<lparr>sm_count = 0, sm_send_timestamps = [], sm_recv_timestamps = [], sm_start_time = start_time,
      sm_interval_start_time = start_time, sm_output_freq = output_freq\<rparr>"

definition compute_fps :: "int \<Rightarrow> int \<Rightarrow> int option \<Rightarrow> py_exn + rat" where
  "compute_fps num_frames current_time start_time =
     (case start_time of
        None \<Rightarrow> Inl TypeError
      | Some t \<Rightarrow>
          (if current_time = t then Inl ZeroDivisionError else Inr (of_int num_frames / of_int (current_time - t))))"

definition log_send :: "int \<Rightarrow> int \<Rightarrow> source_measurement \<Rightarrow> source_measurement" where
  "log_send frame_id send_time m = m\<lparr>sm_send_timestamps := dict_set frame_id send_time (sm_send_timestamps m)\<rparr>"

text \<open>The loop over the received frames: the round-trip times add up and the send times are dropped.\<close>

fun sum_rtt :: "(int \<times> int) list \<Rightarrow> (int \<times> int) list \<Rightarrow> int \<Rightarrow> py_exn option \<times> (int \<times> int) list \<times> int" where
  "sum_rtt [] sends total_rtt = (None, sends, total_rtt)"
| "sum_rtt ((frame_id, received) # rest) sends total_rtt =
     (case dict_get sends frame_id of
        None \<Rightarrow> (Some KeyError, sends, total_rtt)
      | Some sent \<Rightarrow> sum_rtt rest (dict_del frame_id sends) (total_rtt + (received - sent)))"

definition compute_and_print ::
  "int \<Rightarrow> source_measurement \<Rightarrow> (py_exn + report) \<times> source_measurement" where
  "compute_and_print response_time m =
     (case compute_fps (sm_count m) response_time (sm_start_time m) of
        Inl e \<Rightarrow> (Inl e, m)
      | Inr overall \<Rightarrow>
          (case compute_fps (sm_output_freq m) response_time (sm_interval_start_time m) of
             Inl e \<Rightarrow> (Inl e, m)
           | Inr interval \<Rightarrow>
               (case sum_rtt (sm_recv_timestamps m) (sm_send_timestamps m) 0 of
                  (Some e, sends, _) \<Rightarrow> (Inl e, m\<lparr>sm_send_timestamps := sends\<rparr>)
                | (None, sends, total_rtt) \<Rightarrow>
                    (if sm_output_freq m = 0 then (Inl ZeroDivisionError, m\<lparr>sm_send_timestamps := sends\<rparr>)
                     else (Inr \<lparr>rep_overall_fps = overall, rep_interval_fps = interval,
                                rep_average_rtt = of_int total_rtt / of_int (sm_output_freq m)\<rparr>,
                           m\<lparr>sm_send_timestamps := sends, sm_recv_timestamps := []\<rparr>)))))"

text \<open>
  \<open>process_response\<close>; \<open>now\<close> is the clock after the report.  The first component is the report printed,
  if any.
\<close>

definition sm_process_response ::
  "int \<Rightarrow> int \<Rightarrow> int \<Rightarrow> source_measurement \<Rightarrow> (py_exn + report option) \<times> source_measurement" where
  "sm_process_response frame_id response_time now m =
     (let m1 = m\<lparr>sm_recv_timestamps := dict_set frame_id response_time (sm_recv_timestamps m),
                 sm_count := sm_count m + 1\<rparr>
      in if sm_output_freq m1 = 0 then (Inl ZeroDivisionError, m1)
         else if sm_count m1 mod sm_output_freq m1 = 0
         then (case compute_and_print response_time m1 of
                 (Inl e, m2) \<Rightarrow> (Inl e, m2)
               | (Inr rep, m2) \<Rightarrow> (Inr (Some rep), m2\<lparr>sm_interval_start_time := Some now\<rparr>))
         else (Inr None, m1))"

section \<open>The client\<close>

definition mc_process_registered :: "int \<Rightarrow> engine_id list \<Rightarrow> int \<Rightarrow> measurement_client \<Rightarrow> measurement_client" where
  "mc_process_registered n ids now c = (ws_process_registered n ids c)\<lparr>mc_start_time := Some now\<rparr>"

definition get_source_measurement :: "producer_id \<Rightarrow> measurement_client \<Rightarrow> source_measurement" where
  "get_source_measurement pid c =
     (case mc_source_measurements c pid of
        Some m \<Rightarrow> m
      | None \<Rightarrow> new_source_measurement (mc_start_time c) (mc_output_freq c))"

definition mc_process_response ::
  "(result \<Rightarrow> py_exn option) \<Rightarrow> int \<Rightarrow> int \<Rightarrow> result_wrapper \<Rightarrow> measurement_client \<Rightarrow>
     (py_exn + report option) \<times> measurement_client" where
  "mc_process_response consumer response_time now w c =
     (case ws_process_response consumer response_time w c of
        (Some e, c1) \<Rightarrow> (Inl e, c1)
      | (None, c1) \<Rightarrow>
          (if rw_return_token w
           then (let pid = rw_producer_id w;
                     (r, m) = sm_process_response (res_frame_id (rw_result w)) response_time now
                       (get_source_measurement pid c1)
                 in (r, c1\<lparr>mc_source_measurements := (mc_source_measurements c1)(pid \<mapsto> m)\<rparr>))
           else (Inr None, c1)))"

text \<open>\<open>_send_from_client\<close>: \<open>send\<close> is what the write to the socket raises.\<close>

definition mc_send_from_client ::
  "py_exn option \<Rightarrow> int \<Rightarrow> int \<Rightarrow> from_client \<Rightarrow> measurement_client \<Rightarrow>
     py_exn option \<times> measurement_client \<times> from_client list" where
  "mc_send_from_client send now send_time msg c =
     (let c1 = record_send_metrics now msg c
      in case send of
           Some e \<Rightarrow> (Some e, c1, [])
         | None \<Rightarrow>
             (let pid = in_producer_id (input_of msg);
                  m = log_send (in_frame_id (input_of msg)) send_time (get_source_measurement pid c1)
              in (None, c1\<lparr>mc_source_measurements := (mc_source_measurements c1)(pid \<mapsto> m)\<rparr>, [msg])))"

section \<open>The report\<close>

text \<open>
  When every frame received in the interval has its send time, the loop cannot fail: it adds the
  round-trip times of exactly these frames and forgets their send times.
\<close>

lemma sum_rtt_total:
  assumes "distinct (map fst recv)" and "distinct (map fst sends)"
    and "\<And>f. f \<in> fst ` set recv \<Longrightarrow> dict_get sends f \<noteq> None"
  shows "\<exists>sends'. sum_rtt recv sends total_rtt =
      (None, sends', total_rtt + (\<Sum>(f, t) \<leftarrow> recv. t - the (dict_get sends f))) \<and>
    distinct (map fst sends') \<and>
    (\<forall>f. dict_get sends' f = (if f \<in> fst ` set recv then None else dict_get sends f))"
  using assms
proof (induction recv arbitrary: sends total_rtt)
  case (Cons x recv)
  obtain f t where x: "x = (f, t)" by force
  obtain s where s: "dict_get sends f = Some s" using Cons.prems(3) [of f] x by auto
  have f: "f \<notin> fst ` set recv" using Cons.prems(1) x by simp
  have same: "dict_get (dict_del f sends) g = dict_get sends g" if "g \<in> fst ` set recv" for g
    using that f by (auto simp: dict_simps)
  have "\<exists>sends'. sum_rtt recv (dict_del f sends) (total_rtt + (t - s)) =
      (None, sends', total_rtt + (t - s) + (\<Sum>(f', t) \<leftarrow> recv. t - the (dict_get (dict_del f sends) f'))) \<and>
    distinct (map fst sends') \<and>
    (\<forall>g. dict_get sends' g = (if g \<in> fst ` set recv then None else dict_get (dict_del f sends) g))"
    using Cons.prems x same by (intro Cons.IH) (auto simp: dict_simps)
  moreover have "(\<Sum>(f', t) \<leftarrow> recv. t - the (dict_get (dict_del f sends) f')) =
    (\<Sum>(f', t) \<leftarrow> recv. t - the (dict_get sends f'))"
    by (rule arg_cong [where f = sum_list], rule map_cong) (simp, clarsimp, metis same fst_conv image_eqI)
  ultimately show ?case using x s by (auto simp: dict_simps)
qed simp

text \<open>A response whose frame has no send time makes the report of its interval fail with \<open>KeyError\<close>.\<close>

lemma sum_rtt_unsent:
  assumes "dict_get sends f = None" and "f \<in> fst ` set recv"
  shows "fst (sum_rtt recv sends total_rtt) = Some KeyError"
  using assms
proof (induction recv arbitrary: sends total_rtt)
  case (Cons x recv)
  have "dict_get (dict_del g sends) f = None" for g using Cons.prems(1) by (auto simp: dict_simps)
  moreover have "fst x = f \<or> f \<in> fst ` set recv" using Cons.prems(2) by auto
  ultimately show ?case using Cons.prems(1) Cons.IH by (cases x) (auto split: option.split simp del: image_iff)
qed simp

lemma first_response_unsent:
  assumes "0 < t" and "t \<noteq> start"
  shows "fst (sm_process_response f t now (new_source_measurement (Some start) 1)) = Inl KeyError"
  using assms
  by (simp add: sm_process_response_def new_source_measurement_def compute_and_print_def compute_fps_def Let_def)

text \<open>Measuring changes nothing else: the books of the client are those of a WebSocket client.\<close>

lemma mc_process_response_books:
  assumes "client_inv N c"
  shows "gains N c (\<lambda>p. gives_token p (ResultWrapper w)) (snd (mc_process_response consumer t now w c))"
proof -
  have more: "gains N c G (c1\<lparr>mc_source_measurements := ms\<rparr>)" if "gains N c G c1" for c1 :: measurement_client and G ms
    using that by (simp add: gains_def client_inv_def spendable_def holds_token_def)
  show ?thesis
    using ws_process_response_gains [OF assms, of w consumer t]
    by (auto simp: mc_process_response_def Let_def intro: more split: prod.split option.split)
qed

end
