(* ===== verification/Spec2Isabelle.thy ===== *)
theory Spec2Isabelle
  imports Server_Main Event_Loop Local_Engine Go_Session Push_Source Opencv_Adapter Measurement_Client
begin

text \<open>
  A verification development for Gabriel, a platform for wearable cognitive assistance: clients send
  frames to a server, the server hands them to cognitive engines, and results travel back.  Flow control
  is by tokens: a client has a fixed number of tokens per producer, an input costs one, and the first
  result for the input returns it.  The development models the server, the engines' side, the Python
  clients on their three transports and the Go client, and proves that the accounting works, or shows
  the runs in which it does not.

  \<^bold>\<open>Parts of the program and the theories that model them.\<close>

  \<^item> \<open>Prelude\<close>: names of values, insertion-ordered dictionaries, exceptions as values, endpoints.
  \<^item> \<open>Protocol\<close>: the messages of \<open>gabriel.proto\<close>; the effects a handler has on the outside.
  \<^item> \<open>Gabriel_Server\<close>: \<open>gabriel_server.py\<close>, the client-facing core.  \<open>client\<close> is \<open>_Client\<close>; \<open>consumer_helper\<close>,
    \<open>send_result\<close> and the like are the methods.  \<open>handle_message\<close> is the part that every transport has in
    common.  Here are the abstract account of a client (\<open>account_step\<close>: charge, give back, forfeit) and the
    locales \<open>transport\<close> and \<open>flow_control\<close>.
  \<^item> \<open>Producer_Info\<close>, \<open>Engine_Worker\<close>, \<open>Engine_Side\<close>: the classes \<open>_ProducerInfo\<close> and \<open>_EngineWorker\<close> of
    \<open>server_runner.py\<close>, and the dispatch of an input to its target engines.
  \<^item> \<open>Result_Manager\<close>: \<open>result_manager.py\<close>.
  \<^item> \<open>Server_Runner\<close>: the class \<open>_Server\<close>: engine sessions, registration, results, removal; the events of the
    whole server, its reachable states and the invariant \<open>server_inv\<close>.
  \<^item> \<open>Server_Effects\<close>, \<open>Server_Properties\<close>: what the events send, and the properties of the server.
  \<^item> \<open>Await_Points\<close>, \<open>Event_Loop\<close>: the handler of an input as a coroutine that is suspended at every write to an
    engine, and an event loop that runs other handlers in between.
  \<^item> \<open>Grpc_Server\<close>, \<open>Websocket_Server\<close>, \<open>Zeromq_Server\<close>: the three client-facing transports, each with its own
    state and step relation, refined to the events of \<open>Server_Runner\<close>.
  \<^item> \<open>Tls_Utils\<close>, \<open>Server_Main\<close>: \<open>tls_utils.py\<close>, and how \<open>main.py\<close> and \<open>ServerRunner\<close> configure the listeners.
  \<^item> \<open>Engine_Runner\<close>: \<open>engine_runner.py\<close>, the program around one engine.  \<open>Local_Engine\<close>: \<open>local_engine.py\<close>,
    server and engine in one program.
  \<^item> \<open>Gabriel_Client\<close>, \<open>Grpc_Client\<close>, \<open>Websocket_Client\<close>, \<open>Zeromq_Client\<close>: the Python clients.  Each asyncio task
    is a phase machine; a turn of a task runs to its next await.  The locale \<open>flow_client\<close> is the contract
    of a client towards the server.
  \<^item> \<open>Measurement_Client\<close>, \<open>Push_Source\<close>, \<open>Opencv_Adapter\<close>: the additions to the Python client.
  \<^item> \<open>Go_Client\<close>: the Go client, with one phase machine per goroutine and explicit pool objects.
  \<^item> \<open>Flow_Server\<close>, \<open>End_To_End\<close>, \<open>Go_Session\<close>: one client and the server over a network.

  \<^bold>\<open>How the model corresponds to the code.\<close>  A handler is a function from the state to an exception (or none),
  the new state and the list of effects, in order.  What the outside decides is an argument: which writes
  go through (the record \<open>world\<close>), what an engine or a producer returns, the time.  Handlers are atomic and
  are interleaved in any order; where a handler awaits in the middle of a change of state, the change is
  modelled as one step.  For the handler that awaits most, that of an input, \<open>Await_Points\<close> drops this
  simplification: it is split at its awaits, the atomic handler is shown to be its undisturbed run, and
  \<open>Event_Loop\<close> says what other handlers can do to it in between.  Python's integers are unbounded and are \<open>int\<close>; Go's are 64 bits wide, which no
  count of tokens or frames reaches.  Sets whose order the code cannot rely on are lists without
  duplicates, and where the order could matter it is shown not to.

  \<^bold>\<open>What is shown.\<close>

  \<^item> The books of the server (\<open>Server_Properties\<close>): tokens stay within the allotment in every reachable state, none
    is lost with one engine, every event is a move of the abstract account, no handler raises anything
    but a failed write, a pending input has an engine at work on it; what each kind of result does.
  \<^item> Interleaving (\<open>Event_Loop\<close>): the bounds on the tokens survive any handler that runs between the writes of an
    input, as long as an engine still works on the input when its handler ends; two runs show what an
    answer that comes earlier does.
  \<^item> The choice of the next input (\<open>Engine_Worker\<close>) equals a reference search and is fair; the dispatch
    (\<open>Engine_Side\<close>) does not depend on the order of the targets, and its replies are characterised.
  \<^item> Each transport refines the common server.
  \<^item> End to end: in a session of a gRPC, ZeroMQ or Go client with the server, the client is never told
    \<open>NO_TOKENS\<close>, and every token that comes back fits its pool.  The proof is done once, in \<open>flow_client\<close>,
    and instantiated for each client; the WebSocket client satisfies the contract as well.
  \<^item> Engine runner and local engine: one answer per frame and in order, well-formed results, the retries,
    conservation of tokens.
  \<^item> Agreements between the two ends of a stream (below): the gRPC clients open streams the server accepts, and no
    end pings more often than the other permits; the Python transports treat every response alike.
  \<^item> Runs in which the code does not do what it means to: a lost token, a frame at the wrong engine, an
    over-credited client, a client that overspends after a reconnection, a stalled local engine, a client
    ended by a stopped producer, a push source that repeats frames, a Go client that hangs and one that panics.

  \<^bold>\<open>Bounds and fuel.\<close>  No definition uses fuel.  The only loops that are not structural are the round robin, whose
  length is bounded by the number of producers of a worker, the retry loop of the engine runner, which
  is structural in the list of attempts, and the resumption of a suspended handler (\<open>finish_alone\<close>), which
  ends because every resumption leaves fewer targets.  Numbers of clients, engines, producers and frames are unbounded.

  \<^bold>\<open>Not modelled.\<close>  Prometheus metrics and their HTTP servers; logging; \<open>argparse\<close>; the protobuf encoding (messages are
  values, and where bytes matter the encoder and decoder are parameters); sockets, gRPC, WebSocket and
  ZeroMQ themselves (which writes succeed and when a connection is lost is an argument); interleavings
  inside the handlers other than that of an input, and data races between goroutines; process
  creation and shutdown in \<open>launch_async\<close> and \<open>LocalEngine.run_async\<close>; the SQLAlchemy tables of \<open>models.py\<close>, which
  nothing uses; generated protocol code, examples and tests.
\<close>

section \<open>Agreements between the two ends of a stream\<close>

text \<open>
  The gRPC clients, in Python and in Go, open streams that the server accepts in the intended role.
\<close>

definition stream_start :: "grpc_server \<Rightarrow> (string \<times> string) list \<Rightarrow> session_start" where
  "stream_start g md = fst (client_session_start g (dict_get md ''session-id'') (dict_get md ''stream-role''))"

lemma client_streams_accepted:
  assumes "sid \<noteq> []"
  shows "stream_start g (control_metadata sid) = ControlStream sid"
    and "stream_start g (producer_metadata sid) = ProducerStream sid"
    and "stream_start g (go_stream_metadata sid ''control'') = ControlStream sid"
    and "stream_start g (go_stream_metadata sid ''producer'') = ProducerStream sid"
  using assms
  by (simp_all add: stream_start_def client_session_start_def control_metadata_def producer_metadata_def
      go_stream_metadata_def)

text \<open>
  Keepalive pings: the interval at which one end pings is never shorter than the interval that the other
  end permits, on the streams between clients and server and, in both directions, between engines and
  server; and no end limits the number of pings without data.
\<close>

definition permits_pings :: "(string \<times> int) list \<Rightarrow> int \<Rightarrow> bool" where
  "permits_pings options interval \<longleftrightarrow>
     (\<exists>least. dict_get options ''grpc.http2.min_ping_interval_without_data_ms'' = Some least \<and> least \<le> interval) \<and>
     dict_get options ''grpc.http2.max_pings_without_data'' = Some 0"

lemma keepalives_permitted:
  "permits_pings (grpc_server_options window max_size) (the (dict_get default_channel_options ''grpc.keepalive_time_ms''))"
  "permits_pings (grpc_server_options window max_size) (fst go_keepalive)"
  "permits_pings (engine_server_options max_size) (the (dict_get engine_channel_options ''grpc.keepalive_time_ms''))"
  "permits_pings engine_channel_options (the (dict_get (engine_server_options max_size) ''grpc.keepalive_time_ms''))"
  by (simp_all add: permits_pings_def grpc_server_options_def engine_server_options_def engine_channel_options_def
      default_channel_options_def go_keepalive_def)

section \<open>Properties that span components\<close>

text \<open>
  The client transports agree on responses.  The three \<open>_process_response\<close> methods, which differ in
  which status codes they name, have the same effect on every client and every response: the same
  callback, the same latency bookkeeping, the same exceptions and the same token return.
\<close>

theorem client_responses_agree:
  "ws_process_response consumer now w c = grpc_process_response consumer now w c \<and>
   zeromq_process_response consumer now w c = grpc_process_response consumer now w c"
  by (auto simp: ws_process_response_def grpc_process_response_def zeromq_process_response_def
      status_code_has_name_def Let_def)

end
